(* ===== verification/Prelude.thy ===== *)
theory Prelude
  imports Main "HOL-Library.Word"
begin

text \<open>
  Shared vocabulary of the development: the machine integers of the Go sources, the outcome of
  a Go function that may return an error or panic, and the generic facts about outcomes, words
  and lists that the component theories use.

  A Go function with the result type \<open>(T, error)\<close> returns \<open>Ok v\<close> for a nil error and \<open>Fail e\<close>
  otherwise; \<open>Panic\<close> is a run-time panic (explicit, a nil dereference, an index out of range or
  a division by zero).
\<close>

unbundle bit_operations_syntax

section \<open>Machine integers\<close>

type_synonym u8 = "8 word"
type_synonym u16 = "16 word"
type_synonym u32 = "32 word"
type_synonym u64 = "64 word"

section \<open>Outcomes of Go functions\<close>

named_theorems outcome_iff \<open>when a composed outcome is \<open>Ok\<close>\<close>

datatype ('e, 'a) outcome = Ok 'a | Fail 'e | Panic

fun obind :: "('e, 'a) outcome \<Rightarrow> ('a \<Rightarrow> ('e, 'b) outcome) \<Rightarrow> ('e, 'b) outcome" where
  "obind (Ok a) f = f a"
| "obind (Fail e) f = Fail e"
| "obind Panic f = Panic"

text \<open>Wrapping an error (\<open>errors.Wrap\<close>) changes the error value only.\<close>

fun owrap :: "('e \<Rightarrow> 'f) \<Rightarrow> ('e, 'a) outcome \<Rightarrow> ('f, 'a) outcome" where
  "owrap w (Ok a) = Ok a"
| "owrap w (Fail e) = Fail (w e)"
| "owrap w Panic = Panic"

text \<open>The shape \<open>if err != nil { panic(err) }\<close>.\<close>

fun opanic :: "('e, 'a) outcome \<Rightarrow> ('f, 'a) outcome" where
  "opanic (Ok a) = Ok a"
| "opanic (Fail e) = Panic"
| "opanic Panic = Panic"

fun is_Ok :: "('e, 'a) outcome \<Rightarrow> bool" where
  "is_Ok (Ok a) = True"
| "is_Ok _ = False"

lemma obind_Ok_iff [outcome_iff]: "obind m f = Ok b \<longleftrightarrow> (\<exists>a. m = Ok a \<and> f a = Ok b)"
  by (cases m) auto

lemma obind_Fail_iff: "obind m f = Fail e \<longleftrightarrow> m = Fail e \<or> (\<exists>a. m = Ok a \<and> f a = Fail e)"
  by (cases m) auto

lemma obind_Panic_iff: "obind m f = Panic \<longleftrightarrow> m = Panic \<or> (\<exists>a. m = Ok a \<and> f a = Panic)"
  by (cases m) auto

lemma owrap_Ok_iff [outcome_iff]: "owrap w m = Ok a \<longleftrightarrow> m = Ok a"
  by (cases m) auto

lemma owrap_Panic_iff [simp]: "owrap w m = Panic \<longleftrightarrow> m = Panic"
  by (cases m) auto

lemma opanic_Ok_iff [outcome_iff]: "opanic m = Ok a \<longleftrightarrow> m = Ok a"
  by (cases m) auto

lemma opanic_Panic_iff: "opanic m = Panic \<longleftrightarrow> (\<forall>a. m \<noteq> Ok a)"
  by (cases m) auto

lemma opanic_not_Fail [simp]: "opanic m \<noteq> Fail e"
  by (cases m) auto

lemma obind_assoc: "obind (obind m f) g = obind m (\<lambda>a. obind (f a) g)"
  by (cases m) auto

lemma obind_cong [fundef_cong]:
  "m = m' \<Longrightarrow> (\<And>a. m' = Ok a \<Longrightarrow> f a = f' a) \<Longrightarrow> obind m f = obind m' f'"
  by (cases m') auto

text \<open>A \<open>for\<close> loop over a slice that threads a state and stops at the first failure.\<close>

fun ofold :: "('a \<Rightarrow> 's \<Rightarrow> ('e, 's) outcome) \<Rightarrow> 'a list \<Rightarrow> 's \<Rightarrow> ('e, 's) outcome" where
  "ofold f [] s = Ok s"
| "ofold f (x # xs) s = obind (f x s) (ofold f xs)"

lemma ofold_append: "ofold f (xs @ ys) s = obind (ofold f xs s) (ofold f ys)"
proof (induction xs arbitrary: s)
  case (Cons x xs)
  then show ?case by (cases "f x s") auto
qed simp

lemma ofold_invariant:
  assumes "ofold f xs s = Ok t" and "I s"
    and "\<And>x s t. x \<in> set xs \<Longrightarrow> I s \<Longrightarrow> f x s = Ok t \<Longrightarrow> I t"
  shows "I t"
  using assms by (induction xs arbitrary: s) (auto simp: outcome_iff)

lemma ofold_total:
  assumes "I s" and "\<And>x s. x \<in> set xs \<Longrightarrow> I s \<Longrightarrow> \<exists>t. f x s = Ok t \<and> I t"
  shows "\<exists>t. ofold f xs s = Ok t \<and> I t"
  using assms
proof (induction xs arbitrary: s)
  case Nil
  then show ?case by simp
next
  case (Cons x xs)
  from Cons.prems(1) Cons.prems(2)[of x s] obtain t where t: "f x s = Ok t" "I t" by auto
  from Cons.IH[OF t(2)] Cons.prems(2) t(1) show ?case by auto
qed

section \<open>Words\<close>

lemma unat_less_2p64 [simp]: "unat (a :: u64) < 18446744073709551616"
  using unsigned_less[of a] by simp

lemma unat_le_max_u64 [simp]: "unat (a :: u64) \<le> 18446744073709551615"
  using unat_less_2p64[of a] by linarith

lemma unat_max_u64 [simp]: "unat (- 1 :: u64) = 18446744073709551615"
  by (simp add: unsigned_minus_1_eq_mask mask_eq_exp_minus_1)

lemma unat_add_u64:
  "unat (a :: u64) + unat b < 2 ^ 64 \<Longrightarrow> unat (a + b) = unat a + unat b"
  by (simp add: unat_word_ariths)

lemma unat_mult_u64:
  "unat (a :: u64) * unat b < 2 ^ 64 \<Longrightarrow> unat (a * b) = unat a * unat b"
  by (simp add: unat_word_ariths)

lemma unat_sub_u64: "b \<le> (a :: u64) \<Longrightarrow> unat (a - b) = unat a - unat b"
  by (simp add: unat_sub_if_size word_le_nat_alt)

lemma unat_of_nat_u64: "n < 2 ^ 64 \<Longrightarrow> unat (of_nat n :: u64) = n"
  by (simp add: unat_of_nat)

lemma unat_Suc_u64:
  assumes "(a :: u64) < b"
  shows "unat (a + 1) = Suc (unat a)"
proof -
  from assms have "unat a < unat b" by (simp add: word_less_nat_alt)
  then have "unat a + 1 < 18446744073709551616" using unat_less_2p64[of b] by linarith
  then show ?thesis using unat_add_u64[of a 1] by simp
qed

lemma sint_small_u64:
  assumes "unat (x :: u64) < 9223372036854775808"
  shows "sint x = int (unat x)"
proof -
  have "int (unat x) < int 9223372036854775808" using assms by (simp only: of_nat_less_iff)
  then have "uint x < 9223372036854775808" by simp
  moreover have "- 9223372036854775808 \<le> uint x" by (rule order_trans[of _ 0]) simp_all
  ultimately have "signed_take_bit 63 (uint x) = uint x"
    by (simp only: signed_take_bit_int_eq_self_iff) simp
  then show ?thesis by (simp add: sint_uint)
qed

section \<open>Lists\<close>

lemma nth_eq_iff_upto_length:
  "xs = ys \<longleftrightarrow> length xs = length ys \<and> (\<forall>i < length xs. xs ! i = ys ! i)"
  by (auto simp: list_eq_iff_nth_eq)

lemma nat_divmod_iff: "0 < (n :: nat) \<Longrightarrow> t div n = q \<and> t mod n = m \<longleftrightarrow> t = q * n + m \<and> m < n"
  by auto

end
