(* ===== verification/Math_Helper.thy ===== *)
theory Math_Helper
  imports Prelude "HOL-Library.Signed_Division"
begin

text \<open>
  The integer helpers of \<open>math/math_helper.go\<close>: checked 64-bit arithmetic, power-of-two tests
  and the cached integer square root. \<open>bits.Mul64\<close>, \<open>bits.Add64\<close>, \<open>bits.Sub64\<close> and
  \<open>bits.Div64\<close> are the standard library's double-word operations.
\<close>

section \<open>Checked arithmetic\<close>

datatype math_error = ErrOverflow | ErrDivByZero | ErrMulOverflow | ErrAddOverflow | ErrSubUnderflow

definition bits_Mul64 :: "u64 \<Rightarrow> u64 \<Rightarrow> u64 \<times> u64" where
  "bits_Mul64 a b = (of_nat ((unat a * unat b) div 2 ^ 64), a * b)"

definition bits_Add64 :: "u64 \<Rightarrow> u64 \<Rightarrow> u64 \<Rightarrow> u64 \<times> u64" where
  "bits_Add64 a b c = (a + b + c, of_nat ((unat a + unat b + unat c) div 2 ^ 64))"

definition bits_Sub64 :: "u64 \<Rightarrow> u64 \<Rightarrow> u64 \<Rightarrow> u64 \<times> u64" where
  "bits_Sub64 a b c = (a - b - c, if unat a < unat b + unat c then 1 else 0)"

text \<open>\<open>bits.Div64(hi, lo, y)\<close>, which panics for \<open>y = 0\<close> and for \<open>y \<le> hi\<close>.\<close>

definition bits_Div64 :: "u64 \<Rightarrow> u64 \<Rightarrow> u64 \<Rightarrow> (math_error, u64 \<times> u64) outcome" where
  "bits_Div64 hi lo y =
     (if y = 0 \<or> y \<le> hi then Panic
      else let n = unat hi * 2 ^ 64 + unat lo
           in Ok (of_nat (n div unat y), of_nat (n mod unat y)))"

definition Mul64 :: "u64 \<Rightarrow> u64 \<Rightarrow> (math_error, u64) outcome" where
  "Mul64 a b = (let (overflows, val) = bits_Mul64 a b
                in if overflows > 0 then Fail ErrMulOverflow else Ok val)"

definition Div64 :: "u64 \<Rightarrow> u64 \<Rightarrow> (math_error, u64) outcome" where
  "Div64 a b = (if b = 0 then Fail ErrDivByZero else obind (bits_Div64 0 a b) (\<lambda>(val, _). Ok val))"

definition Add64 :: "u64 \<Rightarrow> u64 \<Rightarrow> (math_error, u64) outcome" where
  "Add64 a b = (let (res, carry) = bits_Add64 a b 0
                in if carry > 0 then Fail ErrAddOverflow else Ok res)"

definition Sub64 :: "u64 \<Rightarrow> u64 \<Rightarrow> (math_error, u64) outcome" where
  "Sub64 a b = (let (res, borrow) = bits_Sub64 a b 0
                in if borrow > 0 then Fail ErrSubUnderflow else Ok res)"

definition Mod64 :: "u64 \<Rightarrow> u64 \<Rightarrow> (math_error, u64) outcome" where
  "Mod64 a b = (if b = 0 then Fail ErrDivByZero else obind (bits_Div64 0 a b) (\<lambda>(_, val). Ok val))"

text \<open>The Go type \<open>int\<close> is 64 bits wide; its values are integers between the two bounds below.\<close>

definition MaxInt :: int where "MaxInt = 2 ^ 63 - 1"
definition MinInt :: int where "MinInt = - (2 ^ 63)"

definition Int_of :: "u64 \<Rightarrow> (math_error, int) outcome" where
  "Int_of u = (if uint u > MaxInt then Fail ErrOverflow else Ok (uint u))"

fun AddInt_loop :: "int \<Rightarrow> int list \<Rightarrow> (math_error, int) outcome" where
  "AddInt_loop acc [] = Ok acc"
| "AddInt_loop acc (ii # is) =
     (if ii > 0 \<and> acc > MaxInt - ii then Fail ErrOverflow
      else if ii < 0 \<and> acc < MinInt - ii then Fail ErrOverflow
      else AddInt_loop (acc + ii) is)"

definition AddInt :: "int list \<Rightarrow> (math_error, int) outcome" where
  "AddInt is = AddInt_loop 0 is"

section \<open>Small helpers\<close>

definition CeilDiv8 :: "int \<Rightarrow> int" where
  "CeilDiv8 n = (let ret = n sdiv 8 in if n smod 8 > 0 then ret + 1 else ret)"

definition IsPowerOf2 :: "u64 \<Rightarrow> bool" where
  "IsPowerOf2 n \<longleftrightarrow> n \<noteq> 0 \<and> n AND (n - 1) = 0"

definition PowerOf2 :: "u64 \<Rightarrow> (math_error, u64) outcome" where
  "PowerOf2 n = (if n \<ge> 64 then Panic else Ok (push_bit (unat n) 1))"

section \<open>The cached square root\<close>

record sqrt_cache =
  squareRoot :: u64
  cache_balance :: u64

text \<open>The initial value of the package variable \<open>cachedSquareRoot\<close>.\<close>

definition cachedSquareRoot_init :: sqrt_cache where
  "cachedSquareRoot_init = \<lparr>squareRoot = 126491106, cache_balance = 15999999897103236\<rparr>"

text \<open>
  The \<open>for\<close> loop: one Newton step, then the test. The loop ends on every input: after the first
  step each further step has \<open>val < root\<close>, so the root gets smaller, and a root of zero panics
  at the division. The loop writes the root to the cache as it goes, so the second component is
  the cached root when it ends, also on a panic.
\<close>

function newton_loop :: "u64 \<Rightarrow> u64 \<Rightarrow> u64 \<Rightarrow> (math_error, u64) outcome \<times> u64" where
  "newton_loop balance root val =
     (let root' = (root + val) div 2
      in if root' = 0 then (Panic, root')
         else let val' = balance div root'
              in if root' \<le> val' then (Ok root', root') else newton_loop balance root' val')"
  by pat_completeness auto

lemma half_sum_less:
  fixes a b :: u64
  assumes "b < a"
  shows "unat ((a + b) div 2) < unat a"
proof -
  have "unat (a + b) \<le> unat a + unat b" by (simp add: unat_word_ariths)
  moreover have "unat b < unat a" using assms by (simp add: word_less_nat_alt)
  ultimately show ?thesis by (simp add: unat_div)
qed

termination newton_loop
proof (relation "measure (\<lambda>(balance, root, val). if val < root then unat root else 2 ^ 64)")
  fix balance root val root' val' :: u64
  assume *: "root' = (root + val) div 2" "\<not> root' \<le> val'"
  then show "((balance, root', val'), (balance, root, val))
      \<in> measure (\<lambda>(balance, root, val). if val < root then unat root else 2 ^ 64)"
    using half_sum_less[of val root] by (auto simp: not_le)
qed simp

declare newton_loop.simps [simp del]

definition CachedSquareRoot :: "u64 \<Rightarrow> sqrt_cache \<Rightarrow> (math_error, u64) outcome \<times> sqrt_cache" where
  "CachedSquareRoot balance c =
     (if balance = 0 then (Ok 0, c)
      else if balance = cache_balance c then (Ok (squareRoot c), c)
      else let c1 = c\<lparr>cache_balance := balance\<rparr>
           in if squareRoot c1 = 0 then (Panic, c1)
              else case newton_loop balance (squareRoot c1) (balance div squareRoot c1) of
                (out, root) \<Rightarrow> (out, c1\<lparr>squareRoot := root\<rparr>))"

section \<open>Correctness of checked arithmetic\<close>

lemma Mul64_eq: "Mul64 a b = (if unat a * unat b < 2 ^ 64 then Ok (a * b) else Fail ErrMulOverflow)"
proof -
  let ?q = "unat a * unat b div 2 ^ 64"
  have "unat a * unat b < 2 ^ 64 * 2 ^ 64"
    by (rule mult_strict_mono) simp_all
  then have "?q < 2 ^ 64" by (simp add: less_mult_imp_div_less)
  then have "of_nat ?q > (0 :: u64) \<longleftrightarrow> ?q > 0"
    by (simp add: word_less_nat_alt unat_of_nat_u64)
  then show ?thesis
    by (auto simp: Mul64_def bits_Mul64_def div_greater_zero_iff)
qed

lemma Add64_eq: "Add64 a b = (if unat a + unat b < 2 ^ 64 then Ok (a + b) else Fail ErrAddOverflow)"
proof -
  let ?q = "(unat a + unat b) div 2 ^ 64"
  have "unat a + unat b < 18446744073709551616 * 18446744073709551616"
    using unat_less_2p64[of a] unat_less_2p64[of b] by linarith
  then have "?q < 2 ^ 64" by (simp add: less_mult_imp_div_less)
  then have "of_nat ?q > (0 :: u64) \<longleftrightarrow> ?q > 0"
    by (simp add: word_less_nat_alt unat_of_nat_u64)
  then show ?thesis
    by (auto simp: Add64_def bits_Add64_def div_greater_zero_iff)
qed

lemma Sub64_eq: "Sub64 a b = (if b \<le> a then Ok (a - b) else Fail ErrSubUnderflow)"
  by (auto simp: Sub64_def bits_Sub64_def word_le_nat_alt)

lemma Div64_eq: "Div64 a b = (if b = 0 then Fail ErrDivByZero else Ok (a div b))"
  by (auto simp: Div64_def bits_Div64_def Let_def simp flip: unat_div)

lemma Mod64_eq: "Mod64 a b = (if b = 0 then Fail ErrDivByZero else Ok (a mod b))"
  by (auto simp: Mod64_def bits_Div64_def Let_def simp flip: unat_mod)

lemmas math64_eq = Mul64_eq Add64_eq Sub64_eq Div64_eq Mod64_eq

lemma Int_of_eq: "Int_of u = (if unat u < 2 ^ 63 then Ok (int (unat u)) else Fail ErrOverflow)"
proof -
  have "uint u = int (unat u)" by simp
  then have "uint u > 9223372036854775807 \<longleftrightarrow> \<not> unat u < 9223372036854775808" by arith
  then show ?thesis by (simp add: Int_of_def MaxInt_def)
qed

lemma AddInt_loop_eq:
  assumes "MinInt \<le> acc" "acc \<le> MaxInt" and "\<forall>i \<in> set is. MinInt \<le> i \<and> i \<le> MaxInt"
  shows "AddInt_loop acc is =
    (if \<forall>k \<le> length is. acc + sum_list (take k is) \<in> {MinInt..MaxInt}
     then Ok (acc + sum_list is) else Fail ErrOverflow)"
  using assms
proof (induction "is" arbitrary: acc)
  case Nil
  then show ?case by simp
next
  case (Cons i "is")
  have split: "(\<forall>k \<le> length (i # is). acc + sum_list (take k (i # is)) \<in> {MinInt..MaxInt})
    \<longleftrightarrow> acc \<in> {MinInt..MaxInt} \<and> (\<forall>k \<le> length is. (acc + i) + sum_list (take k is) \<in> {MinInt..MaxInt})"
    by (simp add: All_less_Suc2 le_simps(2)[symmetric] add.assoc flip: less_Suc_eq_le)
  show ?case
  proof (cases "acc + i \<in> {MinInt..MaxInt}")
    case True
    then have "AddInt_loop acc (i # is) = AddInt_loop (acc + i) is" by simp
    with Cons True split show ?thesis by (simp add: add.assoc)
  next
    case False
    with Cons.prems have "AddInt_loop acc (i # is) = Fail ErrOverflow" by auto
    moreover have "\<not> (\<forall>k \<le> length is. (acc + i) + sum_list (take k is) \<in> {MinInt..MaxInt})"
      using False by (auto intro!: exI[of _ 0])
    ultimately show ?thesis using split by simp
  qed
qed

lemma CeilDiv8_eq: "CeilDiv8 n = - ((- n) div 8)"
  by (simp add: CeilDiv8_def Let_def signed_divide_int_def signed_modulo_int_def sgn_if abs_if)
    presburger

section \<open>Powers of two\<close>

lemma and_minus_one_iff: "0 < (n :: nat) \<Longrightarrow> n AND (n - 1) = 0 \<longleftrightarrow> (\<exists>k. n = 2 ^ k)"
proof (induction n rule: less_induct)
  case (less n)
  show ?case
  proof (cases "even n")
    case True
    then obtain m where m: "n = 2 * m" by blast
    with less.prems have m0: "0 < m" "m < n" by auto
    obtain m' where m': "m = Suc m'" using m0(1) by (cases m) auto
    then have "n - 1 = Suc (2 * m')" using m by simp
    with m m' have "n AND (n - 1) = 2 * (m AND (m - 1))" by (subst and_rec) simp
    with less.IH[OF m0(2,1)] have "n AND (n - 1) = 0 \<longleftrightarrow> (\<exists>k. m = 2 ^ k)" by simp
    also have "\<dots> \<longleftrightarrow> (\<exists>k. n = 2 ^ k)"
    proof
      assume "\<exists>k. n = 2 ^ k"
      then obtain k where k: "n = 2 ^ k" by blast
      with True have "0 < k" by (cases k) auto
      with k m show "\<exists>k. m = 2 ^ k" by (intro exI[of _ "k - 1"]) (cases k, auto)
    qed (use m in \<open>auto intro: exI[of _ "Suc _"]\<close>)
    finally show ?thesis .
  next
    case False
    have "n AND (n - 1) = n - 1"
      using False by (subst and_rec) (auto elim!: oddE)
    moreover have "(\<exists>k. n = 2 ^ k) \<longleftrightarrow> n = 1"
      using False by (metis even_power even_numeral gr0I power_0)
    ultimately show ?thesis using less.prems by auto
  qed
qed

lemma unat_and_u64: "unat ((a :: u64) AND b) = unat a AND unat b"
  by (simp add: unsigned_and_eq)

text \<open>\<open>IsPowerOf2\<close> accepts exactly the 64 powers of two.\<close>

lemma IsPowerOf2_iff: "IsPowerOf2 n \<longleftrightarrow> (\<exists>k < 64. unat n = 2 ^ k)"
proof (cases "n = 0")
  case False
  then have pos: "0 < unat n" by (simp add: unat_gt_0)
  have "n AND (n - 1) = 0 \<longleftrightarrow> unat n AND (unat n - 1) = 0"
    using False by (metis unat_and_u64 unat_0 unat_eq_zero unat_minus_one)
  also have "\<dots> \<longleftrightarrow> (\<exists>k. unat n = 2 ^ k)"
    by (rule and_minus_one_iff[OF pos])
  also have "\<dots> \<longleftrightarrow> (\<exists>k < 64. unat n = 2 ^ k)"
  proof
    assume "\<exists>k. unat n = 2 ^ k"
    then obtain k where k: "unat n = 2 ^ k" by blast
    moreover have "(2 :: nat) ^ k < 2 ^ 64" using k unat_less_2p64[of n] by simp
    then have "k < 64" by (simp only: power_strict_increasing_iff)
    ultimately show "\<exists>k < 64. unat n = 2 ^ k" by blast
  qed blast
  finally show ?thesis using False by (simp add: IsPowerOf2_def)
qed (simp add: IsPowerOf2_def)

lemma PowerOf2_unat: "n < 64 \<Longrightarrow> PowerOf2 n = Ok r \<Longrightarrow> unat r = 2 ^ unat n"
proof -
  assume n: "n < 64" and r: "PowerOf2 n = Ok r"
  then have "(2 :: nat) ^ unat n < 2 ^ 64"
    by (intro power_strict_increasing) (simp_all add: word_less_nat_alt)
  moreover have "r = of_nat (2 ^ unat n)"
    using n r by (simp add: PowerOf2_def push_bit_eq_mult split: if_splits)
  ultimately show ?thesis by (simp only: unat_of_nat_u64)
qed

section \<open>The square root loop\<close>

text \<open>The step of Newton's method never falls below the floor of the square root.\<close>

lemma newton_step_ge:
  fixes r b m :: nat
  assumes "0 < r" and "m * m \<le> b"
  shows "m \<le> (r + b div r) div 2"
proof -
  have "2 * int m * int r \<le> int r * int r + int m * int m"
    using zero_le_square[of "int r - int m"] by (simp add: algebra_simps)
  then have "int (2 * m * r) \<le> int (r * r + m * m)" by simp
  then have "2 * m * r \<le> r * r + m * m" by (simp only: of_nat_le_iff)
  then have "(2 * m - r) * r \<le> b" using assms(2) by (simp add: diff_mult_distrib)
  then have "2 * m - r \<le> b div r" using assms(1) by (simp add: less_eq_div_iff_mult_less_eq)
  then show ?thesis by linarith
qed

definition is_isqrt :: "nat \<Rightarrow> nat \<Rightarrow> bool" where
  "is_isqrt r n \<longleftrightarrow> r * r \<le> n \<and> n < (r + 1) * (r + 1)"

lemma unat_half_sum:
  fixes a b :: u64
  assumes "unat a + unat b < 2 ^ 64"
  shows "unat ((a + b) div 2) = (unat a + unat b) div 2"
  using unat_add_u64[OF assms] by (simp add: unat_div)

lemma newton_loop_isqrt:
  assumes "unat r + unat v < 2 ^ 64" and "v = b div r" and "0 < unat r" and "0 < unat b"
  shows "\<exists>root. newton_loop b r v = (Ok root, root) \<and> is_isqrt (unat root) (unat b)"
  using assms
proof (induction b r v rule: newton_loop.induct)
  case (1 b r v)
  define r' where "r' = (r + v) div 2"
  define v' where "v' = b div r'"
  have r': "unat r' = (unat r + unat b div unat r) div 2"
    using unat_half_sum[OF "1.prems"(1)] "1.prems"(2) by (simp add: r'_def unat_div)
  have ge: "m \<le> unat r'" if "m * m \<le> unat b" for m
    using newton_step_ge[OF "1.prems"(3) that] r' by simp
  from ge[of 1] "1.prems"(4) have pos: "0 < unat r'" by simp
  then have nz: "r' \<noteq> 0" by auto
  have v': "unat v' = unat b div unat r'" by (simp add: v'_def unat_div)
  show ?case
  proof (cases "r' \<le> v'")
    case True
    then have "newton_loop b r v = (Ok r', r')"
      by (subst newton_loop.simps) (simp add: Let_def nz flip: r'_def v'_def)
    moreover have "unat r' * unat r' \<le> unat b"
      using True v' pos by (simp add: word_le_nat_alt less_eq_div_iff_mult_less_eq)
    moreover have "unat b < (unat r' + 1) * (unat r' + 1)"
      using ge[of "unat r' + 1"] by (rule_tac ccontr) simp
    ultimately show ?thesis by (auto simp: is_isqrt_def)
  next
    case False
    then have "newton_loop b r v = newton_loop b r' v'"
      by (subst newton_loop.simps) (simp add: Let_def nz flip: r'_def v'_def)
    moreover have "unat r' + unat v' < 2 ^ 64"
    proof -
      have "2 * unat r' \<le> unat r + unat v" using unat_half_sum[OF "1.prems"(1)] by (simp add: r'_def)
      moreover have "unat v' < unat r'" using False by (simp add: word_le_nat_alt)
      ultimately show ?thesis using "1.prems"(1) by linarith
    qed
    ultimately show ?thesis
      using "1.IH"[OF r'_def nz v'_def False] pos "1.prems"(4) v'_def by simp
  qed
qed

definition sqrt_cache_inv :: "sqrt_cache \<Rightarrow> bool" where
  "sqrt_cache_inv c \<longleftrightarrow>
     0 < unat (squareRoot c) \<and> is_isqrt (unat (squareRoot c)) (unat (cache_balance c))"

lemma sqrt_cache_inv_init: "sqrt_cache_inv cachedSquareRoot_init"
  by (simp add: sqrt_cache_inv_def cachedSquareRoot_init_def is_isqrt_def)

lemma isqrt_less_2p32: "is_isqrt r (unat (b :: u64)) \<Longrightarrow> r < 4294967296"
proof (rule ccontr)
  assume "is_isqrt r (unat b)" "\<not> r < 4294967296"
  then have "4294967296 * 4294967296 \<le> r * r" by (intro mult_le_mono) simp_all
  moreover have "r * r \<le> unat b" using \<open>is_isqrt r (unat b)\<close> by (simp add: is_isqrt_def)
  ultimately have "18446744073709551616 \<le> unat b" by simp
  then show False using unat_less_2p64[of b] by linarith
qed

lemma first_step_fits:
  assumes "0 < r" "r < 4294967296" "b < 2 ^ 64" and "\<not> (r = 1 \<and> b = 2 ^ 64 - 1)"
  shows "r + b div r < (2 :: nat) ^ 64"
proof (cases "r = 1")
  case True
  with assms show ?thesis by simp
next
  case False
  with assms have "2 \<le> r" by simp
  then have "b div r \<le> b div 2" by (rule div_le_mono2[rotated]) simp
  with assms show ?thesis by simp
qed

text \<open>C25: With a cache that holds the root of its balance, \<open>CachedSquareRoot\<close> returns the integer square root of
  its argument and leaves such a cache, except for a cached root 1 and the argument \<open>MaxUint64\<close>.\<close>

theorem CachedSquareRoot_computes:
  assumes inv: "sqrt_cache_inv c" and ok: "\<not> (squareRoot c = 1 \<and> b = - 1)"
  shows "\<exists>r c'. CachedSquareRoot b c = (Ok r, c') \<and> is_isqrt (unat r) (unat b) \<and> sqrt_cache_inv c'"
proof -
  let ?s = "squareRoot c"
  have s: "0 < unat ?s" "is_isqrt (unat ?s) (unat (cache_balance c))"
    using inv by (auto simp: sqrt_cache_inv_def)
  consider "b = 0" | "b \<noteq> 0" "b = cache_balance c" | "b \<noteq> 0" "b \<noteq> cache_balance c" by blast
  then show ?thesis
  proof cases
    case 3
    have "\<not> (unat ?s = 1 \<and> unat b = 2 ^ 64 - 1)"
      using ok by (auto simp: word_unat_eq_iff)
    then have "unat ?s + unat b div unat ?s < 2 ^ 64"
      using first_step_fits[OF s(1) isqrt_less_2p32[OF s(2)]] unsigned_less[of b] by simp
    then obtain root where "newton_loop b ?s (b div ?s) = (Ok root, root)" "is_isqrt (unat root) (unat b)"
      using newton_loop_isqrt[of ?s "b div ?s" b] s(1) 3 by (auto simp: unat_div unat_gt_0)
    moreover have "0 < unat root" using calculation(2) 3
      by (auto simp: is_isqrt_def unat_eq_zero intro!: gr0I)
    ultimately show ?thesis using 3 s(1) by (auto simp: CachedSquareRoot_def sqrt_cache_inv_def Let_def)
  qed (use inv s in \<open>auto simp: CachedSquareRoot_def is_isqrt_def\<close>)
qed

theorem CachedSquareRoot_computes_witness:
  "\<exists>r c'. CachedSquareRoot 17 cachedSquareRoot_init = (Ok r, c') \<and> is_isqrt (unat r) 17 \<and> sqrt_cache_inv c'"
  using CachedSquareRoot_computes[of cachedSquareRoot_init 17] sqrt_cache_inv_init
  by (simp add: cachedSquareRoot_init_def)

text \<open>C26: With a cached root 1 the call on \<open>MaxUint64\<close> panics: the first Newton sum wraps to 0 and the next
  division divides by it. The panic leaves the root 0 in the cache with the balance \<open>MaxUint64\<close>, so
  that a later call on \<open>MaxUint64\<close> returns the root 0 and a call on any other positive balance panics.\<close>

theorem CachedSquareRoot_overflow:
  assumes "sqrt_cache_inv c" and "squareRoot c = 1"
  shows "\<exists>c'. CachedSquareRoot (- 1) c = (Panic, c') \<and> CachedSquareRoot (- 1) c' = (Ok 0, c') \<and>
    (\<forall>b. b \<noteq> 0 \<and> b \<noteq> - 1 \<longrightarrow> fst (CachedSquareRoot b c') = Panic)"
proof -
  have "cache_balance c \<noteq> - 1" using assms by (auto simp: sqrt_cache_inv_def is_isqrt_def)
  moreover have "newton_loop (- 1) 1 (- 1) = (Panic, 0)" by (subst newton_loop.simps) simp
  ultimately have "CachedSquareRoot (- 1) c = (Panic, c\<lparr>cache_balance := - 1, squareRoot := 0\<rparr>)"
    using assms(2) by (simp add: CachedSquareRoot_def Let_def)
  then show ?thesis
    by (intro exI[of _ "c\<lparr>cache_balance := - 1, squareRoot := 0\<rparr>"]) (simp add: CachedSquareRoot_def Let_def)
qed

theorem CachedSquareRoot_overflow_witness:
  "\<exists>c'. CachedSquareRoot (- 1) \<lparr>squareRoot = 1, cache_balance = 3\<rparr> = (Panic, c') \<and>
    CachedSquareRoot (- 1) c' = (Ok 0, c') \<and> fst (CachedSquareRoot 9 c') = Panic"
  using CachedSquareRoot_overflow[of "\<lparr>squareRoot = 1, cache_balance = 3\<rparr>"]
  by (force simp: sqrt_cache_inv_def is_isqrt_def)

text \<open>C40: \<open>AddInt\<close> returns the sum of its arguments when every partial sum is an \<open>int\<close>, and an overflow
  error when one is not.\<close>

theorem AddInt_exact:
  assumes "\<forall>i \<in> set is. MinInt \<le> i \<and> i \<le> MaxInt"
  shows "AddInt is = (if \<forall>k \<le> length is. sum_list (take k is) \<in> {MinInt..MaxInt}
    then Ok (sum_list is) else Fail ErrOverflow)"
  using AddInt_loop_eq[of 0 "is"] assms by (simp add: AddInt_def MinInt_def MaxInt_def)

theorem AddInt_exact_witness:
  "AddInt [1, - 3] = (if \<forall>k \<le> length [1, - 3 :: int]. sum_list (take k [1, - 3]) \<in> {MinInt..MaxInt}
    then Ok (- 2) else Fail ErrOverflow)"
  using AddInt_exact[of "[1, - 3]"] by (simp add: MinInt_def MaxInt_def)

end
