(* ===== verification/Primitives.thy ===== *)
theory Primitives
  imports Math_Helper
begin

text \<open>
  The numeric types \<open>Epoch\<close>, \<open>Slot\<close>, \<open>ValidatorIndex\<close> and \<open>BuilderIndex\<close> of
  \<open>consensus-types/primitives\<close>. Each is a \<open>uint64\<close>; a Go conversion between them is the
  identity. The \<open>Safe\<close> methods return an error on overflow, underflow and division by zero,
  and the plain methods turn that error into a panic. The locale \<open>checked_uint64\<close> states this
  shared contract once; both method families interpret it.
\<close>

type_synonym epoch = u64
type_synonym slot = u64
type_synonym validator_index = u64
type_synonym builder_index = u64

section \<open>Epoch (\<open>epoch.go\<close>)\<close>

definition Epoch_SafeMul :: "u64 \<Rightarrow> u64 \<Rightarrow> (math_error, u64) outcome" where
  "Epoch_SafeMul e x = Mul64 e x"

definition Epoch_Mul :: "u64 \<Rightarrow> u64 \<Rightarrow> (math_error, u64) outcome" where
  "Epoch_Mul e x = opanic (Epoch_SafeMul e x)"

definition Epoch_SafeDiv :: "u64 \<Rightarrow> u64 \<Rightarrow> (math_error, u64) outcome" where
  "Epoch_SafeDiv e x = Div64 e x"

definition Epoch_Div :: "u64 \<Rightarrow> u64 \<Rightarrow> (math_error, u64) outcome" where
  "Epoch_Div e x = opanic (Epoch_SafeDiv e x)"

definition Epoch_SafeAdd :: "u64 \<Rightarrow> u64 \<Rightarrow> (math_error, u64) outcome" where
  "Epoch_SafeAdd e x = Add64 e x"

definition Epoch_Add :: "u64 \<Rightarrow> u64 \<Rightarrow> (math_error, u64) outcome" where
  "Epoch_Add e x = opanic (Epoch_SafeAdd e x)"

definition Epoch_AddEpoch :: "u64 \<Rightarrow> u64 \<Rightarrow> (math_error, u64) outcome" where
  "Epoch_AddEpoch e x = Epoch_Add e x"

definition Epoch_SafeAddEpoch :: "u64 \<Rightarrow> u64 \<Rightarrow> (math_error, u64) outcome" where
  "Epoch_SafeAddEpoch e x = Epoch_SafeAdd e x"

definition Epoch_SafeSub :: "u64 \<Rightarrow> u64 \<Rightarrow> (math_error, u64) outcome" where
  "Epoch_SafeSub e x = Sub64 e x"

definition Epoch_Sub :: "u64 \<Rightarrow> u64 \<Rightarrow> (math_error, u64) outcome" where
  "Epoch_Sub e x = opanic (Epoch_SafeSub e x)"

definition Epoch_SafeMod :: "u64 \<Rightarrow> u64 \<Rightarrow> (math_error, u64) outcome" where
  "Epoch_SafeMod e x = Mod64 e x"

definition Epoch_Mod :: "u64 \<Rightarrow> u64 \<Rightarrow> (math_error, u64) outcome" where
  "Epoch_Mod e x = opanic (Epoch_SafeMod e x)"

section \<open>Slot (\<open>slot.go\<close>)\<close>

definition Slot_SafeMul :: "u64 \<Rightarrow> u64 \<Rightarrow> (math_error, u64) outcome" where
  "Slot_SafeMul s x = Mul64 s x"

definition Slot_Mul :: "u64 \<Rightarrow> u64 \<Rightarrow> (math_error, u64) outcome" where
  "Slot_Mul s x = opanic (Slot_SafeMul s x)"

definition Slot_MulSlot :: "u64 \<Rightarrow> u64 \<Rightarrow> (math_error, u64) outcome" where
  "Slot_MulSlot s x = Slot_Mul s x"

definition Slot_SafeMulSlot :: "u64 \<Rightarrow> u64 \<Rightarrow> (math_error, u64) outcome" where
  "Slot_SafeMulSlot s x = Slot_SafeMul s x"

definition Slot_SafeDiv :: "u64 \<Rightarrow> u64 \<Rightarrow> (math_error, u64) outcome" where
  "Slot_SafeDiv s x = Div64 s x"

definition Slot_Div :: "u64 \<Rightarrow> u64 \<Rightarrow> (math_error, u64) outcome" where
  "Slot_Div s x = opanic (Slot_SafeDiv s x)"

definition Slot_DivSlot :: "u64 \<Rightarrow> u64 \<Rightarrow> (math_error, u64) outcome" where
  "Slot_DivSlot s x = Slot_Div s x"

definition Slot_SafeDivSlot :: "u64 \<Rightarrow> u64 \<Rightarrow> (math_error, u64) outcome" where
  "Slot_SafeDivSlot s x = Slot_SafeDiv s x"

definition Slot_SafeAdd :: "u64 \<Rightarrow> u64 \<Rightarrow> (math_error, u64) outcome" where
  "Slot_SafeAdd s x = Add64 s x"

definition Slot_Add :: "u64 \<Rightarrow> u64 \<Rightarrow> (math_error, u64) outcome" where
  "Slot_Add s x = opanic (Slot_SafeAdd s x)"

definition Slot_AddSlot :: "u64 \<Rightarrow> u64 \<Rightarrow> (math_error, u64) outcome" where
  "Slot_AddSlot s x = Slot_Add s x"

definition Slot_SafeAddSlot :: "u64 \<Rightarrow> u64 \<Rightarrow> (math_error, u64) outcome" where
  "Slot_SafeAddSlot s x = Slot_SafeAdd s x"

definition Slot_SafeSub :: "u64 \<Rightarrow> u64 \<Rightarrow> (math_error, u64) outcome" where
  "Slot_SafeSub s x = Sub64 s x"

definition Slot_Sub :: "u64 \<Rightarrow> u64 \<Rightarrow> (math_error, u64) outcome" where
  "Slot_Sub s x = opanic (Slot_SafeSub s x)"

definition Slot_SubSlot :: "u64 \<Rightarrow> u64 \<Rightarrow> (math_error, u64) outcome" where
  "Slot_SubSlot s x = Slot_Sub s x"

definition Slot_SafeSubSlot :: "u64 \<Rightarrow> u64 \<Rightarrow> (math_error, u64) outcome" where
  "Slot_SafeSubSlot s x = Slot_SafeSub s x"

definition Slot_SafeMod :: "u64 \<Rightarrow> u64 \<Rightarrow> (math_error, u64) outcome" where
  "Slot_SafeMod s x = Mod64 s x"

definition Slot_Mod :: "u64 \<Rightarrow> u64 \<Rightarrow> (math_error, u64) outcome" where
  "Slot_Mod s x = opanic (Slot_SafeMod s x)"

definition Slot_ModSlot :: "u64 \<Rightarrow> u64 \<Rightarrow> (math_error, u64) outcome" where
  "Slot_ModSlot s x = Slot_Mod s x"

definition Slot_SafeModSlot :: "u64 \<Rightarrow> u64 \<Rightarrow> (math_error, u64) outcome" where
  "Slot_SafeModSlot s x = Slot_SafeMod s x"

definition Slot_FlooredSubSlot :: "slot \<Rightarrow> slot \<Rightarrow> slot" where
  "Slot_FlooredSubSlot s x = (if s < x then 0 else s - x)"

section \<open>ValidatorIndex and BuilderIndex (\<open>validator.go\<close>, \<open>builder_index.go\<close>)\<close>

definition BuilderIndexFlag :: "u64" where
  "BuilderIndexFlag = push_bit 40 1"

definition IsBuilderIndex :: "validator_index \<Rightarrow> bool" where
  "IsBuilderIndex v \<longleftrightarrow> v AND BuilderIndexFlag \<noteq> 0"

definition ToBuilderIndex :: "validator_index \<Rightarrow> builder_index" where
  "ToBuilderIndex v = v AND NOT BuilderIndexFlag"

definition ToValidatorIndex :: "builder_index \<Rightarrow> validator_index" where
  "ToValidatorIndex b = b OR BuilderIndexFlag"

definition ValidatorIndex_Div :: "validator_index \<Rightarrow> u64 \<Rightarrow> (math_error, validator_index) outcome" where
  "ValidatorIndex_Div v x = (if x = 0 then Panic else Ok (v div x))"

definition ValidatorIndex_Add :: "validator_index \<Rightarrow> u64 \<Rightarrow> validator_index" where
  "ValidatorIndex_Add v x = v + x"

definition ValidatorIndex_Sub :: "validator_index \<Rightarrow> u64 \<Rightarrow> (math_error, validator_index) outcome" where
  "ValidatorIndex_Sub v x = (if v < x then Panic else Ok (v - x))"

text \<open>The Go operator \<open>%\<close> panics on a zero divisor.\<close>

definition ValidatorIndex_Mod :: "validator_index \<Rightarrow> u64 \<Rightarrow> (math_error, validator_index) outcome" where
  "ValidatorIndex_Mod v x = (if x = 0 then Panic else Ok (v mod x))"

section \<open>The contract of checked unsigned arithmetic\<close>

locale checked_uint64 =
  fixes SafeMul SafeDiv SafeAdd SafeSub SafeMod :: "u64 \<Rightarrow> u64 \<Rightarrow> (math_error, u64) outcome"
    and Mul Div Add Sub Mod :: "u64 \<Rightarrow> u64 \<Rightarrow> (math_error, u64) outcome"
  assumes SafeMul_spec: "SafeMul a x = Mul64 a x"
    and SafeDiv_spec: "SafeDiv a x = Div64 a x"
    and SafeAdd_spec: "SafeAdd a x = Add64 a x"
    and SafeSub_spec: "SafeSub a x = Sub64 a x"
    and SafeMod_spec: "SafeMod a x = Mod64 a x"
    and Mul_spec: "Mul a x = opanic (SafeMul a x)"
    and Div_spec: "Div a x = opanic (SafeDiv a x)"
    and Add_spec: "Add a x = opanic (SafeAdd a x)"
    and Sub_spec: "Sub a x = opanic (SafeSub a x)"
    and Mod_spec: "Mod a x = opanic (SafeMod a x)"
begin

lemmas Safe_spec = SafeMul_spec SafeDiv_spec SafeAdd_spec SafeSub_spec SafeMod_spec
lemmas panicking_spec = Mul_spec Div_spec Add_spec Sub_spec Mod_spec

lemma SafeMul_Ok_iff: "SafeMul a x = Ok r \<longleftrightarrow> unat r = unat a * unat x"
  using unat_less_2p64[of r] by (auto simp: Safe_spec math64_eq unat_mult_u64 word_unat_eq_iff simp del: unat_less_2p64)

lemma SafeAdd_Ok_iff: "SafeAdd a x = Ok r \<longleftrightarrow> unat r = unat a + unat x"
  using unat_less_2p64[of r] by (auto simp: Safe_spec math64_eq unat_add_u64 word_unat_eq_iff simp del: unat_less_2p64)

lemma SafeSub_Ok_iff: "SafeSub a x = Ok r \<longleftrightarrow> unat a = unat r + unat x"
  by (auto simp: Safe_spec math64_eq unat_sub_u64 word_unat_eq_iff word_le_nat_alt)

lemma SafeSub_SafeAdd: "SafeSub a x = Ok r \<longleftrightarrow> SafeAdd r x = Ok a"
  by (simp add: SafeSub_Ok_iff SafeAdd_Ok_iff)

lemma SafeDiv_SafeMod:
  assumes "SafeDiv a x = Ok q" and "SafeMod a x = Ok r"
  shows "unat a = unat q * unat x + unat r" and "r < x"
  using assms
  by (auto simp: Safe_spec math64_eq unat_div unat_mod word_less_nat_alt unat_gt_0 split: if_splits)

lemma Safe_no_panic:
  "SafeMul a x \<noteq> Panic" "SafeDiv a x \<noteq> Panic" "SafeAdd a x \<noteq> Panic"
  "SafeSub a x \<noteq> Panic" "SafeMod a x \<noteq> Panic"
  by (auto simp: Safe_spec math64_eq)

lemma panicking_eq:
  "Mul a x = (if unat a * unat x < 2 ^ 64 then Ok (a * x) else Panic)"
  "Div a x = (if x = 0 then Panic else Ok (a div x))"
  "Add a x = (if unat a + unat x < 2 ^ 64 then Ok (a + x) else Panic)"
  "Sub a x = (if x \<le> a then Ok (a - x) else Panic)"
  "Mod a x = (if x = 0 then Panic else Ok (a mod x))"
  by (auto simp: panicking_spec Safe_spec math64_eq)

end

interpretation epoch_arith: checked_uint64
  Epoch_SafeMul Epoch_SafeDiv Epoch_SafeAdd Epoch_SafeSub Epoch_SafeMod
  Epoch_Mul Epoch_Div Epoch_Add Epoch_Sub Epoch_Mod
  by unfold_locales
    (simp_all add: Epoch_SafeMul_def Epoch_SafeDiv_def Epoch_SafeAdd_def Epoch_SafeSub_def
      Epoch_SafeMod_def Epoch_Mul_def Epoch_Div_def Epoch_Add_def Epoch_Sub_def Epoch_Mod_def)

interpretation slot_arith: checked_uint64
  Slot_SafeMul Slot_SafeDiv Slot_SafeAdd Slot_SafeSub Slot_SafeMod
  Slot_Mul Slot_Div Slot_Add Slot_Sub Slot_Mod
  by unfold_locales
    (simp_all add: Slot_SafeMul_def Slot_SafeDiv_def Slot_SafeAdd_def Slot_SafeSub_def
      Slot_SafeMod_def Slot_Mul_def Slot_Div_def Slot_Add_def Slot_Sub_def Slot_Mod_def)

lemmas Slot_slot_defs = Slot_MulSlot_def Slot_DivSlot_def Slot_AddSlot_def Slot_SubSlot_def
  Slot_ModSlot_def Slot_SafeMulSlot_def Slot_SafeDivSlot_def Slot_SafeAddSlot_def
  Slot_SafeSubSlot_def Slot_SafeModSlot_def

section \<open>Builder indices\<close>

lemma bit_BuilderIndexFlag: "bit BuilderIndexFlag n \<longleftrightarrow> n = 40"
proof -
  have "bit (push_bit 40 (1 :: u64)) n \<longleftrightarrow> n = 40"
    by (auto simp: bit_push_bit_iff bit_1_iff simp del: push_bit_of_1 push_bit_numeral)
  then show ?thesis by (simp only: BuilderIndexFlag_def)
qed

lemma IsBuilderIndex_bit: "IsBuilderIndex v \<longleftrightarrow> bit v 40"
proof -
  have "v AND BuilderIndexFlag = 0 \<longleftrightarrow> \<not> bit v 40"
    using bit_eq_iff[of "v AND BuilderIndexFlag" 0]
    by (auto simp: bit_and_iff bit_BuilderIndexFlag dest!: spec[of _ 40])
  then show ?thesis by (simp add: IsBuilderIndex_def)
qed

lemma IsBuilderIndex_ToValidatorIndex: "IsBuilderIndex (ToValidatorIndex b)"
  by (simp add: IsBuilderIndex_bit ToValidatorIndex_def bit_or_iff bit_BuilderIndexFlag)

lemma ToBuilderIndex_ToValidatorIndex:
  "\<not> IsBuilderIndex b \<Longrightarrow> ToBuilderIndex (ToValidatorIndex b) = b"
  by (rule bit_word_eqI)
    (auto simp: IsBuilderIndex_bit ToBuilderIndex_def ToValidatorIndex_def bit_simps bit_BuilderIndexFlag)

lemma ToValidatorIndex_ToBuilderIndex: "IsBuilderIndex v \<Longrightarrow> ToValidatorIndex (ToBuilderIndex v) = v"
  by (rule bit_word_eqI)
    (auto simp: IsBuilderIndex_bit ToBuilderIndex_def ToValidatorIndex_def bit_simps bit_BuilderIndexFlag)

lemma ToBuilderIndex_clear: "\<not> IsBuilderIndex (ToBuilderIndex v)"
  by (simp add: IsBuilderIndex_bit ToBuilderIndex_def bit_simps bit_BuilderIndexFlag)

text \<open>C38: Converting a builder index to a validator index and back gives the index again exactly when bit
  40 of the index is clear, which is the bit that \<open>BuilderIndexFlag\<close> reserves. The validator index is
  always recognised as a builder's. Conversely a validator index is the image of its builder index
  exactly when it is recognised as a builder's, and a builder index obtained from a validator index
  always has bit 40 clear.\<close>

theorem builder_index_roundtrip:
  "(ToBuilderIndex (ToValidatorIndex b) = b \<longleftrightarrow> \<not> bit b 40) \<and> IsBuilderIndex (ToValidatorIndex b) \<and>
   (ToValidatorIndex (ToBuilderIndex v) = v \<longleftrightarrow> IsBuilderIndex v) \<and> \<not> bit (ToBuilderIndex v) 40"
  using ToBuilderIndex_ToValidatorIndex[of b] ToValidatorIndex_ToBuilderIndex[of v] ToBuilderIndex_clear
    IsBuilderIndex_ToValidatorIndex
  unfolding IsBuilderIndex_bit[symmetric] by metis

theorem builder_index_roundtrip_witness:
  "ToBuilderIndex (ToValidatorIndex 5) = 5 \<and> IsBuilderIndex (ToValidatorIndex 5) \<and>
   ToValidatorIndex (ToBuilderIndex (ToValidatorIndex 3)) = ToValidatorIndex 3"
  using builder_index_roundtrip[of 5 "ToValidatorIndex 3"] IsBuilderIndex_ToValidatorIndex[of 3] by simp

text \<open>C39: The checked slot operations are exact: a sum or product is returned exactly when it fits 64
  bits, subtraction inverts addition, quotient and remainder reassemble the dividend, and where
  the checked operation fails the unchecked one panics.\<close>

theorem slot_arithmetic_exact:
  "(Slot_SafeAdd a x = Ok r \<longleftrightarrow> unat r = unat a + unat x) \<and>
   (Slot_SafeMul a x = Ok r \<longleftrightarrow> unat r = unat a * unat x) \<and>
   (Slot_SafeSub a x = Ok r \<longleftrightarrow> Slot_SafeAdd r x = Ok a) \<and>
   (Slot_Div a x = Ok q \<and> Slot_Mod a x = Ok m \<longleftrightarrow> unat a = unat q * unat x + unat m \<and> m < x) \<and>
   (Slot_Add a x = Panic \<longleftrightarrow> 2 ^ 64 \<le> unat a + unat x) \<and>
   (Slot_Mul a x = Panic \<longleftrightarrow> 2 ^ 64 \<le> unat a * unat x) \<and>
   (Slot_Sub a x = Panic \<longleftrightarrow> a < x)"
proof -
  have "Slot_Div a x = Ok q \<and> Slot_Mod a x = Ok m \<longleftrightarrow> unat a = unat q * unat x + unat m \<and> m < x"
  proof (cases "x = 0")
    case False
    then have "Slot_Div a x = Ok q \<and> Slot_Mod a x = Ok m \<longleftrightarrow>
        unat a div unat x = unat q \<and> unat a mod unat x = unat m"
      by (simp add: slot_arith.panicking_eq word_unat_eq_iff unat_div unat_mod)
    also have "\<dots> \<longleftrightarrow> unat a = unat q * unat x + unat m \<and> unat m < unat x"
      by (rule nat_divmod_iff) (use False in \<open>simp add: unat_gt_0\<close>)
    finally show ?thesis by (simp add: word_less_nat_alt)
  qed (simp add: slot_arith.panicking_eq)
  then show ?thesis
    by (simp add: slot_arith.SafeAdd_Ok_iff slot_arith.SafeMul_Ok_iff slot_arith.SafeSub_SafeAdd
        slot_arith.panicking_eq not_le not_less)
qed

end
