(* ===== verification/Config.thy ===== *)
theory Config
  imports Primitives
begin

text \<open>
  The part of \<open>config/params\<close> the modelled code reads: the fields of \<open>BeaconChainConfig\<close> and the
  slot durations computed from them. Go's \<open>params.BeaconConfig()\<close> is a process-wide value; the
  model passes it explicitly. Instants are integers counting nanoseconds since the Unix epoch and
  a \<open>time.Duration\<close> is a 64-bit count of nanoseconds, whose products wrap around.
\<close>

type_synonym time = int
type_synonym duration = int

definition wrap_i64 :: "int \<Rightarrow> int" where
  "wrap_i64 x = (x + 2 ^ 63) mod 2 ^ 64 - 2 ^ 63"

lemma wrap_i64_id: "MinInt \<le> x \<Longrightarrow> x \<le> MaxInt \<Longrightarrow> wrap_i64 x = x"
  by (simp add: wrap_i64_def MinInt_def MaxInt_def)

lemma wrap_i64_range: "MinInt \<le> wrap_i64 x \<and> wrap_i64 x \<le> MaxInt"
proof -
  have "0 \<le> (x + 2 ^ 63) mod 2 ^ 64" "(x + 2 ^ 63) mod 2 ^ 64 < (2 ^ 64 :: int)"
    by (simp_all add: pos_mod_bound)
  then show ?thesis by (simp add: wrap_i64_def MinInt_def MaxInt_def)
qed

text \<open>\<open>Time.Sub\<close> saturates at the bounds of \<open>Duration\<close>.\<close>

definition time_Sub :: "time \<Rightarrow> time \<Rightarrow> duration" where
  "time_Sub t u = max MinInt (min MaxInt (t - u))"

definition Millisecond :: duration where "Millisecond = 1000000"
definition Second :: duration where "Second = 1000 * Millisecond"

text \<open>The conversion \<open>time.Duration(x)\<close> of a \<open>uint64\<close>.\<close>

definition duration_of :: "u64 \<Rightarrow> duration" where
  "duration_of x = sint x"

record beacon_config =
  SecondsPerSlot :: u64
  SlotDurationMilliseconds :: u64
  SlotsPerEpoch :: slot
  EpochsPerEth1VotingPeriod :: epoch
  EpochsPerSyncCommitteePeriod :: epoch
  ProposerScoreBoost :: u64
  ReorgHeadWeightThreshold :: u64
  ReorgParentWeightThreshold :: u64
  ReorgMaxEpochsSinceFinalization :: epoch
  AttestationDueBPS :: u64
  AttestationDueBPSGloas :: u64
  GenesisEpoch :: epoch
  AltairForkEpoch :: epoch
  BellatrixForkEpoch :: epoch
  CapellaForkEpoch :: epoch
  DenebForkEpoch :: epoch
  ElectraForkEpoch :: epoch
  FuluForkEpoch :: epoch
  GloasForkEpoch :: epoch
  ShuffleRoundCount :: u64

definition mainnetBeaconConfig :: beacon_config where
  "mainnetBeaconConfig =
     \<lparr>SecondsPerSlot = 12, SlotDurationMilliseconds = 12000, SlotsPerEpoch = 32,
      EpochsPerEth1VotingPeriod = 64, EpochsPerSyncCommitteePeriod = 256,
      ProposerScoreBoost = 40, ReorgHeadWeightThreshold = 20, ReorgParentWeightThreshold = 160,
      ReorgMaxEpochsSinceFinalization = 2, AttestationDueBPS = 3333, AttestationDueBPSGloas = 2500,
      GenesisEpoch = 0, AltairForkEpoch = 74240, BellatrixForkEpoch = 144896,
      CapellaForkEpoch = 194048, DenebForkEpoch = 269568, ElectraForkEpoch = 364032,
      FuluForkEpoch = 411392, GloasForkEpoch = - 1, ShuffleRoundCount = 90\<rparr>"

definition SlotDurationMillis :: "beacon_config \<Rightarrow> u64" where
  "SlotDurationMillis b =
     (if SlotDurationMilliseconds b > 0 then SlotDurationMilliseconds b else SecondsPerSlot b * 1000)"

definition SlotDuration :: "beacon_config \<Rightarrow> duration" where
  "SlotDuration b = wrap_i64 (duration_of (SlotDurationMillis b) * Millisecond)"

definition SlotComponentDuration :: "beacon_config \<Rightarrow> u64 \<Rightarrow> duration" where
  "SlotComponentDuration b bp =
     (let ms = bp * SlotDurationMillis b div 10000
      in wrap_i64 (duration_of ms * Millisecond))"

definition SlotsDuration :: "slot \<Rightarrow> beacon_config \<Rightarrow> duration" where
  "SlotsDuration count b = wrap_i64 (duration_of count * SlotDuration b)"

text \<open>What every configuration of the client provides: a positive epoch and slot length.\<close>

definition config_ok :: "beacon_config \<Rightarrow> bool" where
  "config_ok b \<longleftrightarrow> SlotsPerEpoch b \<noteq> 0 \<and> SlotDuration b > 0"

lemma mainnet_SlotDuration: "SlotDuration mainnetBeaconConfig = 12000000000"
  by (simp add: SlotDuration_def SlotDurationMillis_def mainnetBeaconConfig_def duration_of_def
      Millisecond_def wrap_i64_def)

lemma mainnet_config_ok: "config_ok mainnetBeaconConfig"
  by (simp add: config_ok_def mainnet_SlotDuration) (simp add: mainnetBeaconConfig_def)

end
