(* ===== verification/Slots.thy ===== *)
theory Slots
  imports Config
begin

text \<open>
  Slot and epoch arithmetic of \<open>time/slots/slottime.go\<close> and the fork versions of
  \<open>runtime/version/fork.go\<close>. Functions that read the clock take the current instant as their
  argument \<open>now\<close>; those that read it twice also take the second reading, \<open>later\<close>. Division by a zero configuration value panics, as in Go.
\<close>

section \<open>Fork versions\<close>

datatype fork_version = Phase0 | Altair | Bellatrix | Capella | Deneb | Electra | Fulu | Gloas

fun version_num :: "fork_version \<Rightarrow> nat" where
  "version_num Phase0 = 0"
| "version_num Altair = 1"
| "version_num Bellatrix = 2"
| "version_num Capella = 3"
| "version_num Deneb = 4"
| "version_num Electra = 5"
| "version_num Fulu = 6"
| "version_num Gloas = 7"

lemma version_num_inj: "version_num a = version_num b \<Longrightarrow> a = b"
  by (cases a; cases b) simp_all

instantiation fork_version :: linorder
begin

definition less_eq_fork_version :: "fork_version \<Rightarrow> fork_version \<Rightarrow> bool" where
  "less_eq_fork_version a b \<longleftrightarrow> version_num a \<le> version_num b"

definition less_fork_version :: "fork_version \<Rightarrow> fork_version \<Rightarrow> bool" where
  "less_fork_version a b \<longleftrightarrow> version_num a < version_num b"

instance
  by standard (auto simp: less_eq_fork_version_def less_fork_version_def dest: version_num_inj)

end

section \<open>Definitions\<close>

datatype slot_error =
    SlotOverflow
  | SlotArith math_error
  | SlotFarFuture
  | SlotFromFuture
  | SlotExceedsClock
  | TimestampBeforeSlot

definition u64_div :: "u64 \<Rightarrow> u64 \<Rightarrow> (slot_error, u64) outcome" where
  "u64_div a b = (if b = 0 then Panic else Ok (a div b))"

definition u64_mod :: "u64 \<Rightarrow> u64 \<Rightarrow> (slot_error, u64) outcome" where
  "u64_mod a b = (if b = 0 then Panic else Ok (a mod b))"

definition MaxSlotBuffer :: u64 where "MaxSlotBuffer = 128"

definition DivideSlotBy :: "beacon_config \<Rightarrow> int \<Rightarrow> duration" where
  "DivideSlotBy cfg timesPerSlot =
     (if timesPerSlot = 0 then 0 else wrap_i64 (SlotDuration cfg sdiv timesPerSlot))"

definition MultiplySlotBy :: "beacon_config \<Rightarrow> int \<Rightarrow> duration" where
  "MultiplySlotBy cfg timesPerSlot = wrap_i64 (SlotDuration cfg * timesPerSlot)"

definition AbsoluteValueSlotDifference :: "slot \<Rightarrow> slot \<Rightarrow> (slot_error, u64) outcome" where
  "AbsoluteValueSlotDifference x y =
     owrap SlotArith (if x > y then Slot_SubSlot x y else Slot_SubSlot y x)"

definition ToEpoch :: "beacon_config \<Rightarrow> slot \<Rightarrow> (slot_error, epoch) outcome" where
  "ToEpoch cfg s = owrap SlotArith (Slot_DivSlot s (SlotsPerEpoch cfg))"

definition ToForkVersion :: "beacon_config \<Rightarrow> slot \<Rightarrow> (slot_error, fork_version) outcome" where
  "ToForkVersion cfg s =
     obind (ToEpoch cfg s) (\<lambda>e.
       Ok (if e \<ge> FuluForkEpoch cfg then Fulu
           else if e \<ge> ElectraForkEpoch cfg then Electra
           else if e \<ge> DenebForkEpoch cfg then Deneb
           else if e \<ge> CapellaForkEpoch cfg then Capella
           else if e \<ge> BellatrixForkEpoch cfg then Bellatrix
           else if e \<ge> AltairForkEpoch cfg then Altair
           else Phase0))"

definition EpochStart :: "beacon_config \<Rightarrow> epoch \<Rightarrow> (slot_error, slot) outcome" where
  "EpochStart cfg e = owrap (\<lambda>_. SlotOverflow) (Slot_SafeMul (SlotsPerEpoch cfg) e)"


definition EpochEnd :: "beacon_config \<Rightarrow> epoch \<Rightarrow> (slot_error, slot) outcome" where
  "EpochEnd cfg e =
     (if e = - 1 then Fail SlotOverflow
      else obind (EpochStart cfg (e + 1)) (\<lambda>s. Ok (s - 1)))"

definition IsEpochStart :: "beacon_config \<Rightarrow> slot \<Rightarrow> (slot_error, bool) outcome" where
  "IsEpochStart cfg s = obind (u64_mod s (SlotsPerEpoch cfg)) (\<lambda>r. Ok (r = 0))"

definition IsEpochEnd :: "beacon_config \<Rightarrow> slot \<Rightarrow> (slot_error, bool) outcome" where
  "IsEpochEnd cfg s = IsEpochStart cfg (s + 1)"

definition SinceEpochStarts :: "beacon_config \<Rightarrow> slot \<Rightarrow> (slot_error, slot) outcome" where
  "SinceEpochStarts cfg s = u64_mod s (SlotsPerEpoch cfg)"

definition StartTime :: "beacon_config \<Rightarrow> time \<Rightarrow> slot \<Rightarrow> (slot_error, time) outcome" where
  "StartTime cfg genesis s =
     obind (owrap (\<lambda>_. SlotFarFuture) (Slot_SafeMul s (SlotDurationMillis cfg)))
       (\<lambda>ms. Ok (genesis + wrap_i64 (duration_of ms * Millisecond)))"

definition UnsafeStartTime :: "beacon_config \<Rightarrow> time \<Rightarrow> slot \<Rightarrow> (slot_error, time) outcome" where
  "UnsafeStartTime cfg genesis s = opanic (StartTime cfg genesis s)"

definition slot_of_duration :: "beacon_config \<Rightarrow> duration \<Rightarrow> (slot_error, slot) outcome" where
  "slot_of_duration cfg d =
     (if SlotDuration cfg = 0 then Panic else Ok (word_of_int (d sdiv SlotDuration cfg)))"

definition At :: "beacon_config \<Rightarrow> time \<Rightarrow> time \<Rightarrow> (slot_error, slot) outcome" where
  "At cfg genesis tm =
     (if tm < genesis then Ok 0 else slot_of_duration cfg (time_Sub tm genesis))"

definition CurrentSlot :: "beacon_config \<Rightarrow> time \<Rightarrow> time \<Rightarrow> (slot_error, slot) outcome" where
  "CurrentSlot cfg now genesis = At cfg genesis now"

definition EpochsSinceGenesis :: "beacon_config \<Rightarrow> time \<Rightarrow> time \<Rightarrow> (slot_error, epoch) outcome" where
  "EpochsSinceGenesis cfg now genesis =
     obind (CurrentSlot cfg now genesis) (\<lambda>s. u64_div s (SlotsPerEpoch cfg))"

definition Duration :: "beacon_config \<Rightarrow> time \<Rightarrow> time \<Rightarrow> (slot_error, slot) outcome" where
  "Duration cfg start end' =
     (if end' < start then Ok 0 else slot_of_duration cfg (time_Sub end' start))"

definition ValidateClock :: "beacon_config \<Rightarrow> time \<Rightarrow> slot \<Rightarrow> time \<Rightarrow> (slot_error, unit) outcome" where
  "ValidateClock cfg now s genesis =
     obind (CurrentSlot cfg now genesis) (\<lambda>cur.
     obind (owrap SlotArith (Slot_Add cur MaxSlotBuffer)) (\<lambda>maxPossibleSlot.
       if s > maxPossibleSlot then Fail SlotExceedsClock else Ok ()))"

definition VerifyTime ::
  "beacon_config \<Rightarrow> time \<Rightarrow> time \<Rightarrow> time \<Rightarrow> slot \<Rightarrow> duration \<Rightarrow> (slot_error, unit) outcome" where
  "VerifyTime cfg now later genesis s timeTolerance =
     obind (StartTime cfg genesis s) (\<lambda>slotTime.
     obind (ValidateClock cfg now s genesis) (\<lambda>_.
       if time_Sub slotTime later > timeTolerance then Fail SlotFromFuture else Ok ()))"

definition RoundUpToNearestEpoch :: "beacon_config \<Rightarrow> slot \<Rightarrow> (slot_error, slot) outcome" where
  "RoundUpToNearestEpoch cfg s =
     obind (u64_mod s (SlotsPerEpoch cfg)) (\<lambda>r.
       Ok (if r \<noteq> 0 then s - r + SlotsPerEpoch cfg else s))"

definition VotingPeriodStartTime :: "beacon_config \<Rightarrow> u64 \<Rightarrow> slot \<Rightarrow> (slot_error, u64) outcome" where
  "VotingPeriodStartTime cfg genesis s =
     obind (owrap SlotArith (Slot_Mul (SlotsPerEpoch cfg) (EpochsPerEth1VotingPeriod cfg))) (\<lambda>slots.
     obind (owrap SlotArith (Slot_ModSlot s slots)) (\<lambda>r.
     obind (owrap SlotArith (Slot_Mul (s - r) (SlotDurationMillis cfg))) (\<lambda>ms.
       Ok (genesis + ms div 1000))))"

definition PrevSlot :: "slot \<Rightarrow> (slot_error, slot) outcome" where
  "PrevSlot s = (if s > 0 then owrap SlotArith (Slot_Sub s 1) else Ok 0)"

definition SyncCommitteePeriod :: "beacon_config \<Rightarrow> epoch \<Rightarrow> (slot_error, u64) outcome" where
  "SyncCommitteePeriod cfg e = u64_div e (EpochsPerSyncCommitteePeriod cfg)"

definition SyncCommitteePeriodStartEpoch :: "beacon_config \<Rightarrow> epoch \<Rightarrow> (slot_error, epoch) outcome" where
  "SyncCommitteePeriodStartEpoch cfg e =
     obind (SyncCommitteePeriod cfg e) (\<lambda>p. owrap SlotArith (Mul64 p (EpochsPerSyncCommitteePeriod cfg)))"

definition SinceSlotStart ::
  "beacon_config \<Rightarrow> slot \<Rightarrow> time \<Rightarrow> time \<Rightarrow> (slot_error, duration) outcome" where
  "SinceSlotStart cfg s genesis timestamp =
     (let limit = genesis + wrap_i64 (duration_of s * SlotDuration cfg)
      in if timestamp < limit then Fail TimestampBeforeSlot else Ok (time_Sub timestamp limit))"

definition WithinVotingWindow :: "beacon_config \<Rightarrow> time \<Rightarrow> time \<Rightarrow> slot \<Rightarrow> (slot_error, bool) outcome" where
  "WithinVotingWindow cfg now genesis s =
     obind (UnsafeStartTime cfg genesis s) (\<lambda>t.
       Ok (time_Sub now t < SlotComponentDuration cfg (AttestationDueBPS cfg)))"



text \<open>\<open>Unix()\<close> drops the fraction of a second, rounding down.\<close>

definition SecondsUntilNextEpochStart ::
  "beacon_config \<Rightarrow> time \<Rightarrow> time \<Rightarrow> time \<Rightarrow> (slot_error, u64) outcome" where
  "SecondsUntilNextEpochStart cfg now later genesis =
     obind (CurrentSlot cfg now genesis) (\<lambda>currentSlot.
     obind (ToEpoch cfg currentSlot) (\<lambda>e.
     obind (EpochStart cfg (e + 1)) (\<lambda>firstSlotOfNextEpoch.
     obind (StartTime cfg genesis firstSlotOfNextEpoch) (\<lambda>nextEpochStartTime.
       Ok (word_of_int (nextEpochStartTime div Second - later div Second))))))"

section \<open>Epochs and their slots\<close>

text \<open>The results of the operations when the configuration has a positive epoch length.\<close>

lemma u64_divmod_eq:
  "b \<noteq> 0 \<Longrightarrow> u64_div a b = Ok (a div b)" "b \<noteq> 0 \<Longrightarrow> u64_mod a b = Ok (a mod b)"
  by (simp_all add: u64_div_def u64_mod_def)

lemma ToEpoch_eq: "SlotsPerEpoch cfg \<noteq> 0 \<Longrightarrow> ToEpoch cfg s = Ok (s div SlotsPerEpoch cfg)"
  by (simp add: ToEpoch_def Slot_slot_defs slot_arith.panicking_eq)

lemma EpochStart_Ok_iff:
  "EpochStart cfg e = Ok s \<longleftrightarrow> unat s = unat (SlotsPerEpoch cfg) * unat e"
  by (simp add: EpochStart_def outcome_iff slot_arith.SafeMul_Ok_iff)

lemma EpochStart_eq:
  "EpochStart cfg e =
     (if unat (SlotsPerEpoch cfg) * unat e < 2 ^ 64 then Ok (SlotsPerEpoch cfg * e) else Fail SlotOverflow)"
  by (simp add: EpochStart_def Slot_SafeMul_def Mul64_eq)

lemma EpochStart_no_panic [simp]: "EpochStart cfg e \<noteq> Panic"
  by (simp add: EpochStart_eq)

lemma nat_mult_div_iff:
  assumes "0 < (n :: nat)"
  shows "t div n = e \<longleftrightarrow> n * e \<le> t \<and> t < n * e + n"
proof
  assume "t div n = e"
  then have "t = n * e + t mod n" by auto
  moreover have "t mod n < n" using assms by simp
  ultimately show "n * e \<le> t \<and> t < n * e + n" by linarith
next
  assume "n * e \<le> t \<and> t < n * e + n"
  then show "t div n = e" using assms by (simp add: div_nat_eqI algebra_simps)
qed

lemma EpochEnd_Ok_iff:
  assumes "SlotsPerEpoch cfg \<noteq> 0"
  shows "EpochEnd cfg e = Ok s \<longleftrightarrow>
    unat s + 1 = unat (SlotsPerEpoch cfg) * (unat e + 1) \<and> unat s + 1 < 2 ^ 64"
proof (cases "e = - 1")
  case True
  from assms have "0 < unat (SlotsPerEpoch cfg)" by (simp add: unat_gt_0)
  then have "2 ^ 64 \<le> unat (SlotsPerEpoch cfg) * (unat e + 1)" using True by simp
  then show ?thesis using True by (auto simp: EpochEnd_def)
next
  case False
  then have "unat e \<noteq> unat (- 1 :: u64)" by (simp only: word_unat_eq_iff not_False_eq_True)
  then have "unat e + 1 < 2 ^ 64" using unat_le_max_u64[of e] by (simp del: unat_le_max_u64)
  then have e1: "unat (e + 1) = unat e + 1" using unat_add_u64[of e 1] by simp
  define p where "p = unat (SlotsPerEpoch cfg) * (unat e + 1)"
  have p: "0 < p" using assms by (simp add: p_def unat_gt_0)
  have "EpochEnd cfg e = Ok s \<longleftrightarrow> (\<exists>a. unat a = p \<and> a - 1 = s)"
    using False by (auto simp: EpochEnd_def outcome_iff EpochStart_Ok_iff e1 p_def)
  also have "\<dots> \<longleftrightarrow> unat (s + 1) = p" by (auto simp: algebra_simps)
  also have "\<dots> \<longleftrightarrow> unat s + 1 = p \<and> unat s + 1 < 2 ^ 64"
    using p unat_less_2p64[of s] by (auto simp: unat_word_ariths mod_Suc simp del: unat_less_2p64)
  finally show ?thesis by (simp add: p_def)
qed

text \<open>The slots of an epoch are exactly the interval between its start and its end.\<close>

text \<open>C27: A slot belongs to an epoch exactly when it lies between the start and the end slot that
  \<open>EpochStart\<close> and \<open>EpochEnd\<close> compute for it.\<close>

theorem ToEpoch_iff_between:
  assumes "SlotsPerEpoch cfg \<noteq> 0" and "EpochStart cfg e = Ok a" and "EpochEnd cfg e = Ok z"
  shows "ToEpoch cfg t = Ok e \<longleftrightarrow> a \<le> t \<and> t \<le> z"
proof -
  let ?n = "unat (SlotsPerEpoch cfg)"
  have n: "0 < ?n" using assms(1) by (simp add: unat_gt_0)
  have a: "unat a = ?n * unat e" using assms(2) by (simp add: EpochStart_Ok_iff)
  have z: "unat z + 1 = ?n * unat e + ?n" using assms(1,3) by (simp add: EpochEnd_Ok_iff)
  have "ToEpoch cfg t = Ok e \<longleftrightarrow> unat t div ?n = unat e"
    using assms(1) by (simp add: ToEpoch_eq word_unat_eq_iff unat_div)
  also have "\<dots> \<longleftrightarrow> unat a \<le> unat t \<and> unat t < unat z + 1"
    using n by (simp only: nat_mult_div_iff a z)
  finally show ?thesis by (auto simp: word_le_nat_alt)
qed

theorem ToEpoch_iff_between_witness:
  "ToEpoch mainnetBeaconConfig 40 = Ok 1 \<longleftrightarrow> (32 :: slot) \<le> 40 \<and> (40 :: slot) \<le> 63"
  using ToEpoch_iff_between[of mainnetBeaconConfig 1 32 63 40]
  by (simp add: EpochStart_Ok_iff EpochEnd_Ok_iff mainnetBeaconConfig_def)


lemma IsEpochStart_iff:
  assumes "SlotsPerEpoch cfg \<noteq> 0"
  shows "IsEpochStart cfg s = Ok True \<longleftrightarrow> (\<exists>e. EpochStart cfg e = Ok s)"
proof -
  have "IsEpochStart cfg s = Ok True \<longleftrightarrow> unat (SlotsPerEpoch cfg) dvd unat s"
    using assms
    by (simp add: IsEpochStart_def u64_divmod_eq word_unat_eq_iff unat_mod dvd_eq_mod_eq_0)
  also have "\<dots> \<longleftrightarrow> (\<exists>e. EpochStart cfg e = Ok s)"
  proof
    assume dvd: "unat (SlotsPerEpoch cfg) dvd unat s"
    have "unat (s div SlotsPerEpoch cfg) = unat s div unat (SlotsPerEpoch cfg)" by (rule unat_div)
    then have "EpochStart cfg (s div SlotsPerEpoch cfg) = Ok s" using dvd by (simp add: EpochStart_Ok_iff)
    then show "\<exists>e. EpochStart cfg e = Ok s" by blast
  qed (auto simp: EpochStart_Ok_iff)
  finally show ?thesis .
qed

text \<open>C29: \<open>RoundUpToNearestEpoch\<close> returns the least epoch start at or after the slot, as long as one more epoch
  fits in 64 bits.\<close>

theorem RoundUpToNearestEpoch_least:
  assumes "SlotsPerEpoch cfg \<noteq> 0"
    and "unat s + unat (SlotsPerEpoch cfg) \<le> 2 ^ 64"
  shows "\<exists>r. RoundUpToNearestEpoch cfg s = Ok r \<and> s \<le> r \<and> IsEpochStart cfg r = Ok True \<and>
    (\<forall>t. s \<le> t \<longrightarrow> IsEpochStart cfg t = Ok True \<longrightarrow> r \<le> t)"
proof -
  define n m where "n = unat (SlotsPerEpoch cfg)" and "m = unat s mod n"
  define r where "r = (if m = 0 then s else s - s mod SlotsPerEpoch cfg + SlotsPerEpoch cfg)"
  have n: "0 < n" using assms(1) by (simp add: n_def unat_gt_0)
  have um: "unat (s mod SlotsPerEpoch cfg) = m" by (simp add: m_def n_def unat_mod)
  have m: "m \<le> unat s" "m < n" using n by (simp_all add: m_def)
  have "unat (s - s mod SlotsPerEpoch cfg) = unat s - m"
    using m um by (subst unat_sub_u64) (simp_all add: word_le_nat_alt)
  then have r: "unat r = (if m = 0 then unat s else unat s - m + n)"
    using assms(2) m by (simp add: r_def unat_add_u64 flip: n_def)
  have start: "IsEpochStart cfg t = Ok True \<longleftrightarrow> n dvd unat t" for t
    using assms(1) by (simp add: IsEpochStart_def u64_divmod_eq word_unat_eq_iff unat_mod
        dvd_eq_mod_eq_0 flip: n_def)
  have "RoundUpToNearestEpoch cfg s = Ok r"
    using assms(1) um by (simp add: RoundUpToNearestEpoch_def u64_divmod_eq r_def word_unat_eq_iff)
  moreover have "s \<le> r" using r m by (auto simp: word_le_nat_alt)
  moreover have dvd: "n dvd unat s - m" unfolding m_def by (rule dvd_minus_mod)
  then have "n dvd unat r" unfolding r by (auto split: if_splits)
  moreover have "r \<le> t" if "s \<le> t" "n dvd unat t" for t
  proof (cases "m = 0")
    case False
    have "unat s - m < unat t" using that(1) False m by (simp add: word_le_nat_alt)
    moreover have "n dvd unat t - (unat s - m)" using that(2) dvd by (rule dvd_diff_nat)
    ultimately have "n \<le> unat t - (unat s - m)" by (intro dvd_imp_le) simp_all
    then show ?thesis using False r \<open>unat s - m < unat t\<close> by (simp add: word_le_nat_alt)
  qed (use that r in \<open>simp add: word_le_nat_alt\<close>)
  ultimately show ?thesis by (auto simp: start)
qed

theorem RoundUpToNearestEpoch_witness:
  "\<exists>r. RoundUpToNearestEpoch mainnetBeaconConfig 33 = Ok r \<and> 33 \<le> r \<and>
    IsEpochStart mainnetBeaconConfig r = Ok True \<and>
    (\<forall>t. 33 \<le> t \<longrightarrow> IsEpochStart mainnetBeaconConfig t = Ok True \<longrightarrow> r \<le> t)"
  by (rule RoundUpToNearestEpoch_least) (simp_all add: mainnetBeaconConfig_def)






section \<open>Slots and instants\<close>

lemma sdiv_nonneg: "0 \<le> a \<Longrightarrow> 0 < b \<Longrightarrow> a sdiv b = a div (b :: int)"
  by (cases "a = 0") (simp_all add: signed_divide_int_def)

text \<open>The slot at the start time of a slot is that slot, as long as the product of the slot number
  and the slot duration is an \<open>int64\<close> count of nanoseconds.\<close>

lemma slot_product_fits:
  assumes "unat (SlotDurationMillis cfg) * 1000000 \<le> 9223372036854775807"
    and "unat s * unat (SlotDurationMillis cfg) * 1000000 \<le> 9223372036854775807"
  shows "SlotDuration cfg = int (unat (SlotDurationMillis cfg)) * 1000000"
    and "StartTime cfg genesis s = Ok (genesis + int (unat s) * SlotDuration cfg)"
proof -
  let ?d = "unat (SlotDurationMillis cfg)"
  have fits: "wrap_i64 (sint x * 1000000) = int (unat x * 1000000)"
    if "unat x * 1000000 \<le> 9223372036854775807" for x :: u64
  proof -
    from that have "sint x = int (unat x)" by (intro sint_small_u64) linarith
    moreover have "int (unat x * 1000000) \<le> 9223372036854775807" using that by linarith
    moreover have "wrap_i64 y = y" if "0 \<le> y" "y \<le> 9223372036854775807" for y
      using that by (intro wrap_i64_id) (simp_all add: MinInt_def MaxInt_def)
    ultimately show ?thesis by simp
  qed
  show d: "SlotDuration cfg = int ?d * 1000000"
    using fits[OF assms(1)] by (simp add: SlotDuration_def duration_of_def Millisecond_def)
  have "unat s * ?d < 2 ^ 64" using assms(2) by simp
  moreover from this have "unat (s * SlotDurationMillis cfg) = unat s * ?d" by (rule unat_mult_u64)
  ultimately show "StartTime cfg genesis s = Ok (genesis + int (unat s) * SlotDuration cfg)"
    using assms(2) fits[of "s * SlotDurationMillis cfg"] unfolding d
    by (simp add: StartTime_def Slot_SafeMul_def Mul64_eq duration_of_def Millisecond_def)
qed

text \<open>C28: The slot at any time within a slot duration of a slot's start is that slot, as long as the time
  since genesis is a 63-bit count of nanoseconds.\<close>

theorem At_StartTime:
  assumes "unat (SlotDurationMillis cfg) \<noteq> 0"
    and "unat (SlotDurationMillis cfg) * 1000000 \<le> 9223372036854775807"
    and "unat s * unat (SlotDurationMillis cfg) * 1000000 + extra \<le> 9223372036854775807"
    and "StartTime cfg genesis s = Ok t" and "int extra < SlotDuration cfg"
  shows "At cfg genesis (t + int extra) = Ok s"
proof -
  have le: "unat s * unat (SlotDurationMillis cfg) * 1000000 \<le> 9223372036854775807"
    using assms(3) by linarith
  note fits = slot_product_fits[OF assms(2) le]
  have "0 < int (unat (SlotDurationMillis cfg))" using assms(1) by (simp only: of_nat_0_less_iff neq0_conv)
  then have d: "SlotDuration cfg > 0" using fits(1) by linarith
  have t: "t = genesis + int (unat s) * SlotDuration cfg" using assms(4) fits(2)[of genesis] by simp
  have "int (unat s * unat (SlotDurationMillis cfg) * 1000000 + extra) \<le> 9223372036854775807"
    using assms(3) by linarith
  then have "int (unat s) * SlotDuration cfg + int extra \<le> MaxInt"
    unfolding fits(1) MaxInt_def by (simp add: algebra_simps)
  then have "time_Sub (t + int extra) genesis = int (unat s) * SlotDuration cfg + int extra"
    using d unfolding t time_Sub_def MinInt_def by (subst max_absorb2) (simp_all add: order_trans[of _ 0])
  moreover have "(int (unat s) * SlotDuration cfg + int extra) sdiv SlotDuration cfg = int (unat s)"
    using d assms(5) by (simp add: sdiv_nonneg)
  moreover have "\<not> t + int extra < genesis" using d by (simp add: t not_less)
  ultimately show ?thesis using d by (simp add: At_def slot_of_duration_def)
qed

theorem At_StartTime_witness:
  "At mainnetBeaconConfig 7 (7 + 36000000000 + int 5) = Ok 3"
proof (rule At_StartTime)
  show "StartTime mainnetBeaconConfig 7 3 = Ok (7 + 36000000000)"
    using slot_product_fits(2)[of mainnetBeaconConfig 3 7]
    by (simp add: mainnet_SlotDuration) (simp add: SlotDurationMillis_def mainnetBeaconConfig_def)
qed (simp_all add: mainnet_SlotDuration, simp_all add: SlotDurationMillis_def mainnetBeaconConfig_def)

text \<open>\<open>StartTime\<close> reports an error only when the milliseconds overflow \<open>uint64\<close>; the product in
  nanoseconds wraps around silently, so that a later slot may start before genesis.\<close>

lemma StartTime_eq:
  "StartTime cfg genesis s =
     (if unat s * unat (SlotDurationMillis cfg) < 2 ^ 64
      then Ok (genesis + wrap_i64 (int (unat s * unat (SlotDurationMillis cfg)) * 1000000)) else Fail SlotFarFuture)"
proof -
  have wrap: "wrap_i64 (sint x * 1000000) = wrap_i64 (int (unat x) * 1000000)" for x :: u64
  proof -
    have "uint (word_of_int (sint x) :: u64) = sint x mod 2 ^ 64"
      by (subst uint_word_of_int) simp
    then have "sint x mod 2 ^ 64 = int (unat x) mod 2 ^ 64" by simp
    then have "(sint x * 1000000 + 2 ^ 63) mod 2 ^ 64 = (int (unat x) * 1000000 + 2 ^ 63) mod 2 ^ 64"
      by (intro mod_add_cong mod_mult_cong refl)
    then show ?thesis by (simp add: wrap_i64_def)
  qed
  show ?thesis
  proof (cases "unat s * unat (SlotDurationMillis cfg) < 2 ^ 64")
    case True
    then have "unat (s * SlotDurationMillis cfg) = unat s * unat (SlotDurationMillis cfg)" by (rule unat_mult_u64)
    then show ?thesis using True wrap[of "s * SlotDurationMillis cfg"]
      by (simp add: StartTime_def Slot_SafeMul_def Mul64_eq duration_of_def Millisecond_def)
  qed (simp add: StartTime_def Slot_SafeMul_def Mul64_eq)
qed

lemma wrap_i64_exact_iff:
  assumes "0 \<le> x"
  shows "wrap_i64 x = x \<longleftrightarrow> x \<le> MaxInt" "MaxInt < x \<Longrightarrow> x < 2 ^ 64 \<Longrightarrow> wrap_i64 x = x - 2 ^ 64"
proof -
  have shift: "(x + 9223372036854775808) mod 18446744073709551616 = x - 9223372036854775808"
    if "9223372036854775808 \<le> x" "x < 18446744073709551616"
  proof -
    have "x + 9223372036854775808 = (x - 9223372036854775808) + 18446744073709551616" by simp
    then show ?thesis using that by (simp only: mod_add_self2) (simp add: mod_pos_pos_trivial)
  qed
  show "wrap_i64 x = x \<longleftrightarrow> x \<le> MaxInt"
  proof
    show "x \<le> MaxInt" if "wrap_i64 x = x"
      using that pos_mod_bound[of 18446744073709551616 "x + 9223372036854775808"]
      by (simp add: wrap_i64_def MaxInt_def)
  qed (use assms in \<open>simp add: wrap_i64_def MaxInt_def\<close>)
  show "MaxInt < x \<Longrightarrow> x < 2 ^ 64 \<Longrightarrow> wrap_i64 x = x - 2 ^ 64"
    using shift by (simp add: wrap_i64_def MaxInt_def)
qed

text \<open>C33: What \<open>StartTime\<close> returns, for every configuration, genesis time and slot. It fails exactly when
  the slot number times the slot duration in milliseconds does not fit in \<open>uint64\<close>. Otherwise it
  returns a time, and the time is the exact start of the slot exactly when the product in
  nanoseconds fits in \<open>int64\<close>. When the product needs 64 bits, the time that is returned without an
  error is before genesis.\<close>

theorem StartTime_exact_iff:
  "let ns = int (unat s * unat (SlotDurationMillis cfg)) * 1000000 in
     (StartTime cfg genesis s = Fail SlotFarFuture \<longleftrightarrow> 2 ^ 64 * 1000000 \<le> ns) \<and>
     (ns < 2 ^ 64 * 1000000 \<longrightarrow> (\<exists>t. StartTime cfg genesis s = Ok t \<and>
        (t = genesis + ns \<longleftrightarrow> ns \<le> MaxInt) \<and>
        (MaxInt < ns \<longrightarrow> ns < 2 ^ 64 \<longrightarrow> t < genesis)))"
proof -
  let ?ms = "unat s * unat (SlotDurationMillis cfg)"
  define ns where "ns = int ?ms * 1000000"
  have fits: "?ms < 2 ^ 64 \<longleftrightarrow> ns < 2 ^ 64 * 1000000"
    unfolding ns_def by (simp flip: of_nat_less_iff[where 'a = int])
  have "0 \<le> ns" by (simp add: ns_def)
  note wrap = wrap_i64_exact_iff[OF this]
  show ?thesis unfolding StartTime_eq Let_def fits ns_def[symmetric] using wrap by (auto simp: not_less)
qed

theorem StartTime_exact_witness:
  "\<exists>t. StartTime mainnetBeaconConfig 0 768614337 = Ok t \<and> t \<noteq> 768614337 * 12000 * 1000000 \<and> t < 0"
  using StartTime_exact_iff[of 768614337 mainnetBeaconConfig 0]
  by (simp add: Let_def SlotDurationMillis_def mainnetBeaconConfig_def MaxInt_def)

section \<open>Sync committee periods and clock checks\<close>

text \<open>C32: The start epoch of a sync committee period is the first epoch of the period: it is a multiple of
  the period length, it lies in the same period as the epoch, and no earlier epoch does. It always
  exists, at most one period length before the epoch, when the period length is not zero.\<close>

theorem SyncCommitteePeriodStartEpoch_total:
  assumes "EpochsPerSyncCommitteePeriod cfg \<noteq> 0"
  shows "\<exists>p. SyncCommitteePeriodStartEpoch cfg e = Ok p \<and> p \<le> e \<and>
    unat (EpochsPerSyncCommitteePeriod cfg) dvd unat p \<and>
    unat e < unat p + unat (EpochsPerSyncCommitteePeriod cfg) \<and>
    SyncCommitteePeriod cfg p = SyncCommitteePeriod cfg e \<and>
    (\<forall>x. SyncCommitteePeriod cfg x = SyncCommitteePeriod cfg e \<longrightarrow> p \<le> x)"
proof -
  let ?n = "unat (EpochsPerSyncCommitteePeriod cfg)" and ?q = "e div EpochsPerSyncCommitteePeriod cfg"
  have n: "0 < ?n" using assms by (simp add: unat_gt_0)
  have q: "unat ?q = unat e div ?n" by (rule unat_div)
  have b: "unat ?q * ?n \<le> unat e" "unat e < unat ?q * ?n + ?n"
    using iffD1[OF nat_mult_div_iff[OF n] q[symmetric]] by (simp_all only: mult.commute)
  have lt: "unat ?q * ?n < 2 ^ 64" using le_less_trans[OF b(1) unsigned_less] by simp
  then have "SyncCommitteePeriodStartEpoch cfg e = Ok (?q * EpochsPerSyncCommitteePeriod cfg)"
    using assms by (simp add: SyncCommitteePeriodStartEpoch_def SyncCommitteePeriod_def
        u64_divmod_eq Mul64_eq)
  moreover have u: "unat (?q * EpochsPerSyncCommitteePeriod cfg) = unat ?q * ?n"
    using lt by (rule unat_mult_u64)
  moreover have "?q * EpochsPerSyncCommitteePeriod cfg div EpochsPerSyncCommitteePeriod cfg = ?q"
    using n u by (simp add: word_unat_eq_iff unat_div)
  moreover have "?q * EpochsPerSyncCommitteePeriod cfg \<le> x"
    if "x div EpochsPerSyncCommitteePeriod cfg = ?q" for x
  proof -
    have "unat ?q = unat x div ?n" using that by (simp flip: unat_div)
    then show ?thesis using u by (simp add: word_le_nat_alt)
  qed
  ultimately show ?thesis using assms b
    by (intro exI[of _ "?q * EpochsPerSyncCommitteePeriod cfg"])
      (simp add: SyncCommitteePeriod_def u64_divmod_eq word_le_nat_alt)
qed

theorem SyncCommitteePeriodStartEpoch_witness:
  "\<exists>p. SyncCommitteePeriodStartEpoch mainnetBeaconConfig 300 = Ok p \<and> p \<le> 300 \<and> 256 dvd unat p \<and>
    unat (300 :: epoch) < unat p + 256 \<and>
    SyncCommitteePeriod mainnetBeaconConfig p = SyncCommitteePeriod mainnetBeaconConfig 300 \<and>
    (\<forall>x. SyncCommitteePeriod mainnetBeaconConfig x = SyncCommitteePeriod mainnetBeaconConfig 300 \<longrightarrow> p \<le> x)"
  using SyncCommitteePeriodStartEpoch_total[of mainnetBeaconConfig 300]
  by (simp add: mainnetBeaconConfig_def)

text \<open>A slot that passes \<open>VerifyTime\<close> starts at most the tolerance after the current instant and
  is within \<open>MaxSlotBuffer\<close> slots of the clock.\<close>

text \<open>C31: When \<open>VerifyTime\<close> accepts a slot, the slot's start time is at most the tolerance after its
  second reading of the clock, and the slot's number is at most 128 above the current slot at its
  first reading, for every tolerance below the largest \<open>int64\<close> duration (at which the saturating
  subtraction of times accepts everything).\<close>

theorem VerifyTime_sound:
  assumes "VerifyTime cfg now later genesis s tol = Ok ()" and "tol < MaxInt"
  shows "\<exists>t cur. StartTime cfg genesis s = Ok t \<and> t \<le> later + tol \<and>
    CurrentSlot cfg now genesis = Ok cur \<and> unat s \<le> unat cur + 128"
proof -
  obtain t where t: "StartTime cfg genesis s = Ok t"
    and v: "ValidateClock cfg now s genesis = Ok ()" and d: "\<not> time_Sub t later > tol"
    using assms(1) unfolding VerifyTime_def
    by (cases "StartTime cfg genesis s"; cases "ValidateClock cfg now s genesis")
      (simp_all split: if_splits)
  obtain cur m where cur: "CurrentSlot cfg now genesis = Ok cur"
    and m: "Slot_Add cur MaxSlotBuffer = Ok m" and le: "\<not> s > m"
    using v unfolding ValidateClock_def
    by (cases "CurrentSlot cfg now genesis") (auto simp: outcome_iff split: if_splits)
  have "unat m = unat cur + 128"
    using m by (simp add: slot_arith.Add_spec opanic_Ok_iff slot_arith.SafeAdd_Ok_iff MaxSlotBuffer_def)
  moreover have "unat s \<le> unat m" using le by (simp only: word_less_nat_alt not_less)
  moreover have "t \<le> later + tol" using d assms(2) unfolding time_Sub_def by linarith
  ultimately show ?thesis using t cur by (intro exI[of _ t] exI[of _ cur]) simp
qed

theorem VerifyTime_witness:
  "\<exists>t cur. StartTime mainnetBeaconConfig 0 2 = Ok t \<and> t \<le> 24000000007 + 500 \<and>
    CurrentSlot mainnetBeaconConfig 24000000000 0 = Ok cur \<and> unat (2 :: slot) \<le> unat cur + 128"
proof (rule VerifyTime_sound)
  have s: "StartTime mainnetBeaconConfig 0 2 = Ok 24000000000"
    using slot_product_fits(2)[of mainnetBeaconConfig 2 0]
    by (simp add: mainnet_SlotDuration) (simp add: SlotDurationMillis_def mainnetBeaconConfig_def)
  have "CurrentSlot mainnetBeaconConfig 24000000000 0 = Ok 2"
    by (simp add: CurrentSlot_def At_def slot_of_duration_def mainnet_SlotDuration time_Sub_def wrap_i64_def
        MinInt_def MaxInt_def sdiv_nonneg)
  then show "VerifyTime mainnetBeaconConfig 24000000000 24000000007 0 2 500 = Ok ()"
    using s by (simp add: VerifyTime_def ValidateClock_def MaxSlotBuffer_def time_Sub_def wrap_i64_def
        MinInt_def MaxInt_def slot_arith.panicking_eq)
qed (simp add: MaxInt_def)

text \<open>The fork schedule of the configuration: the epoch at which each version becomes active.\<close>

fun fork_epoch :: "beacon_config \<Rightarrow> fork_version \<Rightarrow> epoch" where
  "fork_epoch cfg Phase0 = 0"
| "fork_epoch cfg Altair = AltairForkEpoch cfg"
| "fork_epoch cfg Bellatrix = BellatrixForkEpoch cfg"
| "fork_epoch cfg Capella = CapellaForkEpoch cfg"
| "fork_epoch cfg Deneb = DenebForkEpoch cfg"
| "fork_epoch cfg Electra = ElectraForkEpoch cfg"
| "fork_epoch cfg Fulu = FuluForkEpoch cfg"
| "fork_epoch cfg Gloas = GloasForkEpoch cfg"

text \<open>C34: \<open>ToForkVersion\<close> reports, of the versions up to Fulu, the latest one that is active in the epoch of
  the slot: its fork epoch is at or before the epoch of the slot, and the fork epoch of every later
  version up to Fulu is after it. It is the only version with this property, it is never Gloas,
  and the fork epoch of Gloas plays no part.\<close>

theorem ToForkVersion_latest:
  assumes "ToEpoch cfg s = Ok e"
  shows "ToForkVersion cfg s = Ok v \<longleftrightarrow>
    v < Gloas \<and> fork_epoch cfg v \<le> e \<and> (\<forall>w. v < w \<longrightarrow> w < Gloas \<longrightarrow> e < fork_epoch cfg w)"
proof -
  have all: "(\<forall>w. P w) \<longleftrightarrow> P Phase0 \<and> P Altair \<and> P Bellatrix \<and> P Capella \<and> P Deneb \<and> P Electra \<and> P Fulu \<and> P Gloas"
    for P by (auto, metis (full_types) fork_version.exhaust)
  show ?thesis
    by (cases v) (auto simp: ToForkVersion_def assms all less_fork_version_def not_le)
qed

theorem ToForkVersion_witness:
  "ToForkVersion (mainnetBeaconConfig\<lparr>GloasForkEpoch := 0\<rparr>) (32 * 269569) = Ok Deneb"
proof -
  let ?cfg = "mainnetBeaconConfig\<lparr>GloasForkEpoch := 0\<rparr>"
  have "ToEpoch ?cfg (32 * 269569) = Ok 269569" by (simp add: ToEpoch_eq mainnetBeaconConfig_def)
  moreover have "269569 < fork_epoch ?cfg w" if "Deneb < w" "w < Gloas" for w
    using that by (cases w) (simp_all add: less_fork_version_def mainnetBeaconConfig_def)
  moreover have "Deneb < Gloas" "fork_epoch ?cfg Deneb \<le> 269569"
    by (simp_all add: less_fork_version_def mainnetBeaconConfig_def)
  ultimately show ?thesis using ToForkVersion_latest[of ?cfg "32 * 269569" 269569 Deneb] by blast
qed

end
