(* ===== verification/Bytes.thy ===== *)
theory Bytes
  imports Config
begin

text \<open>
  Byte slices: \<open>encoding/bytesutil\<close> (\<open>integers.go\<close>, \<open>bytes.go\<close>, \<open>bytes_go120.go\<close>, \<open>bits.go\<close>,
  \<open>eth_types.go\<close>). A slice is the list of its elements; \<open>nil\<close> and the empty slice agree unless a
  function tells them apart, in which case its argument is an option. The functions of Go's
  \<open>encoding/binary\<close> that the package calls are \<open>put_le\<close>, \<open>get_le\<close> and their big-endian mirror
  images. A fixed-size array is a list of that length, and \<open>array32\<close> reads a 32-byte array as a
  256-bit word whose order is the one of \<open>bytes.Compare\<close>.
\<close>

type_synonym bytes = "u8 list"
type_synonym root = "256 word"

section \<open>Endianness (Go's \<open>encoding/binary\<close>)\<close>

definition put_le :: "nat \<Rightarrow> u64 \<Rightarrow> bytes" where
  "put_le n x = map (\<lambda>i. ucast (drop_bit (8 * i) x)) [0..<n]"

definition put_be :: "nat \<Rightarrow> u64 \<Rightarrow> bytes" where
  "put_be n x = rev (put_le n x)"

primrec get_le :: "bytes \<Rightarrow> 'a :: len word" where
  "get_le [] = 0"
| "get_le (b # bs) = ucast b OR push_bit 8 (get_le bs)"

definition get_be :: "bytes \<Rightarrow> 'a :: len word" where
  "get_be bs = get_le (rev bs)"

definition array32 :: "bytes \<Rightarrow> root" where
  "array32 bs = get_be bs"

text \<open>A root is an array of 32 bytes; \<open>root_bytes\<close> is the slice \<open>r[:]\<close>.\<close>

definition root_bytes :: "root \<Rightarrow> bytes" where
  "root_bytes r = rev (map (\<lambda>i. ucast (drop_bit (8 * i) r)) [0..<32])"

lemma length_root_bytes [simp]: "length (root_bytes r) = 32"
  by (simp add: root_bytes_def)

section \<open>Slices (\<open>bytes.go\<close>, \<open>bytes_go120.go\<close>)\<close>

datatype bytes_error = IndexOutOfRange | EmptyInput | NegativeIndex

definition PadTo :: "bytes \<Rightarrow> nat \<Rightarrow> bytes" where
  "PadTo b size' = (if length b \<ge> size' then b else b @ replicate (size' - length b) 0)"

definition ToBytes4 :: "bytes \<Rightarrow> bytes" where "ToBytes4 x = take 4 (PadTo x 4)"
definition ToBytes20 :: "bytes \<Rightarrow> bytes" where "ToBytes20 x = take 20 (PadTo x 20)"
definition ToBytes32 :: "bytes \<Rightarrow> bytes" where "ToBytes32 x = take 32 (PadTo x 32)"
definition ToBytes48 :: "bytes \<Rightarrow> bytes" where "ToBytes48 x = take 48 (PadTo x 48)"
definition ToBytes64 :: "bytes \<Rightarrow> bytes" where "ToBytes64 x = take 64 (PadTo x 64)"
definition ToBytes96 :: "bytes \<Rightarrow> bytes" where "ToBytes96 x = take 96 (PadTo x 96)"

definition ToBytes48Array :: "bytes list \<Rightarrow> bytes list" where
  "ToBytes48Array x = map ToBytes48 x"

definition ToBool :: "u8 \<Rightarrow> bool" where
  "ToBool x \<longleftrightarrow> x AND 1 = 1"

definition FromBool :: "bool \<Rightarrow> u8" where
  "FromBool x = (if x then 1 else 0)"

definition Trunc :: "bytes \<Rightarrow> bytes" where
  "Trunc x = (if length x > 6 then take 6 x else x)"

definition SafeCopyRootAtIndex ::
  "bytes list option \<Rightarrow> u64 \<Rightarrow> (bytes_error, bytes option) outcome" where
  "SafeCopyRootAtIndex input idx =
     (case input of
        None \<Rightarrow> Ok None
      | Some xs \<Rightarrow>
          if length xs \<le> unat idx then Fail IndexOutOfRange
          else let x = xs ! unat idx in Ok (Some (take 32 x @ replicate (32 - length x) 0)))"

text \<open>The loop of \<open>ReverseByteOrder\<close> and \<open>ReverseBytes32Slice\<close> swaps element \<open>i\<close> with its mirror
  image for each \<open>i\<close> in the first half.\<close>

definition swap_at :: "'a list \<Rightarrow> nat \<Rightarrow> nat \<Rightarrow> 'a list" where
  "swap_at b i j = b[i := b ! j, j := b ! i]"

definition ReverseByteOrder :: "'a list \<Rightarrow> 'a list" where
  "ReverseByteOrder input =
     fold (\<lambda>i b. swap_at b i (length b - i - 1)) [0..<length input div 2] input"

fun ReverseBytes32Slice_loop :: "'a list \<Rightarrow> nat \<Rightarrow> nat \<Rightarrow> 'a list" where
  "ReverseBytes32Slice_loop arr i j =
     (if i < j then ReverseBytes32Slice_loop (swap_at arr i j) (i + 1) (j - 1) else arr)"

declare ReverseBytes32Slice_loop.simps [simp del]

definition ReverseBytes32Slice :: "'a list \<Rightarrow> 'a list" where
  "ReverseBytes32Slice arr = ReverseBytes32Slice_loop arr 0 (length arr - 1)"

section \<open>Integers (\<open>integers.go\<close>, \<open>eth_types.go\<close>)\<close>

definition ToBytes :: "u64 \<Rightarrow> int \<Rightarrow> bytes" where
  "ToBytes x len' =
     (let n = nat (max len' 0) in take n (put_le 8 x @ replicate (max n 8 - 8) 0))"

definition Bytes1 :: "u64 \<Rightarrow> bytes" where "Bytes1 x = take 1 (put_le 8 x)"
definition Bytes2 :: "u64 \<Rightarrow> bytes" where "Bytes2 x = take 2 (put_le 8 x)"
definition Bytes3 :: "u64 \<Rightarrow> bytes" where "Bytes3 x = take 3 (put_le 8 x)"
definition Bytes4 :: "u64 \<Rightarrow> bytes" where "Bytes4 x = take 4 (put_le 8 x)"
definition Bytes8 :: "u64 \<Rightarrow> bytes" where "Bytes8 x = put_le 8 x"
definition Bytes32 :: "u64 \<Rightarrow> bytes" where "Bytes32 x = put_le 8 x @ replicate 24 0"

definition FromBytes2 :: "bytes \<Rightarrow> u16" where
  "FromBytes2 x = (if length x < 2 then 0 else get_le (take 2 x))"

text \<open>\<open>append(x[:4], empty4bytes...)\<close> writes into the array behind \<open>x\<close> when its capacity is at least
  8. \<open>FromBytes4\<close> takes the array from the start of \<open>x\<close> up to the capacity, and the length of \<open>x\<close>,
  and returns the value with the array as it is left.\<close>

definition FromBytes4 :: "bytes \<Rightarrow> nat \<Rightarrow> u64 \<times> bytes" where
  "FromBytes4 backing len' =
     (if len' < 4 then (0, backing)
      else (get_le (take 4 backing @ replicate 4 0),
            if length backing \<ge> 8 then take 4 backing @ replicate 4 0 @ drop 8 backing else backing))"

definition FromBytes8 :: "bytes \<Rightarrow> u64" where
  "FromBytes8 x = (if length x < 8 then 0 else get_le (take 8 x))"

definition ToLowInt64 :: "bytes \<Rightarrow> int" where
  "ToLowInt64 x = (if length x < 8 then 0 else sint (get_le (take 8 x) :: u64))"

definition Uint32ToBytes4 :: "u32 \<Rightarrow> bytes" where
  "Uint32ToBytes4 i = ToBytes4 (put_be 4 (ucast i))"

definition Uint64ToBytesLittleEndian :: "u64 \<Rightarrow> bytes" where
  "Uint64ToBytesLittleEndian i = put_le 8 i"

definition Uint64ToBytesLittleEndian32 :: "u64 \<Rightarrow> bytes" where
  "Uint64ToBytesLittleEndian32 i = put_le 8 i @ replicate 24 0"

definition Uint64ToBytesBigEndian :: "u64 \<Rightarrow> bytes" where
  "Uint64ToBytesBigEndian i = put_be 8 i"

definition BytesToUint64BigEndian :: "bytes \<Rightarrow> u64" where
  "BytesToUint64BigEndian b = (if length b < 8 then 0 else get_be (take 8 b))"

definition PutLittleEndian :: "bytes \<Rightarrow> u64 \<Rightarrow> int \<Rightarrow> (bytes_error, bytes) outcome" where
  "PutLittleEndian dst val size' =
     (if size' \<in> {1, 2, 4, 8} then
        if length dst < nat size' then Panic
        else Ok (put_le (nat size') val @ drop (nat size') dst)
      else Ok dst)"

definition EpochToBytesLittleEndian :: "epoch \<Rightarrow> bytes" where
  "EpochToBytesLittleEndian i = Uint64ToBytesLittleEndian i"

definition EpochToBytesBigEndian :: "epoch \<Rightarrow> bytes" where
  "EpochToBytesBigEndian i = Uint64ToBytesBigEndian i"

definition BytesToEpochBigEndian :: "bytes \<Rightarrow> epoch" where
  "BytesToEpochBigEndian b = BytesToUint64BigEndian b"

definition SlotToBytesBigEndian :: "slot \<Rightarrow> bytes" where
  "SlotToBytesBigEndian i = Uint64ToBytesBigEndian i"

definition BytesToSlotBigEndian :: "bytes \<Rightarrow> slot" where
  "BytesToSlotBigEndian b = BytesToUint64BigEndian b"

definition ZeroRoot :: "bytes \<Rightarrow> bool" where
  "ZeroRoot r \<longleftrightarrow> replicate 32 0 = r"

definition IsRoot :: "bytes \<Rightarrow> bool" where
  "IsRoot r \<longleftrightarrow> length r = 32"

definition IsValidRoot :: "bytes \<Rightarrow> bool" where
  "IsValidRoot r \<longleftrightarrow> IsRoot r \<and> \<not> ZeroRoot r"

section \<open>Bits (\<open>bits.go\<close>)\<close>

text \<open>A negative index panics: its remainder is a negative shift count, or its quotient a negative
  slice index.\<close>

definition SetBit :: "bytes \<Rightarrow> int \<Rightarrow> (bytes_error, bytes) outcome" where
  "SetBit b i =
     (if i < 0 then Panic
      else let n = nat i;
               b' = (if n \<ge> length b * 8 then b @ replicate ((n + (8 - n mod 8)) div 8 - length b) 0 else b)
           in Ok (b'[n div 8 := b' ! (n div 8) OR push_bit (n mod 8) 1]))"

definition ClearBit :: "bytes \<Rightarrow> int \<Rightarrow> bytes" where
  "ClearBit b i =
     (if i \<ge> int (length b) * 8 \<or> i < 0 then b
      else let n = nat i in b[n div 8 := b ! (n div 8) AND NOT (push_bit (n mod 8) 1)])"

definition MakeEmptyBitlists :: "nat \<Rightarrow> bytes" where
  "MakeEmptyBitlists i = replicate ((i + (8 - i mod 8)) div 8) 0"

text \<open>\<open>bits.Len8\<close>: the number of bits needed to write a byte.\<close>

definition Len8 :: "u8 \<Rightarrow> nat" where
  "Len8 b = foldr (\<lambda>i r. if bit b i then Suc i else r) [7, 6, 5, 4, 3, 2, 1, 0] 0"

fun HighestBitIndex_loop :: "bytes \<Rightarrow> nat \<Rightarrow> nat" where
  "HighestBitIndex_loop b 0 = 0"
| "HighestBitIndex_loop b (Suc i) =
     (if b ! i = 0 then HighestBitIndex_loop b i else Len8 (b ! i) + i * 8)"

definition HighestBitIndex :: "bytes \<Rightarrow> (bytes_error, nat) outcome" where
  "HighestBitIndex b = (if b = [] then Fail EmptyInput else Ok (HighestBitIndex_loop b (length b)))"

fun HighestBitIndexAt_loop :: "bytes \<Rightarrow> nat \<Rightarrow> u8 \<Rightarrow> nat \<Rightarrow> nat" where
  "HighestBitIndexAt_loop b index mask' 0 = 0"
| "HighestBitIndexAt_loop b index mask' (Suc i) =
     (let mask2 = (if index div 8 > i then 0xff else mask');
          minBitsMasked = Len8 (b ! i AND mask2)
      in if b ! i = 0 \<or> (minBitsMasked = 0 \<and> index div 8 \<le> i)
         then HighestBitIndexAt_loop b index mask2 i
         else minBitsMasked + i * 8)"

definition HighestBitIndexAt :: "bytes \<Rightarrow> int \<Rightarrow> (bytes_error, nat) outcome" where
  "HighestBitIndexAt b index =
     (if b = [] then Fail EmptyInput
      else if index < 0 then Fail NegativeIndex
      else let n = nat index;
               start = (if n div 8 \<ge> length b then length b - 1 else n div 8)
           in Ok (HighestBitIndexAt_loop b n (push_bit (n mod 8) 1 - 1) (Suc start)))"

section \<open>Round trips\<close>

lemma length_put_le [simp]: "length (put_le n x) = n"
  by (simp add: put_le_def)

lemma bit_get_le:
  "bit (get_le bs :: 'a :: len word) k \<longleftrightarrow>
     k < LENGTH('a) \<and> k < 8 * length bs \<and> bit (bs ! (k div 8)) (k mod 8)"
proof (induction bs arbitrary: k)
  case Nil
  show ?case by simp
next
  case (Cons b bs)
  show ?case
  proof (cases "k < 8")
    case True
    then show ?thesis by (auto simp: bit_simps)
  next
    case False
    then have "k div 8 = Suc ((k - 8) div 8)" "k mod 8 = (k - 8) mod 8"
      by (simp_all add: div_if[of k] mod_if[of k])
    with False Cons.IH[of "k - 8"] show ?thesis
      by (auto simp: bit_simps dest: bit_imp_le_length)
  qed
qed

lemma bit_put_le: "i < n \<Longrightarrow> bit (put_le n x ! i) j \<longleftrightarrow> j < 8 \<and> bit x (8 * i + j)"
  by (auto simp: put_le_def bit_simps ac_simps)

lemma get_le_put_le: "get_le (put_le 8 x) = x"
proof (rule bit_word_eqI)
  fix k assume k: "k < LENGTH(64)"
  then have "k div 8 < 8" by simp
  then show "bit (get_le (put_le 8 x) :: u64) k \<longleftrightarrow> bit x k"
    using k by (simp add: bit_get_le bit_put_le)
qed

lemma put_le_get_le: "length bs = n \<Longrightarrow> n \<le> 8 \<Longrightarrow> put_le n (get_le bs) = bs"
proof (rule nth_equalityI)
  fix i assume n: "length bs = n" "n \<le> 8" and i: "i < length (put_le n (get_le bs))"
  show "put_le n (get_le bs) ! i = bs ! i"
  proof (rule bit_word_eqI)
    fix k assume "k < LENGTH(8)"
    moreover from this have "(8 * i + k) div 8 = i" "(8 * i + k) mod 8 = k" by simp_all
    moreover have "8 * i + k < 64" "8 * i + k < 8 * n" using i n calculation(1) by simp_all
    ultimately show "bit (put_le n (get_le bs) ! i) k \<longleftrightarrow> bit (bs ! i) k"
      using i n by (simp add: bit_put_le bit_get_le)
  qed
qed simp

lemma get_be_put_be: "get_be (put_be 8 x) = x"
  by (simp add: get_be_def put_be_def get_le_put_le)

lemma ToBytes_length: "length (ToBytes x n) = nat n"
  by (simp add: ToBytes_def Let_def)

lemma ToBytes32_length [simp]: "length (ToBytes32 x) = 32"
  by (simp add: ToBytes32_def PadTo_def)

lemma ToBytes32_id: "length x = 32 \<Longrightarrow> ToBytes32 x = x"
  by (simp add: ToBytes32_def PadTo_def)

section \<open>Bit positions\<close>

text \<open>The bit at a position of a little-endian bit list, absent past the end of the bytes.\<close>

definition bit_at :: "bytes \<Rightarrow> nat \<Rightarrow> bool" where
  "bit_at b k \<longleftrightarrow> k < 8 * length b \<and> bit (b ! (k div 8)) (k mod 8)"

lemma bit_at_append_zeros: "bit_at (b @ replicate m 0) k \<longleftrightarrow> bit_at b k"
  by (auto simp: bit_at_def nth_append)

lemma bit_at_update:
  assumes "k div 8 < length b"
  shows "bit_at (b[k div 8 := b ! (k div 8) OR push_bit (k mod 8) 1]) j \<longleftrightarrow> j = k \<or> bit_at b j"
proof -
  have "k < 8 * length b" using assms by auto
  moreover have "j = k" if "j div 8 = k div 8" "j mod 8 = k mod 8"
    using that by (metis div_mult_mod_eq)
  ultimately show ?thesis
    by (auto simp: bit_at_def nth_list_update bit_simps)
qed

text \<open>C36: \<open>SetBit\<close> at a nonnegative index returns a bit list, grown where needed, whose set bits are
  those of the argument and the one at the index.\<close>

theorem SetBit_sets:
  assumes "0 \<le> i"
  shows "\<exists>b'. SetBit b i = Ok b' \<and> (\<forall>k. bit_at b' k \<longleftrightarrow> k = nat i \<or> bit_at b k)"
proof -
  define n where "n = nat i"
  define b' where "b' = (if n \<ge> length b * 8 then b @ replicate ((n + (8 - n mod 8)) div 8 - length b) 0 else b)"
  have "(n + (8 - n mod 8)) div 8 = n div 8 + 1" by presburger
  then have "n div 8 < length b'" by (auto simp: b'_def)
  moreover have "SetBit b i = Ok (b'[n div 8 := b' ! (n div 8) OR push_bit (n mod 8) 1])"
    using assms by (simp add: SetBit_def Let_def n_def b'_def)
  moreover have "bit_at b' k \<longleftrightarrow> bit_at b k" for k by (simp add: b'_def bit_at_append_zeros)
  ultimately show ?thesis by (auto simp: bit_at_update n_def simp del: push_bit_of_1)
qed

theorem SetBit_witness: "\<exists>b'. SetBit [1] 9 = Ok b' \<and> (\<forall>k. bit_at b' k \<longleftrightarrow> k = 9 \<or> bit_at [1] k)"
  using SetBit_sets[of 9 "[1]"] by simp

lemma Len8_eq:
  "Len8 b = (if bit b 7 then 8 else if bit b 6 then 7 else if bit b 5 then 6 else if bit b 4 then 5
     else if bit b 3 then 4 else if bit b 2 then 3 else if bit b 1 then 2 else if bit b 0 then 1 else 0)"
  by (simp add: Len8_def)

lemma byte_index: "bit (b :: u8) j \<Longrightarrow> j \<in> {0, 1, 2, 3, 4, 5, 6, 7}"
  by (drule bit_imp_le_length) auto

lemma Len8_above: "Len8 b \<le> j \<Longrightarrow> \<not> bit b j"
  using byte_index[of b j] by (auto simp: Len8_eq split: if_splits)

lemma Len8_top: "Len8 b = Suc j \<Longrightarrow> bit b j"
  by (auto simp: Len8_eq split: if_splits)

lemma Len8_le: "Len8 b \<le> 8"
  by (simp add: Len8_eq)

lemma Len8_0: "Len8 b = 0 \<longleftrightarrow> b = 0"
proof
  assume "Len8 b = 0"
  then show "b = 0" by (intro bit_word_eqI) (simp add: Len8_above)
qed (simp add: Len8_eq)

text \<open>The number \<open>h\<close> is one more than the highest set position below \<open>n\<close>, or 0 when there is none.\<close>

definition top_bit_below :: "bytes \<Rightarrow> nat \<Rightarrow> nat \<Rightarrow> bool" where
  "top_bit_below b n h \<longleftrightarrow> h \<le> n \<and> (0 < h \<longrightarrow> bit_at b (h - 1)) \<and> (\<forall>k < n. h \<le> k \<longrightarrow> \<not> bit_at b k)"

lemma top_bit_extend:
  assumes "top_bit_below b m h" "m \<le> n" "\<And>k. m \<le> k \<Longrightarrow> k < n \<Longrightarrow> \<not> bit_at b k"
  shows "top_bit_below b n h"
  using assms unfolding top_bit_below_def by (metis le_trans not_le_imp_less)

lemma top_bit_byte:
  assumes "i < length b" "8 * i \<le> n" "Len8 x \<noteq> 0" "\<And>j. bit x j \<longleftrightarrow> bit (b ! i) j \<and> 8 * i + j < n"
    and "n \<le> 8 * i + 8"
  shows "top_bit_below b n (Len8 x + i * 8)"
proof -
  obtain l where l: "Len8 x = Suc l" using assms(3) by (cases "Len8 x") auto
  have b: "bit_at b (8 * i + j) \<longleftrightarrow> bit (b ! i) j" if "j < 8" for j
    using that assms(1) by (auto simp: bit_at_def)
  have "bit x l" using Len8_top[OF l] .
  then have top: "bit (b ! i) l" "8 * i + l < n" using assms(4) by auto
  have "l < 8" using Len8_le[of x] l by simp
  have "\<not> bit_at b k" if "k < n" "Len8 x + i * 8 \<le> k" for k
  proof -
    define j where "j = k - 8 * i"
    have j: "k = 8 * i + j" "j < 8" "Len8 x \<le> j" using that assms(5) by (auto simp: j_def)
    then have "\<not> bit x j" using Len8_above by blast
    then show ?thesis using j that b[of j] assms(4)[of j] by auto
  qed
  then show ?thesis using top b[OF \<open>l < 8\<close>] l by (auto simp: top_bit_below_def add.commute mult.commute)
qed

lemma HighestBitIndex_loop_top:
  "i \<le> length b \<Longrightarrow> top_bit_below b (8 * i) (HighestBitIndex_loop b i)"
proof (induction i)
  case 0
  then show ?case by (simp add: top_bit_below_def)
next
  case (Suc i)
  show ?case
  proof (cases "b ! i = 0")
    case True
    have "\<not> bit_at b k" if "8 * i \<le> k" "k < 8 * Suc i" for k
    proof -
      have "k div 8 = i" using that by auto
      then show ?thesis using True by (simp add: bit_at_def)
    qed
    then show ?thesis using top_bit_extend[of b "8 * i" _ "8 * Suc i"] Suc True by auto
  next
    case False
    have "top_bit_below b (8 * Suc i) (Len8 (b ! i) + i * 8)"
      by (rule top_bit_byte) (use Suc.prems False bit_imp_le_length[of "b ! i"] in \<open>auto simp: Len8_0\<close>)
    then show ?thesis using False by simp
  qed
qed

text \<open>C37: On a nonempty bit list \<open>HighestBitIndex\<close> returns one more than the position of the highest set
  bit, or 0 when no bit is set.\<close>

theorem HighestBitIndex_highest:
  assumes "b \<noteq> []"
  shows "\<exists>h. HighestBitIndex b = Ok h \<and> h \<le> 8 * length b \<and>
    (0 < h \<longrightarrow> bit_at b (h - 1)) \<and> (\<forall>k \<ge> h. \<not> bit_at b k)"
proof -
  have "top_bit_below b (8 * length b) (HighestBitIndex_loop b (length b))"
    by (rule HighestBitIndex_loop_top) simp
  then show ?thesis using assms
    by (auto simp: HighestBitIndex_def top_bit_below_def bit_at_def)
qed

theorem HighestBitIndex_witness:
  "\<exists>h. HighestBitIndex [8, 1, 0] = Ok h \<and> h \<le> 24 \<and>
    (0 < h \<longrightarrow> bit_at [8, 1, 0] (h - 1)) \<and> (\<forall>k \<ge> h. \<not> bit_at [8, 1, 0] k)"
  using HighestBitIndex_highest[of "[8, 1, 0]"] by simp

section \<open>Integers as bytes\<close>

text \<open>C35: Eight bytes and a 64-bit integer determine each other, in both byte orders.\<close>

theorem integer_bytes_roundtrip:
  assumes "length bs = 8"
  shows "FromBytes8 (Bytes8 x) = x \<and> Bytes8 (FromBytes8 bs) = bs \<and>
    BytesToUint64BigEndian (Uint64ToBytesBigEndian x) = x \<and>
    Uint64ToBytesBigEndian (BytesToUint64BigEndian bs) = bs"
  using assms put_le_get_le[of bs 8] put_le_get_le[of "rev bs" 8]
  by (simp add: FromBytes8_def Bytes8_def get_le_put_le BytesToUint64BigEndian_def
      Uint64ToBytesBigEndian_def put_be_def get_be_def)

theorem integer_bytes_witness:
  "FromBytes8 (Bytes8 258) = 258 \<and> Bytes8 (FromBytes8 [1, 2, 3, 4, 5, 6, 7, 8]) = [1, 2, 3, 4, 5, 6, 7, 8] \<and>
    BytesToUint64BigEndian (Uint64ToBytesBigEndian 258) = 258 \<and>
    Uint64ToBytesBigEndian (BytesToUint64BigEndian [1, 2, 3, 4, 5, 6, 7, 8]) = [1, 2, 3, 4, 5, 6, 7, 8]"
  using integer_bytes_roundtrip[of "[1, 2, 3, 4, 5, 6, 7, 8]" 258] by simp

end
