(* ===== verification/Go_State.thy ===== *)
theory Go_State
  imports Prelude
begin

text \<open>
  Go methods with a pointer receiver, as functions on an explicit state that return an outcome
  together with the new state. The state is kept on errors, since a Go method that returns an
  error leaves behind what it had already written. \<open>triple P m Q R\<close> says that \<open>m\<close>, started in a
  state satisfying \<open>P\<close>, does not panic, and returns with \<open>Q\<close> or fails with \<open>R\<close>.
\<close>

type_synonym ('e, 's, 'a) proc = "'s \<Rightarrow> ('e, 'a) outcome \<times> 's"

definition ret :: "'a \<Rightarrow> ('e, 's, 'a) proc" where
  "ret a = (\<lambda>s. (Ok a, s))"

definition fail :: "'e \<Rightarrow> ('e, 's, 'a) proc" where
  "fail e = (\<lambda>s. (Fail e, s))"

definition panic :: "('e, 's, 'a) proc" where
  "panic = (\<lambda>s. (Panic, s))"

definition bind :: "('e, 's, 'a) proc \<Rightarrow> ('a \<Rightarrow> ('e, 's, 'b) proc) \<Rightarrow> ('e, 's, 'b) proc" where
  "bind m f = (\<lambda>s. case m s of
     (Ok a, s') \<Rightarrow> f a s' | (Fail e, s') \<Rightarrow> (Fail e, s') | (Panic, s') \<Rightarrow> (Panic, s'))"

definition seq :: "('e, 's, unit) proc \<Rightarrow> ('e, 's, 'b) proc \<Rightarrow> ('e, 's, 'b) proc" where
  "seq m k = bind m (\<lambda>_. k)"

text \<open>Reading the state, updating it, and using a pure outcome.\<close>

definition gets :: "('s \<Rightarrow> 'a) \<Rightarrow> ('e, 's, 'a) proc" where
  "gets g = (\<lambda>s. (Ok (g s), s))"

definition modify :: "('s \<Rightarrow> 's) \<Rightarrow> ('e, 's, unit) proc" where
  "modify g = (\<lambda>s. (Ok (), g s))"

definition lift :: "('e, 'a) outcome \<Rightarrow> ('e, 's, 'a) proc" where
  "lift r = (\<lambda>s. (r, s))"

definition reads :: "('s \<Rightarrow> ('e, 'a) outcome) \<Rightarrow> ('e, 's, 'a) proc" where
  "reads g = (\<lambda>s. (g s, s))"

text \<open>\<open>if err != nil { return errors.Wrap(err) }\<close> and code that logs an error and carries on.\<close>

definition wrap_err :: "('e \<Rightarrow> 'f) \<Rightarrow> ('e, 's, 'a) proc \<Rightarrow> ('f, 's, 'a) proc" where
  "wrap_err w m = (\<lambda>s. case m s of (r, s') \<Rightarrow> (owrap w r, s'))"

fun log_outcome :: "('e, 'a) outcome \<Rightarrow> ('e, unit) outcome" where
  "log_outcome Panic = Panic"
| "log_outcome _ = Ok ()"

definition log_err :: "('e, 's, 'a) proc \<Rightarrow> ('e, 's, unit) proc" where
  "log_err m = (\<lambda>s. case m s of (r, s') \<Rightarrow> (log_outcome r, s'))"

text \<open>Code that runs when a call has returned an error.\<close>

definition catch :: "('e, 's, 'a) proc \<Rightarrow> ('e \<Rightarrow> ('e, 's, 'a) proc) \<Rightarrow> ('e, 's, 'a) proc" where
  "catch m h = (\<lambda>s. case m s of
     (Ok a, s') \<Rightarrow> (Ok a, s') | (Fail e, s') \<Rightarrow> h e s' | (Panic, s') \<Rightarrow> (Panic, s'))"

text \<open>A \<open>for ... range\<close> loop over a slice.\<close>

primrec for_each :: "'a list \<Rightarrow> ('a \<Rightarrow> ('e, 's, unit) proc) \<Rightarrow> ('e, 's, unit) proc" where
  "for_each [] body = ret ()"
| "for_each (x # xs) body = seq (body x) (for_each xs body)"

primrec fold_each :: "'a list \<Rightarrow> ('a \<Rightarrow> 'b \<Rightarrow> ('e, 's, 'b) proc) \<Rightarrow> 'b \<Rightarrow> ('e, 's, 'b) proc" where
  "fold_each [] body acc = ret acc"
| "fold_each (x # xs) body acc = bind (body x acc) (fold_each xs body)"

text \<open>A sequence of calls, with the outcome of each; a failed call does not end the sequence.\<close>

fun run_ops :: "('op \<Rightarrow> ('e, 's, unit) proc) \<Rightarrow> 'op list \<Rightarrow> 's \<Rightarrow> ('e, unit) outcome list \<times> 's" where
  "run_ops step [] s = ([], s)"
| "run_ops step (op # ops) s =
     (let (r, s) = step op s; (rs, s) = run_ops step ops s in (r # rs, s))"

text \<open>A method of a component embedded in a larger state.\<close>

definition zoom ::
  "('t \<Rightarrow> 's) \<Rightarrow> ('s \<Rightarrow> 't \<Rightarrow> 't) \<Rightarrow> ('e, 's, 'a) proc \<Rightarrow> ('e, 't, 'a) proc" where
  "zoom get put m = (\<lambda>t. case m (get t) of (r, s') \<Rightarrow> (r, put s' t))"

section \<open>Evaluation\<close>

named_theorems proc_simps \<open>evaluation of procedures at a state\<close>

lemma proc_eval [proc_simps]:
  "ret a s = (Ok a, s)" "fail e s = (Fail e, s)" "panic s = (Panic, s)"
  "gets g s = (Ok (g s), s)" "modify h s = (Ok (), h s)" "lift r s = (r, s)" "reads k s = (k s, s)"
  by (simp_all add: ret_def fail_def panic_def gets_def modify_def lift_def reads_def)

lemma bind_eval [proc_simps]:
  "m s = (Ok a, s') \<Longrightarrow> bind m f s = f a s'"
  "m s = (Fail e, s') \<Longrightarrow> bind m f s = (Fail e, s')"
  "m s = (Panic, s') \<Longrightarrow> bind m f s = (Panic, s')"
  by (simp_all add: bind_def)

lemma seq_eval [proc_simps]:
  "m s = (Ok (), s') \<Longrightarrow> seq m k s = k s'"
  "m s = (Fail e, s') \<Longrightarrow> seq m k s = (Fail e, s')"
  "m s = (Panic, s') \<Longrightarrow> seq m k s = (Panic, s')"
  by (simp_all add: seq_def bind_eval)

lemma bind_Ok_iff:
  "bind m f s = (Ok b, t) \<longleftrightarrow> (\<exists>a s'. m s = (Ok a, s') \<and> f a s' = (Ok b, t))"
  by (auto simp: bind_def split: prod.splits outcome.splits)

lemma seq_Ok_iff:
  "seq m k s = (Ok b, t) \<longleftrightarrow> (\<exists>s'. m s = (Ok (), s') \<and> k s' = (Ok b, t))"
  by (auto simp: seq_def bind_Ok_iff)

lemma wrap_err_eval [proc_simps]: "m s = (r, s') \<Longrightarrow> wrap_err w m s = (owrap w r, s')"
  by (simp add: wrap_err_def)

lemma log_err_eval [proc_simps]: "m s = (r, s') \<Longrightarrow> log_err m s = (log_outcome r, s')"
  by (simp add: log_err_def)

lemma catch_eval [proc_simps]:
  "m s = (Ok a, s') \<Longrightarrow> catch m h s = (Ok a, s')"
  "m s = (Fail e, s') \<Longrightarrow> catch m h s = h e s'"
  "m s = (Panic, s') \<Longrightarrow> catch m h s = (Panic, s')"
  by (simp_all add: catch_def)

lemma zoom_eval [proc_simps]: "m (get t) = (r, s') \<Longrightarrow> zoom get put m t = (r, put s' t)"
  by (simp add: zoom_def)

section \<open>Triples\<close>

definition triple ::
  "('s \<Rightarrow> bool) \<Rightarrow> ('e, 's, 'a) proc \<Rightarrow> ('a \<Rightarrow> 's \<Rightarrow> bool) \<Rightarrow> ('e \<Rightarrow> 's \<Rightarrow> bool) \<Rightarrow> bool" where
  "triple P m Q R \<longleftrightarrow> (\<forall>s. P s \<longrightarrow>
     (case m s of (Ok a, s') \<Rightarrow> Q a s' | (Fail e, s') \<Rightarrow> R e s' | (Panic, s') \<Rightarrow> False))"

named_theorems triple_rules \<open>rules for triples\<close>

lemma tripleI:
  assumes "\<And>s. P s \<Longrightarrow> case m s of (Ok a, s') \<Rightarrow> Q a s' | (Fail e, s') \<Rightarrow> R e s' | (Panic, s') \<Rightarrow> False"
  shows "triple P m Q R"
  using assms by (simp add: triple_def)

lemma tripleD:
  assumes "triple P m Q R" and "P s"
  obtains (Ok) a s' where "m s = (Ok a, s')" "Q a s'"
  | (Fail) e s' where "m s = (Fail e, s')" "R e s'"
proof (cases "m s")
  case (Pair r s')
  with assms that show thesis by (cases r) (force simp: triple_def)+
qed

lemma triple_conseq:
  assumes "triple P' m Q' R'" and "\<And>s. P s \<Longrightarrow> P' s"
    and "\<And>a s. Q' a s \<Longrightarrow> Q a s" and "\<And>e s. R' e s \<Longrightarrow> R e s"
  shows "triple P m Q R"
proof (rule tripleI)
  fix s assume "P s"
  then have "P' s" by (rule assms(2))
  with assms(1) show "case m s of (Ok a, s') \<Rightarrow> Q a s' | (Fail e, s') \<Rightarrow> R e s' | (Panic, s') \<Rightarrow> False"
    by (cases rule: tripleD) (auto intro: assms(3,4))
qed

lemma triple_bind [triple_rules]:
  assumes "triple P m B R" and "\<And>a. triple (B a) (f a) Q R"
  shows "triple P (bind m f) Q R"
proof (rule tripleI)
  fix s assume "P s"
  with assms(1) show "case bind m f s of (Ok a, s') \<Rightarrow> Q a s' | (Fail e, s') \<Rightarrow> R e s' | (Panic, s') \<Rightarrow> False"
  proof (cases rule: tripleD)
    case (Ok a s')
    from assms(2)[of a] Ok(2) show ?thesis
      by (cases rule: tripleD) (simp_all add: bind_eval Ok(1))
  qed (simp add: bind_eval)
qed

lemma triple_seq [triple_rules]:
  assumes "triple P m (\<lambda>_. B) R" and "triple B k Q R"
  shows "triple P (seq m k) Q R"
  unfolding seq_def using assms by (rule triple_bind)

lemma triple_ret [triple_rules]: "(\<And>s. P s \<Longrightarrow> Q a s) \<Longrightarrow> triple P (ret a) Q R"
  by (simp add: triple_def proc_eval)

lemma triple_fail [triple_rules]: "(\<And>s. P s \<Longrightarrow> R e s) \<Longrightarrow> triple P (fail e) Q R"
  by (simp add: triple_def proc_eval)

lemma triple_modify [triple_rules]: "(\<And>s. P s \<Longrightarrow> Q () (h s)) \<Longrightarrow> triple P (modify h) Q R"
  by (simp add: triple_def proc_eval)

lemma triple_gets [triple_rules]: "(\<And>s. P s \<Longrightarrow> Q (g s) s) \<Longrightarrow> triple P (gets g) Q R"
  by (simp add: triple_def proc_eval)

lemma triple_for_each:
  assumes "\<And>x. x \<in> set xs \<Longrightarrow> triple I (body x) (\<lambda>_. I) R"
  shows "triple I (for_each xs body) (\<lambda>_. I) R"
  using assms
proof (induction xs)
  case Nil
  show ?case by (simp add: triple_ret)
next
  case (Cons x xs)
  then show ?case by (auto intro!: triple_seq[of I "body x" I])
qed

section \<open>Frames\<close>

text \<open>A procedure keeps an observation when every run, failing or not, leaves its value unchanged.\<close>

definition keeps :: "('s \<Rightarrow> 'o) \<Rightarrow> ('e, 's, 'a) proc \<Rightarrow> bool" where
  "keeps obs m \<longleftrightarrow> (\<forall>s. obs (snd (m s)) = obs s)"

named_theorems keeps_rules \<open>rules for kept observations\<close>

lemma keepsD: "keeps obs m \<Longrightarrow> obs (snd (m s)) = obs s"
  by (simp add: keeps_def)

lemma keeps_pure [keeps_rules]:
  "keeps obs (ret a)" "keeps obs (fail e)" "keeps obs panic" "keeps obs (gets g)" "keeps obs (lift r)"
  "keeps obs (reads k)"
  by (simp_all add: keeps_def proc_eval)

lemma keeps_modify [keeps_rules]: "(\<And>s. obs (h s) = obs s) \<Longrightarrow> keeps obs (modify h)"
  by (simp add: keeps_def proc_eval)

lemma keeps_bind [keeps_rules]:
  assumes "keeps obs m" "\<And>a. keeps obs (f a)"
  shows "keeps obs (bind m f)"
  unfolding keeps_def
proof
  fix s
  obtain r s' where r: "m s = (r, s')" by fastforce
  then have "obs s' = obs s" using keepsD[OF assms(1), of s] by simp
  then show "obs (snd (bind m f s)) = obs s"
    using r assms(2) by (cases r) (simp_all add: bind_def keeps_def)
qed

lemma keeps_seq [keeps_rules]: "keeps obs m \<Longrightarrow> keeps obs k \<Longrightarrow> keeps obs (seq m k)"
  by (simp add: seq_def keeps_bind)

lemma keeps_wrap [keeps_rules]: "keeps obs m \<Longrightarrow> keeps obs (wrap_err w m)" "keeps obs m \<Longrightarrow> keeps obs (log_err m)"
  by (simp_all add: keeps_def wrap_err_def log_err_def case_prod_beta)

lemma keeps_catch [keeps_rules]:
  assumes "keeps obs m" "\<And>e. keeps obs (h e)"
  shows "keeps obs (catch m h)"
  unfolding keeps_def
proof
  fix s
  obtain r s' where r: "m s = (r, s')" by fastforce
  then have "obs s' = obs s" using keepsD[OF assms(1), of s] by simp
  then show "obs (snd (catch m h s)) = obs s"
    using r assms(2) by (cases r) (simp_all add: catch_def keeps_def)
qed

lemma keeps_if [keeps_rules]:
  "(b \<Longrightarrow> keeps obs m) \<Longrightarrow> (\<not> b \<Longrightarrow> keeps obs k) \<Longrightarrow> keeps obs (if b then m else k)"
  by simp

lemma keeps_option [keeps_rules]:
  "(x = None \<Longrightarrow> keeps obs m) \<Longrightarrow> (\<And>a. x = Some a \<Longrightarrow> keeps obs (k a)) \<Longrightarrow>
     keeps obs (case x of None \<Rightarrow> m | Some a \<Rightarrow> k a)"
  by (cases x) simp_all

lemma keeps_prod [keeps_rules]: "(\<And>a b. keeps obs (k a b)) \<Longrightarrow> keeps obs (case x of (a, b) \<Rightarrow> k a b)"
  by (cases x) simp

lemma keeps_Let [keeps_rules]: "(\<And>a. keeps obs (k a)) \<Longrightarrow> keeps obs (Let x k)"
  by simp

lemma keeps_for_each [keeps_rules]: "(\<And>x. keeps obs (body x)) \<Longrightarrow> keeps obs (for_each xs body)"
  by (induction xs) (auto intro: keeps_rules)

lemma keeps_fold_each [keeps_rules]: "(\<And>x a. keeps obs (body x a)) \<Longrightarrow> keeps obs (fold_each xs body acc)"
  by (induction xs arbitrary: acc) (auto intro: keeps_rules)

end
