(* ===== verification/Forkchoice_Types.thy ===== *)
theory Forkchoice_Types
  imports Slots Bytes Go_State
begin

text \<open>
  The data of \<open>beacon-chain/forkchoice/doubly-linked-tree\<close> (\<open>types.go\<close>, \<open>errors.go\<close>). The code links
  \<open>Node\<close> and \<open>PayloadNode\<close> objects by pointers. The store of the model carries the two kinds of
  allocated objects as lists, a pointer is an index into its list (\<open>nref\<close>, \<open>pref\<close>), allocation
  appends, and \<open>nil\<close> is \<open>None\<close>. A pointer that Go never sets to \<open>nil\<close> (the \<open>node\<close> of a payload node,
  the elements of \<open>children\<close>) is a plain index. Checkpoints are never updated in place, so they are
  values.

  The record \<open>fc_env\<close> holds what a call reads from outside: the configuration, the clock, whether
  the context is cancelled, the feature flag, and the operations of the \<open>go-bitfield\<close> package. The
  code asks for the time and for the status of the context several times in a call; the model gives
  all readings of one call the same answer. So a call during which a slot begins, or in which the
  context is cancelled half-way, is not among the calls of the model; different calls have
  environments of their own. Metrics, tracing and logging have no effect
  on the state and are left out.
\<close>

type_synonym nref = nat
type_synonym pref = nat
type_synonym bitvector512 = "512 word"

datatype fc_error =
    ErrNilNode
  | ErrInvalidParentRoot
  | ErrInvalidProposerBoostRoot
  | ErrUnknownFinalizedRoot
  | ErrUnknownJustifiedRoot
  | ErrInvalidOptimisticStatus
  | ErrInvalidNilCheckpoint
  | ErrInvalidUnrealizedJustifiedEpoch
  | ErrInvalidUnrealizedFinalizedEpoch
  | ErrUnknownCommonAncestor
  | ErrHeadNotEligible
  | ErrNilPayload
  | ErrNoFullAncestor
  | ErrContext
  | ErrSlots slot_error
  | ErrExternal

record checkpoint =
  cp_Epoch :: epoch
  cp_Root :: root

text \<open>A checkpoint message, whose root is a slice.\<close>

record pb_checkpoint =
  pb_Epoch :: epoch
  pb_Root :: bytes

record node =
  n_slot :: slot
  n_proposerIndex :: validator_index
  n_root :: root
  n_blockHash :: root
  n_parent :: "pref option"
  n_target :: "nref option"
  n_bestDescendant :: "nref option"
  n_justifiedEpoch :: epoch
  n_unrealizedJustifiedEpoch :: epoch
  n_finalizedEpoch :: epoch
  n_unrealizedFinalizedEpoch :: epoch
  n_balance :: u64
  n_weight :: u64
  n_payloadAvailabilityVote :: bitvector512
  n_payloadDataAvailabilityVote :: bitvector512
  n_payloadAttesters :: bitvector512

record payload_node =
  p_optimistic :: bool
  p_full :: bool
  p_weight :: u64
  p_balance :: u64
  p_gasLimit :: u64
  p_bestDescendant :: "nref option"
  p_node :: nref
  p_timestamp :: time
  p_children :: "nref list"

record vote =
  currentRoot :: root
  nextRoot :: root
  nextSlot :: slot
  currentSlot :: slot
  nextPayloadStatus :: bool
  currentPayloadStatus :: bool

record store =
  nodes :: "node list"
  pnodes :: "payload_node list"
  justifiedCheckpoint :: checkpoint
  unrealizedJustifiedCheckpoint :: checkpoint
  unrealizedFinalizedCheckpoint :: checkpoint
  prevJustifiedCheckpoint :: checkpoint
  finalizedCheckpoint :: checkpoint
  proposerBoostRoot :: root
  previousProposerBoostRoot :: root
  previousProposerBoostScore :: u64
  finalizedDependentRoot :: root
  finalizedPayloadBlockHash :: root
  committeeWeight :: u64
  treeRootNode :: "nref option"
  headNode :: "nref option"
  emptyNodeByRoot :: "root \<Rightarrow> pref option"
  fullNodeByRoot :: "root \<Rightarrow> pref option"
  slashedIndices :: "validator_index \<Rightarrow> bool"
  blockRootsBySlotProposer :: "slot \<times> validator_index \<Rightarrow> root list"
  originRoot :: root
  genesisTime :: time
  highestReceivedNode :: "nref option"
  receivedBlocksLastEpoch :: "slot list"
  allTipsAreInvalid :: bool

record fork_choice =
  fc_store :: store
  fc_votes :: "vote list"
  fc_balances :: "u64 list"
  fc_justifiedBalances :: "u64 list"
  fc_balancesByRoot :: "root \<Rightarrow> (fc_error, u64 list) outcome"

record fc_env =
  fc_cfg :: beacon_config
  fc_now :: time
  fc_ctxErr :: bool
  IgnoreUnviableAttestations :: bool
  NewBitvector512 :: bitvector512
  SetBitAt :: "bitvector512 \<Rightarrow> u64 \<Rightarrow> bool \<Rightarrow> bitvector512"
  BitCount :: "bitvector512 \<Rightarrow> u64"

text \<open>The block and state values the methods receive, by the results of the accessors they call.\<close>

record ro_block =
  rb_Root :: root
  rb_Slot :: slot
  rb_ProposerIndex :: validator_index
  rb_ParentRoot :: root
  rb_Version :: fork_version
  rb_Execution :: "(fc_error, bytes \<times> u64) outcome"
  rb_Bid :: "(fc_error, root \<times> root) outcome"

record beacon_state_view =
  bs_Slot :: slot
  bs_CurrentJustifiedCheckpoint :: "pb_checkpoint option"
  bs_FinalizedCheckpoint :: "pb_checkpoint option"
  bs_UnrealizedCheckpoints :: "(fc_error, pb_checkpoint \<times> pb_checkpoint) outcome"

record block_and_checkpoints =
  bc_Block :: ro_block
  bc_JustifiedCheckpoint :: pb_checkpoint
  bc_FinalizedCheckpoint :: pb_checkpoint
  bc_HasPayload :: bool

type_synonym 'a store_op = "(fc_error, store, 'a) proc"
type_synonym 'a fc_op = "(fc_error, fork_choice, 'a) proc"

definition ZeroHash :: root where "ZeroHash = 0"
definition fieldparams_SlotsPerEpoch :: u64 where "fieldparams_SlotsPerEpoch = 32"
definition PTCSize :: u64 where "PTCSize = 512"

definition zero_checkpoint :: checkpoint where
  "zero_checkpoint = \<lparr>cp_Epoch = 0, cp_Root = 0\<rparr>"

definition zero_vote :: vote where
  "zero_vote = \<lparr>currentRoot = ZeroHash, nextRoot = ZeroHash, nextSlot = 0, currentSlot = 0,
     nextPayloadStatus = False, currentPayloadStatus = False\<rparr>"

text \<open>Dereferencing and writing through pointers.\<close>

definition node_at :: "store \<Rightarrow> nref \<Rightarrow> node" where
  "node_at s n = nodes s ! n"

definition pnode_at :: "store \<Rightarrow> pref \<Rightarrow> payload_node" where
  "pnode_at s p = pnodes s ! p"

definition upd_node :: "nref \<Rightarrow> (node \<Rightarrow> node) \<Rightarrow> store \<Rightarrow> store" where
  "upd_node n g s = s\<lparr>nodes := (nodes s)[n := g (nodes s ! n)]\<rparr>"

definition upd_pnode :: "pref \<Rightarrow> (payload_node \<Rightarrow> payload_node) \<Rightarrow> store \<Rightarrow> store" where
  "upd_pnode p g s = s\<lparr>pnodes := (pnodes s)[p := g (pnodes s ! p)]\<rparr>"

text \<open>The consensus node behind a payload node.\<close>

abbreviation cnode :: "store \<Rightarrow> pref \<Rightarrow> node" where
  "cnode s p \<equiv> node_at s (p_node (pnode_at s p))"

text \<open>A dereference of a pointer that may be nil.\<close>

definition deref :: "'a option \<Rightarrow> ('e, 's, 'a) proc" where
  "deref x = (case x of None \<Rightarrow> panic | Some a \<Rightarrow> ret a)"

definition slots_op :: "(slot_error, 'a) outcome \<Rightarrow> (fc_error, 's, 'a) proc" where
  "slots_op r = lift (owrap ErrSlots r)"

definition check_ctx :: "fc_env \<Rightarrow> (fc_error, 's, unit) proc" where
  "check_ctx E = (if fc_ctxErr E then fail ErrContext else ret ())"

text \<open>A recursion over the tree makes at most one nested call per allocated node.\<close>

definition tree_fuel :: "store \<Rightarrow> nat" where
  "tree_fuel s = Suc (length (nodes s))"

section \<open>Pointer facts\<close>

lemma node_at_upd_node:
  "n < length (nodes s) \<Longrightarrow> node_at (upd_node n g s) m = (if m = n then g (node_at s n) else node_at s m)"
  by (simp add: node_at_def upd_node_def nth_list_update)

lemma pnode_at_upd_pnode:
  "p < length (pnodes s) \<Longrightarrow> pnode_at (upd_pnode p g s) q = (if q = p then g (pnode_at s p) else pnode_at s q)"
  by (simp add: pnode_at_def upd_pnode_def nth_list_update)

lemma upd_node_frame [simp]:
  "pnode_at (upd_node n g s) p = pnode_at s p"
  "length (nodes (upd_node n g s)) = length (nodes s)"
  "pnodes (upd_node n g s) = pnodes s"
  "emptyNodeByRoot (upd_node n g s) = emptyNodeByRoot s"
  "fullNodeByRoot (upd_node n g s) = fullNodeByRoot s"
  "genesisTime (upd_node n g s) = genesisTime s"
  "proposerBoostRoot (upd_node n g s) = proposerBoostRoot s"
  "treeRootNode (upd_node n g s) = treeRootNode s"
  by (simp_all add: upd_node_def pnode_at_def)

lemma upd_pnode_frame [simp]:
  "node_at (upd_pnode p g s) n = node_at s n"
  "nodes (upd_pnode p g s) = nodes s"
  "length (pnodes (upd_pnode p g s)) = length (pnodes s)"
  "emptyNodeByRoot (upd_pnode p g s) = emptyNodeByRoot s"
  "fullNodeByRoot (upd_pnode p g s) = fullNodeByRoot s"
  "genesisTime (upd_pnode p g s) = genesisTime s"
  "proposerBoostRoot (upd_pnode p g s) = proposerBoostRoot s"
  "treeRootNode (upd_pnode p g s) = treeRootNode s"
  by (simp_all add: upd_pnode_def node_at_def)

end
