(* ===== verification/Forkchoice_Store.thy ===== *)
theory Forkchoice_Store
  imports Forkchoice_Types
begin

text \<open>
  The methods of \<open>Node\<close>, \<open>PayloadNode\<close> and \<open>Store\<close> in \<open>node.go\<close>, \<open>store.go\<close>, \<open>gloas.go\<close>,
  \<open>optimistic_sync.go\<close>, \<open>proposer_boost.go\<close> and \<open>unrealized_justification.go\<close>. Methods that only read
  the store are functions to an outcome; methods that write it are procedures. Recursive methods
  take the depth of recursion that is left as an extra argument and panic when it is exhausted
  (as Go does on stack exhaustion); \<open>Forkchoice_Tree\<close> shows \<open>tree_fuel\<close> to be enough on
  every well-formed store. Parameters a Go method never reads (the finalized epoch of the best
  descendant methods) are left out.
\<close>

section \<open>Nodes (\<open>node.go\<close>)\<close>

definition ProcessAttestationsThreshold :: duration where
  "ProcessAttestationsThreshold = 10 * Second"

definition viableForHead :: "node \<Rightarrow> epoch \<Rightarrow> epoch \<Rightarrow> bool" where
  "viableForHead n justifiedEpoch currentEpoch \<longleftrightarrow>
     justifiedEpoch = 0 \<or>
     n_justifiedEpoch n = justifiedEpoch \<or> n_justifiedEpoch n + 2 \<ge> currentEpoch"

definition leadsToViableHead :: "store \<Rightarrow> nref \<Rightarrow> epoch \<Rightarrow> epoch \<Rightarrow> bool" where
  "leadsToViableHead s n justifiedEpoch currentEpoch =
     (case n_bestDescendant (node_at s n) of
        None \<Rightarrow> viableForHead (node_at s n) justifiedEpoch currentEpoch
      | Some d \<Rightarrow> viableForHead (node_at s d) justifiedEpoch currentEpoch)"

text \<open>\<open>Time.Truncate(time.Second)\<close> rounds down to a whole second.\<close>

definition truncate_second :: "time \<Rightarrow> time" where
  "truncate_second t = t - t mod Second"

definition arrivedEarly :: "fc_env \<Rightarrow> store \<Rightarrow> pref \<Rightarrow> time \<Rightarrow> (fc_error, bool) outcome" where
  "arrivedEarly E s p genesis =
     obind (owrap ErrSlots (SinceSlotStart (fc_cfg E) (n_slot (cnode s p)) genesis
              (truncate_second (p_timestamp (pnode_at s p))))) (\<lambda>sss.
       Ok (sss < SlotComponentDuration (fc_cfg E) (AttestationDueBPS (fc_cfg E))))"

definition arrivedAfterOrphanCheck :: "fc_env \<Rightarrow> store \<Rightarrow> pref \<Rightarrow> time \<Rightarrow> (fc_error, bool) outcome" where
  "arrivedAfterOrphanCheck E s p genesis =
     obind (owrap ErrSlots (SinceSlotStart (fc_cfg E) (n_slot (cnode s p)) genesis
              (truncate_second (p_timestamp (pnode_at s p))))) (\<lambda>secs.
       Ok (secs \<ge> ProcessAttestationsThreshold))"

section \<open>Reading the tree (\<open>gloas.go\<close>)\<close>

definition emptyNode :: "store \<Rightarrow> nref \<Rightarrow> pref option" where
  "emptyNode s n = emptyNodeByRoot s (n_root (node_at s n))"

definition fullNode :: "store \<Rightarrow> nref \<Rightarrow> pref option" where
  "fullNode s n = fullNodeByRoot s (n_root (node_at s n))"

definition store_currentSlot :: "fc_env \<Rightarrow> store \<Rightarrow> (fc_error, slot) outcome" where
  "store_currentSlot E s = owrap ErrSlots (CurrentSlot (fc_cfg E) (fc_now E) (genesisTime s))"

definition allConsensusChildren :: "store \<Rightarrow> nref \<Rightarrow> (fc_error, nref list) outcome" where
  "allConsensusChildren s n =
     (case emptyNode s n of
        None \<Rightarrow> Panic
      | Some en \<Rightarrow>
          (case fullNode s n of
             Some fn \<Rightarrow> Ok (p_children (pnode_at s en) @ p_children (pnode_at s fn))
           | None \<Rightarrow> Ok (p_children (pnode_at s en))))"

definition hasConsensusChildren :: "store \<Rightarrow> nref \<Rightarrow> (fc_error, bool) outcome" where
  "hasConsensusChildren s n =
     (case emptyNode s n of
        None \<Rightarrow> Panic
      | Some en \<Rightarrow>
          Ok (p_children (pnode_at s en) \<noteq> [] \<or>
              (case fullNode s n of None \<Rightarrow> False | Some fn \<Rightarrow> p_children (pnode_at s fn) \<noteq> [])))"

definition shouldExtendPayload :: "fc_env \<Rightarrow> store \<Rightarrow> pref option \<Rightarrow> (fc_error, bool) outcome" where
  "shouldExtendPayload E s fno =
     (case fno of
        None \<Rightarrow> Ok False
      | Some fn \<Rightarrow>
          (let n = cnode s fn in
           if BitCount E (n_payloadAvailabilityVote n) > PTCSize div 2 \<and>
              BitCount E (n_payloadDataAvailabilityVote n) > PTCSize div 2 then Ok True
           else if proposerBoostRoot s = 0 then Ok True
           else (case emptyNodeByRoot s (proposerBoostRoot s) of
                   None \<Rightarrow> Ok True
                 | Some pn \<Rightarrow>
                     (case n_parent (cnode s pn) of
                        None \<Rightarrow> Panic
                      | Some q \<Rightarrow>
                          if p_node (pnode_at s q) \<noteq> p_node (pnode_at s fn) then Ok True
                          else Ok (p_full (pnode_at s q))))))"

definition choosePayloadContent :: "fc_env \<Rightarrow> store \<Rightarrow> nref \<Rightarrow> (fc_error, pref option) outcome" where
  "choosePayloadContent E s n =
     (case fullNode s n of
        None \<Rightarrow> Ok (emptyNode s n)
      | Some fn \<Rightarrow>
          (case emptyNode s n of
             None \<Rightarrow> Panic
           | Some en \<Rightarrow>
               if p_weight (pnode_at s fn) > p_weight (pnode_at s en) then Ok (Some fn)
               else if p_weight (pnode_at s fn) < p_weight (pnode_at s en) then Ok (Some en)
               else obind (store_currentSlot E s) (\<lambda>cur.
                 if n_slot (node_at s n) + 1 \<noteq> cur then Ok (Some fn)
                 else obind (shouldExtendPayload E s (Some fn)) (\<lambda>b.
                   Ok (Some (if b then fn else en))))))"

text \<open>\<open>for ; parent != nil && !parent.full; parent = parent.node.parent {}\<close>\<close>

fun fullParent_loop :: "store \<Rightarrow> nat \<Rightarrow> pref option \<Rightarrow> (fc_error, pref option) outcome" where
  "fullParent_loop s 0 q = Panic"
| "fullParent_loop s (Suc f) None = Ok None"
| "fullParent_loop s (Suc f) (Some q) =
     (if p_full (pnode_at s q) then Ok (Some q) else fullParent_loop s f (n_parent (cnode s q)))"

definition fullParent :: "store \<Rightarrow> pref \<Rightarrow> (fc_error, pref option) outcome" where
  "fullParent s p = fullParent_loop s (tree_fuel s) (n_parent (cnode s p))"

definition parentHash :: "store \<Rightarrow> pref \<Rightarrow> (fc_error, root) outcome" where
  "parentHash s p =
     obind (fullParent s p) (\<lambda>q. Ok (case q of None \<Rightarrow> 0 | Some q \<Rightarrow> n_blockHash (cnode s q)))"

definition checkpointPayloadHashForRoot :: "fc_env \<Rightarrow> store \<Rightarrow> root \<Rightarrow> (fc_error, root) outcome" where
  "checkpointPayloadHashForRoot E s r =
     (case emptyNodeByRoot s r of
        None \<Rightarrow> Ok 0
      | Some en \<Rightarrow>
          obind (owrap ErrSlots (ToEpoch (fc_cfg E) (n_slot (cnode s en)))) (\<lambda>e.
            if e < GloasForkEpoch (fc_cfg E) then Ok (n_blockHash (cnode s en))
            else parentHash s en))"

definition resolveVoteNode :: "store \<Rightarrow> root \<Rightarrow> slot \<Rightarrow> bool \<Rightarrow> pref option \<times> bool" where
  "resolveVoteNode s r sl payloadStatus =
     (case emptyNodeByRoot s r of
        None \<Rightarrow> (None, True)
      | Some en \<Rightarrow>
          if payloadStatus then (fullNodeByRoot s r, False)
          else (Some en, sl = n_slot (cnode s en)))"

definition resolveParentPayloadStatus ::
  "store \<Rightarrow> ro_block \<Rightarrow> (fc_error, pref option \<times> root) outcome" where
  "resolveParentPayloadStatus s b =
     obind (rb_Bid b) (\<lambda>(bidBlockHash, bidParentBlockHash).
       Ok (case emptyNodeByRoot s (rb_ParentRoot b) of
             None \<Rightarrow> (None, bidBlockHash)
           | Some p \<Rightarrow>
               (if bidParentBlockHash = n_blockHash (cnode s p)
                then fullNodeByRoot s (n_root (cnode s p)) else Some p, bidBlockHash)))"

section \<open>Weights (\<open>gloas.go\<close>)\<close>

text \<open>The body of \<open>applyWeightChangesPayloadNode\<close>, given the method for the children.\<close>

definition applyWeightChangesPayloadNode ::
  "(nref \<Rightarrow> unit store_op) \<Rightarrow> fc_env \<Rightarrow> pref option \<Rightarrow> unit store_op" where
  "applyWeightChangesPayloadNode rec E po =
     (case po of
        None \<Rightarrow> ret ()
      | Some p \<Rightarrow>
          bind (gets (\<lambda>s. p_children (pnode_at s p))) (\<lambda>children.
          bind (fold_each children (\<lambda>child childrenWeight.
                  seq (check_ctx E) (seq (rec child)
                    (gets (\<lambda>s. childrenWeight + n_weight (node_at s child))))) 0) (\<lambda>childrenWeight.
          modify (upd_pnode p (\<lambda>x. x\<lparr>p_weight := p_balance x + childrenWeight\<rparr>)))))"

primrec applyWeightChangesConsensusNode :: "fc_env \<Rightarrow> nat \<Rightarrow> nref \<Rightarrow> unit store_op" where
  "applyWeightChangesConsensusNode E 0 = (\<lambda>n. panic)"
| "applyWeightChangesConsensusNode E (Suc fuel) = (\<lambda>n.
     bind (gets (\<lambda>s. emptyNode s n)) (\<lambda>eno.
     seq (applyWeightChangesPayloadNode (applyWeightChangesConsensusNode E fuel) E eno)
     (bind (deref eno) (\<lambda>en.
      bind (gets (\<lambda>s. p_weight (pnode_at s en))) (\<lambda>w.
      bind (gets (\<lambda>s. fullNode s n)) (\<lambda>fno.
      bind (case fno of
              None \<Rightarrow> ret w
            | Some fn \<Rightarrow>
                seq (applyWeightChangesPayloadNode (applyWeightChangesConsensusNode E fuel) E fno)
                  (gets (\<lambda>s. w + p_weight (pnode_at s fn)))) (\<lambda>childrenWeight.
      bind (gets (\<lambda>s. n_root (node_at s n))) (\<lambda>r.
        if r = ZeroHash then ret ()
        else modify (upd_node n (\<lambda>x. x\<lparr>n_weight := n_balance x + childrenWeight\<rparr>))))))))))"

declare applyWeightChangesConsensusNode.simps(2) [simp del]

section \<open>Best descendants (\<open>gloas.go\<close>)\<close>

text \<open>One step of the loop that selects the best child; the state is the best child so far and its
  weight, \<open>leads\<close> tells whether the child leads to a viable head.\<close>

definition better_child :: "(nref \<Rightarrow> bool) \<Rightarrow> store \<Rightarrow> nref \<Rightarrow> nref option \<times> u64 \<Rightarrow> nref option \<times> u64" where
  "better_child leads s child best =
     (if leads child then
        (case fst best of
           None \<Rightarrow> (Some child, n_weight (node_at s child))
         | Some b \<Rightarrow>
             if n_weight (node_at s child) = snd best then
               (if n_root (node_at s child) > n_root (node_at s b) then (Some child, snd best) else best)
             else if n_weight (node_at s child) > snd best then (Some child, n_weight (node_at s child))
             else best)
      else best)"

definition updateBestDescendantPayloadNode ::
  "(nref \<Rightarrow> unit store_op) \<Rightarrow> fc_env \<Rightarrow> epoch \<Rightarrow> epoch \<Rightarrow> pref \<Rightarrow> unit store_op" where
  "updateBestDescendantPayloadNode rec E justifiedEpoch currentEpoch p =
     seq (check_ctx E)
     (bind (gets (\<lambda>s. p_children (pnode_at s p))) (\<lambda>children.
      bind (fold_each children (\<lambda>child best.
              seq (rec child)
                (gets (\<lambda>s. better_child (\<lambda>n. leadsToViableHead s n justifiedEpoch currentEpoch) s child best)))
              (None, 0)) (\<lambda>best.
      modify (\<lambda>s. upd_pnode p (\<lambda>x. x\<lparr>p_bestDescendant :=
        (case fst best of
           None \<Rightarrow> None
         | Some b \<Rightarrow> (case n_bestDescendant (node_at s b) of None \<Rightarrow> Some b | Some d \<Rightarrow> Some d))\<rparr>) s))))"

primrec updateBestDescendantConsensusNode ::
  "fc_env \<Rightarrow> epoch \<Rightarrow> epoch \<Rightarrow> nat \<Rightarrow> nref \<Rightarrow> unit store_op" where
  "updateBestDescendantConsensusNode E justifiedEpoch currentEpoch 0 = (\<lambda>n. panic)"
| "updateBestDescendantConsensusNode E justifiedEpoch currentEpoch (Suc fuel) = (\<lambda>n.
     seq (check_ctx E)
     (bind (reads (\<lambda>s. hasConsensusChildren s n)) (\<lambda>has.
      if \<not> has then modify (upd_node n (\<lambda>x. x\<lparr>n_bestDescendant := None\<rparr>))
      else
        bind (gets (\<lambda>s. emptyNode s n)) (\<lambda>eno. bind (deref eno) (\<lambda>en.
        seq (updateBestDescendantPayloadNode
               (updateBestDescendantConsensusNode E justifiedEpoch currentEpoch fuel)
               E justifiedEpoch currentEpoch en)
        (bind (gets (\<lambda>s. fullNode s n)) (\<lambda>fno.
          case fno of
            None \<Rightarrow>
              modify (\<lambda>s. upd_node n (\<lambda>x. x\<lparr>n_bestDescendant := p_bestDescendant (pnode_at s en)\<rparr>) s)
          | Some fn \<Rightarrow>
              seq (updateBestDescendantPayloadNode
                     (updateBestDescendantConsensusNode E justifiedEpoch currentEpoch fuel)
                     E justifiedEpoch currentEpoch fn)
              (bind (reads (\<lambda>s. choosePayloadContent E s n)) (\<lambda>co. bind (deref co) (\<lambda>c.
                modify (\<lambda>s. upd_node n (\<lambda>x. x\<lparr>n_bestDescendant := p_bestDescendant (pnode_at s c)\<rparr>) s)))))))))))"

declare updateBestDescendantConsensusNode.simps(2) [simp del]

section \<open>Validation and removal (\<open>gloas.go\<close>, \<open>optimistic_sync.go\<close>)\<close>

primrec setNodeAndParentValidated :: "fc_env \<Rightarrow> nat \<Rightarrow> pref \<Rightarrow> unit store_op" where
  "setNodeAndParentValidated E 0 = (\<lambda>pn. panic)"
| "setNodeAndParentValidated E (Suc fuel) = (\<lambda>pn.
     seq (check_ctx E)
     (bind (gets (\<lambda>s. pnode_at s pn)) (\<lambda>x.
      if \<not> p_optimistic x then ret ()
      else
        seq (modify (upd_pnode pn (\<lambda>x. x\<lparr>p_optimistic := False\<rparr>)))
        (seq (if p_full x then
                bind (gets (\<lambda>s. emptyNode s (p_node x))) (\<lambda>eno. bind (deref eno) (\<lambda>en.
                  modify (upd_pnode en (\<lambda>x. x\<lparr>p_optimistic := False\<rparr>))))
              else ret ())
        (bind (gets (\<lambda>s. n_parent (node_at s (p_node x)))) (\<lambda>parent.
           case parent of
             None \<Rightarrow> ret ()
           | Some q \<Rightarrow> setNodeAndParentValidated E fuel q))))))"

declare setNodeAndParentValidated.simps(2) [simp del]

text \<open>Deletion of the entry \<open>r\<close> of a Go map.\<close>

definition delete_empty :: "root \<Rightarrow> store \<Rightarrow> store" where
  "delete_empty r s = s\<lparr>emptyNodeByRoot := (emptyNodeByRoot s)(r := None)\<rparr>"

definition delete_full :: "root \<Rightarrow> store \<Rightarrow> store" where
  "delete_full r s = s\<lparr>fullNodeByRoot := (fullNodeByRoot s)(r := None)\<rparr>"

definition clear_boost_of :: "root \<Rightarrow> store \<Rightarrow> store" where
  "clear_boost_of r s =
     (let s1 = (if r = proposerBoostRoot s then s\<lparr>proposerBoostRoot := 0\<rparr> else s)
      in if r = previousProposerBoostRoot s1
         then s1\<lparr>previousProposerBoostRoot := ZeroHash, previousProposerBoostScore := 0\<rparr> else s1)"

primrec removeNodeAndChildren :: "fc_env \<Rightarrow> nat \<Rightarrow> pref option \<Rightarrow> root list \<Rightarrow> root list store_op" where
  "removeNodeAndChildren E 0 = (\<lambda>pno invalidRoots. panic)"
| "removeNodeAndChildren E (Suc fuel) = (\<lambda>pno invalidRoots.
     bind (deref pno) (\<lambda>pn. bind (gets (\<lambda>s. pnode_at s pn)) (\<lambda>x.
     bind (if \<not> p_full x then
             bind (gets (\<lambda>s. fullNode s (p_node x))) (\<lambda>fno.
               case fno of
                 None \<Rightarrow> ret invalidRoots
               | Some fn \<Rightarrow> removeNodeAndChildren E fuel (Some fn) invalidRoots)
           else ret invalidRoots) (\<lambda>roots1.
     bind (gets (\<lambda>s. p_children (pnode_at s pn))) (\<lambda>children.
     bind (fold_each children (\<lambda>child roots.
             seq (check_ctx E)
             (bind (gets (\<lambda>s. emptyNode s child)) (\<lambda>eno.
                removeNodeAndChildren E fuel eno roots))) roots1) (\<lambda>roots2.
     bind (gets (\<lambda>s. n_root (node_at s (p_node x)))) (\<lambda>r.
       if p_full x then seq (modify (delete_full r)) (ret roots2)
       else seq (modify (\<lambda>s. delete_empty r (clear_boost_of r s))) (ret (roots2 @ [r])))))))))"

declare removeNodeAndChildren.simps(2) [simp del]

text \<open>Removal of a child from the slice of its parent: the last element takes its place. A slice of
  one element is replaced by an empty one without looking at the element.\<close>

fun replace_first :: "nref \<Rightarrow> nref \<Rightarrow> nref list \<Rightarrow> nref list option" where
  "replace_first x y [] = None"
| "replace_first x y (z # zs) =
     (if z = x then Some (y # zs) else map_option ((#) z) (replace_first x y zs))"

definition remove_child :: "nref \<Rightarrow> nref list \<Rightarrow> nref list" where
  "remove_child x children =
     (if length children = 1 then []
      else case replace_first x (last children) children of
             None \<Rightarrow> children
           | Some ys \<Rightarrow> butlast ys)"

definition removeNode :: "fc_env \<Rightarrow> pref option \<Rightarrow> root list store_op" where
  "removeNode E pno =
     (case pno of
        None \<Rightarrow> fail ErrNilNode
      | Some pn \<Rightarrow>
          bind (gets (\<lambda>s. (pnode_at s pn, n_parent (cnode s pn)))) (\<lambda>(x, parent).
            if \<not> p_optimistic x then fail ErrInvalidOptimisticStatus
            else case parent of
              None \<Rightarrow> fail ErrInvalidOptimisticStatus
            | Some q \<Rightarrow>
                seq (modify (upd_pnode q (\<lambda>y. y\<lparr>p_children := remove_child (p_node x) (p_children y)\<rparr>)))
                (bind (gets (\<lambda>s. 2 * tree_fuel s)) (\<lambda>fuel. removeNodeAndChildren E fuel (Some pn) []))))"

text \<open>The two loops of \<open>setOptimisticToInvalid\<close>: the search among the ancestors of an empty parent
  (\<open>None\<close>: the chain is valid; \<open>Some n\<close>: the node it stops at, which may be nil), and the walk to the
  first invalid full node, which returns the last node passed and the full parent it stops at.\<close>

fun invalid_ancestor :: "fc_env \<Rightarrow> store \<Rightarrow> nat \<Rightarrow> root \<Rightarrow> root \<Rightarrow> pref option \<Rightarrow>
    (fc_error, pref option option) outcome" where
  "invalid_ancestor E s 0 parentHash' lastValidHash no = Panic"
| "invalid_ancestor E s (Suc f) parentHash' lastValidHash None = Ok (Some None)"
| "invalid_ancestor E s (Suc f) parentHash' lastValidHash (Some n) =
     (if fc_ctxErr E then Fail ErrContext
      else if n_blockHash (cnode s n) = lastValidHash then Ok None
      else if n_blockHash (cnode s n) = parentHash' then Ok (Some (Some n))
      else invalid_ancestor E s f parentHash' lastValidHash (n_parent (cnode s n)))"

fun first_invalid :: "fc_env \<Rightarrow> store \<Rightarrow> nat \<Rightarrow> root \<Rightarrow> pref \<Rightarrow> pref option \<Rightarrow>
    (fc_error, pref \<times> pref option) outcome" where
  "first_invalid E s 0 lastValidHash n fpo = Panic"
| "first_invalid E s (Suc f) lastValidHash n None = Ok (n, None)"
| "first_invalid E s (Suc f) lastValidHash n (Some fp) =
     (if n_blockHash (cnode s fp) = lastValidHash then Ok (n, Some fp)
      else if fc_ctxErr E then Fail ErrContext
      else obind (fullParent s fp) (\<lambda>fp'. first_invalid E s f lastValidHash fp fp'))"

text \<open>The node the search starts from: \<open>None\<close> when the method returns early without an error.\<close>

definition invalid_start ::
  "fc_env \<Rightarrow> store \<Rightarrow> root \<Rightarrow> root \<Rightarrow> root \<Rightarrow> root \<Rightarrow> (fc_error, pref option) outcome" where
  "invalid_start E s r parentRoot parentHash' lastValidHash =
     (case fullNodeByRoot s r of
        None \<Rightarrow>
          (case emptyNodeByRoot s parentRoot of
             None \<Rightarrow> Fail ErrNilNode
           | Some n \<Rightarrow>
               if n_blockHash (cnode s n) = lastValidHash then Ok None
               else if n_blockHash (cnode s n) = parentHash' then
                 (case fullNodeByRoot s parentRoot of None \<Rightarrow> Fail ErrNilNode | Some fn \<Rightarrow> Ok (Some fn))
               else
                 obind (invalid_ancestor E s (tree_fuel s) parentHash' lastValidHash (n_parent (cnode s n)))
                   (\<lambda>a. case a of
                          None \<Rightarrow> Ok None
                        | Some None \<Rightarrow> Fail ErrNilNode
                        | Some (Some m) \<Rightarrow> Ok (Some m)))
      | Some n \<Rightarrow>
          (case n_parent (cnode s n) of
             None \<Rightarrow> Fail ErrNilNode
           | Some q \<Rightarrow>
               if n_root (cnode s q) \<noteq> parentRoot then Fail ErrInvalidParentRoot else Ok (Some n)))"

definition setOptimisticToInvalid ::
  "fc_env \<Rightarrow> root \<Rightarrow> root \<Rightarrow> root \<Rightarrow> root \<Rightarrow> root list store_op" where
  "setOptimisticToInvalid E r parentRoot parentHash' lastValidHash =
     bind (reads (\<lambda>s. invalid_start E s r parentRoot parentHash' lastValidHash)) (\<lambda>starto.
       case starto of
         None \<Rightarrow> ret []
       | Some startNode \<Rightarrow>
           bind (reads (\<lambda>s. obind (fullParent s startNode)
                   (\<lambda>fpo. first_invalid E s (tree_fuel s) lastValidHash startNode fpo))) (\<lambda>(n, fpo).
           bind (gets (\<lambda>s. n_root (cnode s startNode))) (\<lambda>startRoot.
             if fpo = None then
               (if startRoot \<noteq> r then ret [] else removeNode E (Some startNode))
             else removeNode E (Some n))))"

section \<open>Pruning (\<open>store.go\<close>)\<close>

primrec pruneFinalizedNodeByRootMap :: "fc_env \<Rightarrow> nref \<Rightarrow> nat \<Rightarrow> nref \<Rightarrow> unit store_op" where
  "pruneFinalizedNodeByRootMap E finalizedNode 0 = (\<lambda>n. panic)"
| "pruneFinalizedNodeByRootMap E finalizedNode (Suc fuel) = (\<lambda>n.
     seq (check_ctx E)
     (if n = finalizedNode then
        modify (\<lambda>s. if n_target (node_at s n) \<noteq> Some n
                    then upd_node n (\<lambda>x. x\<lparr>n_target := None\<rparr>) s else s)
      else
        bind (reads (\<lambda>s. allConsensusChildren s n)) (\<lambda>children.
        seq (for_each children (pruneFinalizedNodeByRootMap E finalizedNode fuel))
        (bind (gets (\<lambda>s. emptyNode s n)) (\<lambda>eno. bind (deref eno) (\<lambda>en.
         bind (gets (\<lambda>s. n_root (node_at s n))) (\<lambda>r.
         seq (modify (\<lambda>s. delete_empty r (upd_pnode en (\<lambda>x. x\<lparr>p_children := []\<rparr>) s)))
         (bind (gets (\<lambda>s. fullNodeByRoot s r)) (\<lambda>fno.
           case fno of
             None \<Rightarrow> ret ()
           | Some fn \<Rightarrow>
               modify (\<lambda>s. delete_full r (upd_pnode fn (\<lambda>x. x\<lparr>p_children := []\<rparr>) s)))))))))))"

declare pruneFinalizedNodeByRootMap.simps(2) [simp del]

text \<open>The loop over the children of the finalized node: children up to the checkpoint slot are
  pruned with their subtrees, the others are kept.\<close>

definition prune_children :: "fc_env \<Rightarrow> nref \<Rightarrow> slot \<Rightarrow> pref \<Rightarrow> unit store_op" where
  "prune_children E fn checkpointMaxSlot p =
     bind (gets (\<lambda>s. (p_children (pnode_at s p), tree_fuel s))) (\<lambda>(children, fuel).
     bind (fold_each children (\<lambda>child remaining.
             bind (gets (\<lambda>s. n_slot (node_at s child))) (\<lambda>sl.
               if sl \<le> checkpointMaxSlot
               then seq (pruneFinalizedNodeByRootMap E fn fuel child) (ret remaining)
               else ret (remaining @ [child]))) []) (\<lambda>remaining.
     modify (upd_pnode p (\<lambda>x. x\<lparr>p_children := remaining\<rparr>))))"

definition prune :: "fc_env \<Rightarrow> unit store_op" where
  "prune E =
     bind (gets (\<lambda>s. (cp_Root (finalizedCheckpoint s), cp_Epoch (finalizedCheckpoint s)))) (\<lambda>(finalizedRoot, finalizedEpoch).
     bind (gets (\<lambda>s. emptyNodeByRoot s finalizedRoot)) (\<lambda>feno.
       case feno of
         None \<Rightarrow> fail ErrUnknownFinalizedRoot
       | Some fen \<Rightarrow>
           bind (gets (\<lambda>s. p_node (pnode_at s fen))) (\<lambda>fn.
           bind (gets (\<lambda>s. n_parent (node_at s fn))) (\<lambda>parent.
             case parent of
               None \<Rightarrow> ret ()
             | Some q \<Rightarrow>
                 bind (reads (\<lambda>s. checkpointPayloadHashForRoot E s finalizedRoot)) (\<lambda>h.
                 seq (modify (\<lambda>s. s\<lparr>finalizedPayloadBlockHash := h,
                                    finalizedDependentRoot := n_root (cnode s q)\<rparr>))
                 (bind (gets treeRootNode) (\<lambda>tree. bind (deref tree) (\<lambda>t.
                  bind (gets tree_fuel) (\<lambda>fuel.
                  seq (pruneFinalizedNodeByRootMap E fn fuel t)
                  (seq (modify (\<lambda>s. (upd_node fn (\<lambda>x. x\<lparr>n_parent := None\<rparr>) s)\<lparr>treeRootNode := Some fn\<rparr>))
                  (bind (slots_op (EpochStart (fc_cfg E) finalizedEpoch)) (\<lambda>checkpointMaxSlot.
                   bind (gets (\<lambda>s. n_slot (node_at s fn))) (\<lambda>fslot.
                     if fslot = checkpointMaxSlot then ret ()
                     else
                       seq (prune_children E fn checkpointMaxSlot fen)
                       (bind (gets (\<lambda>s. fullNodeByRoot s finalizedRoot)) (\<lambda>ffno.
                          case ffno of
                            None \<Rightarrow> ret ()
                          | Some ffn \<Rightarrow> prune_children E fn checkpointMaxSlot ffn)))))))))))))))"

section \<open>Target and dependent roots (\<open>forkchoice.go\<close>)\<close>

definition epoch_of :: "fc_env \<Rightarrow> slot \<Rightarrow> (fc_error, epoch) outcome" where
  "epoch_of E sl = owrap ErrSlots (ToEpoch (fc_cfg E) sl)"

primrec targetRootForEpoch :: "fc_env \<Rightarrow> store \<Rightarrow> nat \<Rightarrow> root \<Rightarrow> epoch \<Rightarrow> (fc_error, root) outcome" where
  "targetRootForEpoch E s 0 = (\<lambda>r e. Panic)"
| "targetRootForEpoch E s (Suc fuel) = (\<lambda>r e.
     case emptyNodeByRoot s r of
       None \<Rightarrow> Fail ErrNilNode
     | Some n \<Rightarrow>
         obind (epoch_of E (n_slot (cnode s n))) (\<lambda>nodeEpoch.
           if e > nodeEpoch then Ok (n_root (cnode s n))
           else case n_target (cnode s n) of
             None \<Rightarrow> Ok 0
           | Some t \<Rightarrow>
               if e = nodeEpoch then Ok (n_root (node_at s t))
               else case emptyNodeByRoot s (n_root (node_at s t)) of
                 None \<Rightarrow> Fail ErrNilNode
               | Some targetNode \<Rightarrow>
                   obind (epoch_of E (n_slot (cnode s targetNode))) (\<lambda>targetEpoch.
                     if nodeEpoch = targetEpoch then
                       (case n_parent (cnode s targetNode) of
                          None \<Rightarrow> Fail ErrNilNode
                        | Some q \<Rightarrow> targetRootForEpoch E s fuel (n_root (cnode s q)) e)
                     else targetRootForEpoch E s fuel (n_root (cnode s targetNode)) e)))"

declare targetRootForEpoch.simps(2) [simp del]

definition dependentRootForEpoch :: "fc_env \<Rightarrow> store \<Rightarrow> root \<Rightarrow> epoch \<Rightarrow> (fc_error, root) outcome" where
  "dependentRootForEpoch E s r e =
     obind (targetRootForEpoch E s (tree_fuel s) r e) (\<lambda>tr.
       if tr = 0 then Ok 0
       else case emptyNodeByRoot s tr of
         None \<Rightarrow> Fail ErrNilNode
       | Some en \<Rightarrow>
           obind (epoch_of E (n_slot (cnode s en))) (\<lambda>te.
             if te \<ge> e then
               (case n_parent (cnode s en) of
                  Some q \<Rightarrow> Ok (n_root (cnode s q))
                | None \<Rightarrow> Ok (finalizedDependentRoot s))
             else Ok (n_root (cnode s en))))"

definition dependentRoot :: "fc_env \<Rightarrow> store \<Rightarrow> epoch \<Rightarrow> (fc_error, root) outcome" where
  "dependentRoot E s e =
     dependentRootForEpoch E s (case headNode s of None \<Rightarrow> 0 | Some h \<Rightarrow> n_root (node_at s h)) e"

section \<open>Proposer boost (\<open>proposer_boost.go\<close>, \<open>gloas.go\<close>)\<close>

definition removePreviousProposerBoost :: "store \<Rightarrow> store" where
  "removePreviousProposerBoost s =
     (if previousProposerBoostRoot s = ZeroHash then s
      else case emptyNodeByRoot s (previousProposerBoostRoot s) of
        None \<Rightarrow> s
      | Some previousNode \<Rightarrow>
          upd_node (p_node (pnode_at s previousNode)) (\<lambda>n. n\<lparr>n_balance :=
            (if n_balance n < previousProposerBoostScore s then 0
             else n_balance n - previousProposerBoostScore s)\<rparr>) s)"

definition applyNewProposerBoost :: "fc_env \<Rightarrow> store \<Rightarrow> u64 \<times> store" where
  "applyNewProposerBoost E s =
     (if proposerBoostRoot s = ZeroHash then (0, s)
      else case emptyNodeByRoot s (proposerBoostRoot s) of
        None \<Rightarrow> (0, s)
      | Some currentNode \<Rightarrow>
          let proposerScore = committeeWeight s * ProposerScoreBoost (fc_cfg E) div 100
          in (proposerScore, upd_node (p_node (pnode_at s currentNode))
                (\<lambda>n. n\<lparr>n_balance := n_balance n + proposerScore\<rparr>) s))"

definition proposerBoost :: "store \<Rightarrow> root" where
  "proposerBoost s = proposerBoostRoot s"

definition shouldApplyProposerBoost :: "fc_env \<Rightarrow> store \<Rightarrow> (fc_error, bool) outcome" where
  "shouldApplyProposerBoost E s =
     (if proposerBoostRoot s = 0 then Ok False
      else obind (store_currentSlot E s) (\<lambda>cur. obind (epoch_of E cur) (\<lambda>e.
        if e < GloasForkEpoch (fc_cfg E) then Ok True
        else case emptyNodeByRoot s (proposerBoostRoot s) of
          None \<Rightarrow> Ok False
        | Some en \<Rightarrow>
            (case n_parent (cnode s en) of
               None \<Rightarrow> Ok True
             | Some p \<Rightarrow>
                 if n_slot (cnode s p) + 1 \<noteq> n_slot (cnode s en) then Ok True
                 else if n_weight (cnode s p) * 100 \<ge> committeeWeight s * ReorgHeadWeightThreshold (fc_cfg E)
                 then Ok True
                 else Ok (\<forall>r \<in> set (blockRootsBySlotProposer s
                            (n_slot (cnode s p), n_proposerIndex (cnode s p))). r = n_root (cnode s p))))))"

definition removeProposerBoostFromParent :: "fc_env \<Rightarrow> unit store_op" where
  "removeProposerBoostFromParent E =
     bind (gets (\<lambda>s. if proposerBoostRoot s = 0 then None else emptyNodeByRoot s (proposerBoostRoot s))) (\<lambda>pno.
       case pno of
         None \<Rightarrow> ret ()
       | Some pn \<Rightarrow>
           bind (gets (\<lambda>s. n_parent (cnode s pn))) (\<lambda>po. bind (deref po) (\<lambda>p.
           bind (reads (store_currentSlot E)) (\<lambda>cur.
           bind (gets (\<lambda>s. n_slot (cnode s p))) (\<lambda>pslot.
             if pslot + 1 \<noteq> cur then ret ()
             else modify (\<lambda>s. upd_pnode p (\<lambda>x. x\<lparr>p_weight :=
                    (if p_weight x < previousProposerBoostScore s then 0
                     else p_weight x - previousProposerBoostScore s)\<rparr>) s))))))"

section \<open>Insertion (\<open>store.go\<close>)\<close>

text \<open>The first part of \<open>insert\<close>: the parent payload node, the block hash and the gas limit.\<close>

definition insert_resolve :: "store \<Rightarrow> ro_block \<Rightarrow> (fc_error, pref option \<times> root \<times> u64) outcome" where
  "insert_resolve s b =
     (if rb_Version b \<ge> Gloas then
        obind (resolveParentPayloadStatus s b) (\<lambda>(parent, blockHash). Ok (parent, blockHash, 0))
      else
        obind (if rb_Version b \<ge> Bellatrix
               then obind (rb_Execution b) (\<lambda>(h, g). Ok (array32 (ToBytes32 h), g))
               else Ok (0, 0)) (\<lambda>(blockHash, gasLimit).
          if fullNodeByRoot s (rb_ParentRoot b) = None \<and> emptyNodeByRoot s (rb_ParentRoot b) \<noteq> None
          then Fail ErrInvalidParentRoot
          else Ok (fullNodeByRoot s (rb_ParentRoot b), blockHash, gasLimit)))"

definition insert_target :: "fc_env \<Rightarrow> store \<Rightarrow> slot \<Rightarrow> pref option \<Rightarrow> (fc_error, nref option) outcome" where
  "insert_target E s sl parent =
     obind (owrap ErrSlots (IsEpochStart (fc_cfg E) sl)) (\<lambda>start.
       if start then Ok (Some (length (nodes s)))
       else case parent of
         None \<Rightarrow> Ok None
       | Some p \<Rightarrow>
           obind (epoch_of E sl) (\<lambda>e. obind (epoch_of E (n_slot (cnode s p))) (\<lambda>pe.
             Ok (if e = pe then n_target (cnode s p) else Some (p_node (pnode_at s p))))))"

text \<open>The allocation of the consensus node, the empty node and, before Gloas, the full node.\<close>

definition new_node ::
  "fc_env \<Rightarrow> ro_block \<Rightarrow> epoch \<Rightarrow> epoch \<Rightarrow> pref option \<Rightarrow> root \<Rightarrow> nref option \<Rightarrow> node" where
  "new_node E b justifiedEpoch finalizedEpoch parent blockHash target =
     \<lparr>n_slot = rb_Slot b, n_proposerIndex = rb_ProposerIndex b, n_root = rb_Root b,
      n_blockHash = blockHash, n_parent = parent, n_target = target, n_bestDescendant = None,
      n_justifiedEpoch = justifiedEpoch, n_unrealizedJustifiedEpoch = justifiedEpoch,
      n_finalizedEpoch = finalizedEpoch, n_unrealizedFinalizedEpoch = finalizedEpoch,
      n_balance = 0, n_weight = 0, n_payloadAvailabilityVote = NewBitvector512 E,
      n_payloadDataAvailabilityVote = NewBitvector512 E, n_payloadAttesters = NewBitvector512 E\<rparr>"

definition new_pnode :: "nref \<Rightarrow> bool \<Rightarrow> time \<Rightarrow> bool \<Rightarrow> u64 \<Rightarrow> payload_node" where
  "new_pnode n optimistic timestamp full gasLimit =
     \<lparr>p_optimistic = optimistic, p_full = full, p_weight = 0, p_balance = 0, p_gasLimit = gasLimit,
      p_bestDescendant = None, p_node = n, p_timestamp = timestamp, p_children = []\<rparr>"

definition insert_alloc ::
  "fc_env \<Rightarrow> ro_block \<Rightarrow> epoch \<Rightarrow> epoch \<Rightarrow> pref option \<Rightarrow> root \<Rightarrow> u64 \<Rightarrow> nref option \<Rightarrow> store \<Rightarrow> store" where
  "insert_alloc E b justifiedEpoch finalizedEpoch parent blockHash gasLimit target s =
     (let n = length (nodes s);
          pn = length (pnodes s);
          optimistic = (case parent of None \<Rightarrow> True | Some q \<Rightarrow> p_optimistic (pnode_at s q));
          s1 = s\<lparr>nodes := nodes s @ [new_node E b justifiedEpoch finalizedEpoch parent blockHash target],
                 pnodes := pnodes s @ [new_pnode n optimistic (fc_now E) False 0],
                 emptyNodeByRoot := (emptyNodeByRoot s)(rb_Root b := Some pn)\<rparr>
      in if rb_Version b < Gloas
         then s1\<lparr>pnodes := pnodes s1 @ [new_pnode n True (fc_now E) True gasLimit],
                 fullNodeByRoot := (fullNodeByRoot s)(rb_Root b := Some (Suc pn))\<rparr>
         else s1)"

text \<open>The proposer boost of a timely block.\<close>

definition insert_boost :: "fc_env \<Rightarrow> ro_block \<Rightarrow> slot \<Rightarrow> duration \<Rightarrow> unit store_op" where
  "insert_boost E b currentSlot' sss =
     (let bps = (if rb_Version b \<ge> Gloas then AttestationDueBPSGloas (fc_cfg E) else AttestationDueBPS (fc_cfg E));
          boostThreshold = SlotComponentDuration (fc_cfg E) bps
      in bind (gets (\<lambda>s. proposerBoostRoot s = 0)) (\<lambda>isFirstBlock.
         if currentSlot' = rb_Slot b \<and> sss < boostThreshold \<and> isFirstBlock then
           bind (lift (epoch_of E currentSlot')) (\<lambda>e.
             let depEpoch = (if e > 0 then e - 1 else e) in
             bind (reads (\<lambda>s. dependentRootForEpoch E s (rb_Root b) depEpoch)) (\<lambda>depRoot.
             bind (reads (\<lambda>s. dependentRoot E s depEpoch)) (\<lambda>headDepRoot.
               if depRoot = headDepRoot then modify (\<lambda>s. s\<lparr>proposerBoostRoot := rb_Root b\<rparr>)
               else ret ())))
         else ret ()))"

text \<open>The bookkeeping at the end of \<open>insert\<close>.\<close>

definition insert_finish :: "fc_env \<Rightarrow> ro_block \<Rightarrow> nref \<Rightarrow> unit store_op" where
  "insert_finish E b n =
     bind (reads (store_currentSlot E)) (\<lambda>cur.
     seq (if rb_Slot b + SlotsPerEpoch (fc_cfg E) > cur then
            bind (slots_op (u64_mod (rb_Slot b) (SlotsPerEpoch (fc_cfg E)))) (\<lambda>i.
            bind (gets (\<lambda>s. length (receivedBlocksLastEpoch s))) (\<lambda>l.
              if unat i < l
              then modify (\<lambda>s. s\<lparr>receivedBlocksLastEpoch := (receivedBlocksLastEpoch s)[unat i := rb_Slot b]\<rparr>)
              else panic))
          else ret ())
     (bind (gets highestReceivedNode) (\<lambda>ho. bind (deref ho) (\<lambda>h.
      modify (\<lambda>s. if rb_Slot b > n_slot (node_at s h) then s\<lparr>highestReceivedNode := Some n\<rparr> else s)))))"

definition insert_link :: "fc_env \<Rightarrow> ro_block \<Rightarrow> nref \<Rightarrow> pref \<Rightarrow> pref \<Rightarrow> pref store_op" where
  "insert_link E b n parent retn =
     seq (modify (upd_pnode parent (\<lambda>x. x\<lparr>p_children := p_children x @ [n]\<rparr>)))
     (bind (gets genesisTime) (\<lambda>genesis.
       if fc_now E < genesis then ret retn
       else
         bind (reads (store_currentSlot E)) (\<lambda>cur.
         bind (slots_op (SinceSlotStart (fc_cfg E) cur genesis (fc_now E))) (\<lambda>sss.
         seq (insert_boost E b cur sss)
         (bind (gets (\<lambda>s. (treeRootNode s, cp_Epoch (justifiedCheckpoint s), tree_fuel s))) (\<lambda>(tree, jEpoch, fuel).
          bind (deref tree) (\<lambda>t. bind (lift (epoch_of E cur)) (\<lambda>e.
          seq (log_err (updateBestDescendantConsensusNode E jEpoch e fuel t))
          (seq (insert_finish E b n) (ret retn))))))))))"

definition store_insert :: "fc_env \<Rightarrow> ro_block \<Rightarrow> epoch \<Rightarrow> epoch \<Rightarrow> pref store_op" where
  "store_insert E b justifiedEpoch finalizedEpoch =
     bind (gets (\<lambda>s. emptyNodeByRoot s (rb_Root b))) (\<lambda>known.
       case known of
         Some n \<Rightarrow> ret n
       | None \<Rightarrow>
           bind (reads (\<lambda>s. insert_resolve s b)) (\<lambda>(parent, blockHash, gasLimit).
           bind (reads (\<lambda>s. insert_target E s (rb_Slot b) parent)) (\<lambda>target.
           bind (gets (\<lambda>s. (length (nodes s), length (pnodes s)))) (\<lambda>(n, pn).
           let retn = (if rb_Version b < Gloas then Suc pn else pn) in
           seq (modify (insert_alloc E b justifiedEpoch finalizedEpoch parent blockHash gasLimit target))
           (case parent of
              Some p \<Rightarrow> insert_link E b n p retn
            | None \<Rightarrow>
                bind (gets treeRootNode) (\<lambda>tree.
                  case tree of
                    None \<Rightarrow>
                      seq (modify (\<lambda>s. s\<lparr>treeRootNode := Some n, headNode := Some n,
                                         highestReceivedNode := Some n\<rparr>))
                      (seq (insert_finish E b n) (ret retn))
                  | Some t \<Rightarrow>
                      seq (modify (\<lambda>s. delete_full (rb_Root b) (delete_empty (rb_Root b) s)))
                      (fail ErrInvalidParentRoot)))))))"

section \<open>Head (\<open>store.go\<close>)\<close>

definition store_head :: "fc_env \<Rightarrow> root store_op" where
  "store_head E =
     seq (check_ctx E)
     (bind (gets (\<lambda>s. emptyNodeByRoot s (cp_Root (justifiedCheckpoint s)))) (\<lambda>ej.
      bind (case ej of
              Some e \<Rightarrow> gets (\<lambda>s. p_node (pnode_at s e))
            | None \<Rightarrow>
                bind (gets (\<lambda>s. cp_Epoch (justifiedCheckpoint s))) (\<lambda>je.
                  if je = GenesisEpoch (fc_cfg E)
                  then bind (gets treeRootNode) deref
                  else fail ErrUnknownJustifiedRoot)) (\<lambda>jn.
      bind (gets (\<lambda>s. case n_bestDescendant (node_at s jn) of None \<Rightarrow> jn | Some d \<Rightarrow> d)) (\<lambda>bestDescendant.
      bind (gets genesisTime) (\<lambda>genesis.
      bind (slots_op (EpochsSinceGenesis (fc_cfg E) (fc_now E) genesis)) (\<lambda>currentEpoch.
      bind (gets (\<lambda>s. viableForHead (node_at s bestDescendant) (cp_Epoch (justifiedCheckpoint s)) currentEpoch)) (\<lambda>viable.
        if \<not> viable then
          seq (modify (\<lambda>s. s\<lparr>allTipsAreInvalid := True\<rparr>)) (fail ErrHeadNotEligible)
        else
          seq (modify (\<lambda>s. s\<lparr>allTipsAreInvalid := False, headNode := Some bestDescendant\<rparr>))
          (gets (\<lambda>s. n_root (node_at s bestDescendant))))))))))"

text \<open>\<open>tips\<close> ranges over a Go map; the order of the range is the argument \<open>order\<close>.\<close>

definition tips :: "store \<Rightarrow> root list \<Rightarrow> (fc_error, (root \<times> slot) list) outcome" where
  "tips s order =
     ofold (\<lambda>r acc.
       case emptyNodeByRoot s r of
         None \<Rightarrow> Ok acc
       | Some n \<Rightarrow>
           obind (hasConsensusChildren s (p_node (pnode_at s n))) (\<lambda>has.
             Ok (if has then acc else acc @ [(r, n_slot (cnode s n))]))) order []"

section \<open>Unrealized checkpoints (\<open>unrealized_justification.go\<close>)\<close>

definition setUnrealizedJustifiedEpoch :: "root \<Rightarrow> epoch \<Rightarrow> unit store_op" where
  "setUnrealizedJustifiedEpoch r e =
     bind (gets (\<lambda>s. emptyNodeByRoot s r)) (\<lambda>eno.
       case eno of
         None \<Rightarrow> fail ErrNilNode
       | Some en \<Rightarrow>
           bind (gets (\<lambda>s. n_unrealizedJustifiedEpoch (cnode s en))) (\<lambda>old.
             if e < old then fail ErrInvalidUnrealizedJustifiedEpoch
             else modify (\<lambda>s. upd_node (p_node (pnode_at s en)) (\<lambda>n. n\<lparr>n_unrealizedJustifiedEpoch := e\<rparr>) s)))"

definition setUnrealizedFinalizedEpoch :: "root \<Rightarrow> epoch \<Rightarrow> unit store_op" where
  "setUnrealizedFinalizedEpoch r e =
     bind (gets (\<lambda>s. emptyNodeByRoot s r)) (\<lambda>eno.
       case eno of
         None \<Rightarrow> fail ErrNilNode
       | Some en \<Rightarrow>
           bind (gets (\<lambda>s. n_unrealizedFinalizedEpoch (cnode s en))) (\<lambda>old.
             if e < old then fail ErrInvalidUnrealizedFinalizedEpoch
             else modify (\<lambda>s. upd_node (p_node (pnode_at s en)) (\<lambda>n. n\<lparr>n_unrealizedFinalizedEpoch := e\<rparr>) s)))"

definition pb_to_checkpoint :: "pb_checkpoint \<Rightarrow> checkpoint" where
  "pb_to_checkpoint c = \<lparr>cp_Epoch = pb_Epoch c, cp_Root = array32 (ToBytes32 (pb_Root c))\<rparr>"

text \<open>The update of the store's unrealized checkpoints inside \<open>pullTips\<close>.\<close>

definition pull_store_checkpoints :: "pb_checkpoint \<Rightarrow> pb_checkpoint \<Rightarrow> store \<Rightarrow> store" where
  "pull_store_checkpoints uj uf s =
     (let s1 = (if pb_Epoch uj > cp_Epoch (unrealizedJustifiedCheckpoint s)
                then s\<lparr>unrealizedJustifiedCheckpoint := pb_to_checkpoint uj\<rparr> else s)
      in if pb_Epoch uf > cp_Epoch (unrealizedFinalizedCheckpoint s1)
         then s1\<lparr>unrealizedJustifiedCheckpoint := pb_to_checkpoint uj,
                 unrealizedFinalizedCheckpoint := pb_to_checkpoint uf\<rparr>
         else s1)"

definition pullTips ::
  "fc_env \<Rightarrow> beacon_state_view \<Rightarrow> nref \<Rightarrow> pb_checkpoint \<Rightarrow> pb_checkpoint \<Rightarrow>
     (pb_checkpoint \<times> pb_checkpoint) store_op" where
  "pullTips E st n jc fc =
     bind (gets (\<lambda>s. n_parent (node_at s n))) (\<lambda>parent.
       case parent of
         None \<Rightarrow> ret (jc, fc)
       | Some q \<Rightarrow>
           bind (gets (\<lambda>s. cnode s q)) (\<lambda>pn.
           bind (reads (store_currentSlot E)) (\<lambda>cur.
           bind (lift (epoch_of E cur)) (\<lambda>currentEpoch.
           bind (lift (epoch_of E (bs_Slot st))) (\<lambda>stateEpoch.
           bind (slots_op (SinceEpochStarts (fc_cfg E) (bs_Slot st))) (\<lambda>since.
           let currJustified = (n_unrealizedJustifiedEpoch pn = currentEpoch);
               prevJustified = (n_unrealizedJustifiedEpoch pn + 1 = currentEpoch);
               tooEarlyForCurr = (since * 3 < SlotsPerEpoch (fc_cfg E) * 2)
           in if currJustified \<or> (stateEpoch = currentEpoch \<and> prevJustified \<and> tooEarlyForCurr) then
                seq (modify (upd_node n (\<lambda>x. x\<lparr>n_unrealizedJustifiedEpoch := n_unrealizedJustifiedEpoch pn,
                                               n_unrealizedFinalizedEpoch := n_unrealizedFinalizedEpoch pn\<rparr>)))
                (ret (jc, fc))
              else
                bind (case bs_UnrealizedCheckpoints st of
                        Ok c \<Rightarrow> ret c | Fail e \<Rightarrow> ret (jc, fc) | Panic \<Rightarrow> panic) (\<lambda>(uj, uf).
                seq (modify (pull_store_checkpoints uj uf))
                (seq (modify (upd_node n (\<lambda>x. x\<lparr>n_unrealizedJustifiedEpoch := pb_Epoch uj,
                                                n_unrealizedFinalizedEpoch := pb_Epoch uf\<rparr>)))
                (if stateEpoch < currentEpoch then
                   seq (modify (upd_node n (\<lambda>x. x\<lparr>n_justifiedEpoch := pb_Epoch uj,
                                                  n_finalizedEpoch := pb_Epoch uf\<rparr>)))
                   (ret (uj, uf))
                 else ret (jc, fc))))))))))"

end
