(* ===== verification/Forkchoice.thy ===== *)
theory Forkchoice
  imports Forkchoice_Store
begin

text \<open>
  The methods of \<open>ForkChoice\<close>: \<open>forkchoice.go\<close>, \<open>on_tick.go\<close>, \<open>proposer_boost.go\<close>,
  \<open>reorg_late_blocks.go\<close>, \<open>unrealized_justification.go\<close> and the exported part of \<open>gloas.go\<close>. The
  read-write lock of the Go type is not modelled: callers hold it around each method.
\<close>

definition on_store :: "'a store_op \<Rightarrow> 'a fc_op" where
  "on_store m = zoom fc_store (\<lambda>s f. f\<lparr>fc_store := s\<rparr>) m"

definition upd_store :: "(store \<Rightarrow> store) \<Rightarrow> fork_choice \<Rightarrow> fork_choice" where
  "upd_store g f = f\<lparr>fc_store := g (fc_store f)\<rparr>"

section \<open>Construction and simple accessors\<close>

definition new_store :: "time \<Rightarrow> store" where
  "new_store zero_time =
     \<lparr>nodes = [], pnodes = [], justifiedCheckpoint = zero_checkpoint,
      unrealizedJustifiedCheckpoint = zero_checkpoint, unrealizedFinalizedCheckpoint = zero_checkpoint,
      prevJustifiedCheckpoint = zero_checkpoint, finalizedCheckpoint = zero_checkpoint,
      proposerBoostRoot = 0, previousProposerBoostRoot = 0, previousProposerBoostScore = 0,
      finalizedDependentRoot = 0, finalizedPayloadBlockHash = 0, committeeWeight = 0,
      treeRootNode = None, headNode = None, emptyNodeByRoot = (\<lambda>_. None), fullNodeByRoot = (\<lambda>_. None),
      slashedIndices = (\<lambda>_. False), blockRootsBySlotProposer = (\<lambda>_. []), originRoot = 0,
      genesisTime = zero_time, highestReceivedNode = None,
      receivedBlocksLastEpoch = replicate 32 0, allTipsAreInvalid = False\<rparr>"

text \<open>Go's zero \<open>time.Time\<close> is the first instant of year 1; calling the nil \<open>balancesByRoot\<close> handler
  panics.\<close>

definition go_zero_time :: time where
  "go_zero_time = - 62135596800 * Second"

definition New :: fork_choice where
  "New = \<lparr>fc_store = new_store go_zero_time, fc_votes = [], fc_balances = [],
          fc_justifiedBalances = [], fc_balancesByRoot = (\<lambda>_. Panic)\<rparr>"

definition SetBalancesByRooter :: "(root \<Rightarrow> (fc_error, u64 list) outcome) \<Rightarrow> fork_choice \<Rightarrow> fork_choice" where
  "SetBalancesByRooter handler f = f\<lparr>fc_balancesByRoot := handler\<rparr>"

definition SetGenesisTime :: "time \<Rightarrow> fork_choice \<Rightarrow> fork_choice" where
  "SetGenesisTime genesis = upd_store (\<lambda>s. s\<lparr>genesisTime := truncate_second genesis\<rparr>)"

definition SetOriginRoot :: "root \<Rightarrow> fork_choice \<Rightarrow> fork_choice" where
  "SetOriginRoot r = upd_store (\<lambda>s. s\<lparr>originRoot := r\<rparr>)"

definition HasNode :: "fork_choice \<Rightarrow> root \<Rightarrow> bool" where
  "HasNode f r \<longleftrightarrow> emptyNodeByRoot (fc_store f) r \<noteq> None"

definition HasFullNode :: "fork_choice \<Rightarrow> root \<Rightarrow> bool" where
  "HasFullNode f r \<longleftrightarrow> fullNodeByRoot (fc_store f) r \<noteq> None"

definition ProposerBoost :: "fork_choice \<Rightarrow> root" where
  "ProposerBoost f = proposerBoost (fc_store f)"

definition PreviousJustifiedCheckpoint :: "fork_choice \<Rightarrow> checkpoint" where
  "PreviousJustifiedCheckpoint f = prevJustifiedCheckpoint (fc_store f)"

definition JustifiedCheckpoint :: "fork_choice \<Rightarrow> checkpoint" where
  "JustifiedCheckpoint f = justifiedCheckpoint (fc_store f)"

definition FinalizedCheckpoint :: "fork_choice \<Rightarrow> checkpoint" where
  "FinalizedCheckpoint f = finalizedCheckpoint (fc_store f)"

definition CachedHeadRoot :: "fork_choice \<Rightarrow> root" where
  "CachedHeadRoot f = (case headNode (fc_store f) of None \<Rightarrow> 0 | Some h \<Rightarrow> n_root (node_at (fc_store f) h))"

definition FinalizedPayloadBlockHash :: "fork_choice \<Rightarrow> root" where
  "FinalizedPayloadBlockHash f = finalizedPayloadBlockHash (fc_store f)"

definition JustifiedPayloadBlockHash :: "fc_env \<Rightarrow> fork_choice \<Rightarrow> (fc_error, root) outcome" where
  "JustifiedPayloadBlockHash E f =
     checkpointPayloadHashForRoot E (fc_store f) (cp_Root (JustifiedCheckpoint f))"

definition UnrealizedJustifiedPayloadBlockHash :: "fc_env \<Rightarrow> fork_choice \<Rightarrow> (fc_error, root) outcome" where
  "UnrealizedJustifiedPayloadBlockHash E f =
     checkpointPayloadHashForRoot E (fc_store f) (cp_Root (unrealizedJustifiedCheckpoint (fc_store f)))"

definition HighestReceivedBlockRoot :: "fork_choice \<Rightarrow> root" where
  "HighestReceivedBlockRoot f =
     (case highestReceivedNode (fc_store f) of None \<Rightarrow> 0 | Some h \<Rightarrow> n_root (node_at (fc_store f) h))"

definition HighestReceivedBlockSlot :: "fork_choice \<Rightarrow> slot" where
  "HighestReceivedBlockSlot f =
     (case highestReceivedNode (fc_store f) of None \<Rightarrow> 0 | Some h \<Rightarrow> n_slot (node_at (fc_store f) h))"

definition ReceivedBlocksLastEpoch :: "fc_env \<Rightarrow> fork_choice \<Rightarrow> (fc_error, u64) outcome" where
  "ReceivedBlocksLastEpoch E f =
     obind (store_currentSlot E (fc_store f)) (\<lambda>cur.
     obind (if cur > fieldparams_SlotsPerEpoch
            then owrap (\<lambda>e. ErrSlots (SlotArith e)) (Slot_SafeSub cur fieldparams_SlotsPerEpoch)
            else Ok cur) (\<lambda>lowerBound.
       Ok (fold (\<lambda>s count. if s \<noteq> 0 \<and> lowerBound \<le> s then count + 1 else count)
             (receivedBlocksLastEpoch (fc_store f)) 0)))"

definition lookup_empty :: "fork_choice \<Rightarrow> root \<Rightarrow> (fc_error, pref) outcome" where
  "lookup_empty f r =
     (case emptyNodeByRoot (fc_store f) r of None \<Rightarrow> Fail ErrNilNode | Some en \<Rightarrow> Ok en)"

definition BlockHash :: "fork_choice \<Rightarrow> root \<Rightarrow> (fc_error, root) outcome" where
  "BlockHash f r = obind (lookup_empty f r) (\<lambda>en. Ok (n_blockHash (cnode (fc_store f) en)))"

definition Weight :: "fork_choice \<Rightarrow> root \<Rightarrow> (fc_error, u64) outcome" where
  "Weight f r = obind (lookup_empty f r) (\<lambda>en. Ok (p_weight (pnode_at (fc_store f) en)))"

definition ConsensusNodeWeight :: "fork_choice \<Rightarrow> root \<Rightarrow> (fc_error, u64) outcome" where
  "ConsensusNodeWeight f r = obind (lookup_empty f r) (\<lambda>en. Ok (n_weight (cnode (fc_store f) en)))"

definition PayloadWeights :: "fork_choice \<Rightarrow> root \<Rightarrow> (fc_error, u64 \<times> u64) outcome" where
  "PayloadWeights f r =
     obind (lookup_empty f r) (\<lambda>en.
       Ok (p_weight (pnode_at (fc_store f) en),
           case fullNodeByRoot (fc_store f) r of
             None \<Rightarrow> 0 | Some fn \<Rightarrow> p_weight (pnode_at (fc_store f) fn)))"

definition SlotOf :: "fork_choice \<Rightarrow> root \<Rightarrow> (fc_error, slot) outcome" where
  "SlotOf f r = obind (lookup_empty f r) (\<lambda>en. Ok (n_slot (cnode (fc_store f) en)))"

definition ParentRoot :: "fork_choice \<Rightarrow> root \<Rightarrow> (fc_error, root) outcome" where
  "ParentRoot f r =
     obind (lookup_empty f r) (\<lambda>en.
       Ok (case n_parent (cnode (fc_store f) en) of None \<Rightarrow> 0 | Some q \<Rightarrow> n_root (cnode (fc_store f) q)))"

definition GasLimit :: "fork_choice \<Rightarrow> root \<Rightarrow> (fc_error, u64) outcome" where
  "GasLimit f r =
     (case fullNodeByRoot (fc_store f) r of
        Some fn \<Rightarrow> Ok (p_gasLimit (pnode_at (fc_store f) fn))
      | None \<Rightarrow>
          obind (lookup_empty f r) (\<lambda>en.
          obind (fullParent (fc_store f) en) (\<lambda>fp.
            case fp of None \<Rightarrow> Fail ErrNoFullAncestor | Some q \<Rightarrow> Ok (p_gasLimit (pnode_at (fc_store f) q)))))"

definition FullBeatsEmpty :: "fc_env \<Rightarrow> fork_choice \<Rightarrow> root \<Rightarrow> (fc_error, bool) outcome" where
  "FullBeatsEmpty E f r =
     (case emptyNodeByRoot (fc_store f) r of
        None \<Rightarrow> Ok False
      | Some en \<Rightarrow>
          obind (choosePayloadContent E (fc_store f) (p_node (pnode_at (fc_store f) en))) (\<lambda>pn.
            Ok (case pn of None \<Rightarrow> False | Some p \<Rightarrow> p_full (pnode_at (fc_store f) p))))"

definition DependentRoot :: "fc_env \<Rightarrow> fork_choice \<Rightarrow> epoch \<Rightarrow> (fc_error, root) outcome" where
  "DependentRoot E f e = dependentRoot E (fc_store f) e"

definition DependentRootForEpoch :: "fc_env \<Rightarrow> fork_choice \<Rightarrow> root \<Rightarrow> epoch \<Rightarrow> (fc_error, root) outcome" where
  "DependentRootForEpoch E f r e = dependentRootForEpoch E (fc_store f) r e"

definition TargetRootForEpoch :: "fc_env \<Rightarrow> fork_choice \<Rightarrow> root \<Rightarrow> epoch \<Rightarrow> (fc_error, root) outcome" where
  "TargetRootForEpoch E f r e = targetRootForEpoch E (fc_store f) (tree_fuel (fc_store f)) r e"

definition Tips :: "fork_choice \<Rightarrow> root list \<Rightarrow> (fc_error, (root \<times> slot) list) outcome" where
  "Tips f order = tips (fc_store f) order"

section \<open>Canonical chain queries\<close>

definition IsCanonical :: "fork_choice \<Rightarrow> root \<Rightarrow> (fc_error, bool) outcome" where
  "IsCanonical f r =
     (let s = fc_store f in
      case emptyNodeByRoot s r of
        None \<Rightarrow> Ok False
      | Some pn \<Rightarrow>
          (case headNode s of
             None \<Rightarrow> Panic
           | Some h \<Rightarrow>
               (case n_bestDescendant (cnode s pn) of
                  None \<Rightarrow>
                    (case n_bestDescendant (node_at s h) of
                       None \<Rightarrow> Ok (p_node (pnode_at s pn) = h)
                     | Some d \<Rightarrow> Ok (p_node (pnode_at s pn) = d))
                | Some b \<Rightarrow>
                    (case n_bestDescendant (node_at s h) of
                       None \<Rightarrow> Ok (b = h)
                     | Some d \<Rightarrow> Ok (b = d)))))"

definition IsOptimistic :: "fork_choice \<Rightarrow> root \<Rightarrow> (fc_error, bool) outcome" where
  "IsOptimistic f r =
     (if allTipsAreInvalid (fc_store f) then Ok True
      else obind (lookup_empty f r) (\<lambda>en.
        Ok (case fullNodeByRoot (fc_store f) r of
              Some fn \<Rightarrow> p_optimistic (pnode_at (fc_store f) fn)
            | None \<Rightarrow> p_optimistic (pnode_at (fc_store f) en))))"

fun ancestor_at :: "fc_env \<Rightarrow> store \<Rightarrow> nat \<Rightarrow> slot \<Rightarrow> nref \<Rightarrow> (fc_error, nref option) outcome" where
  "ancestor_at E s 0 sl n = Panic"
| "ancestor_at E s (Suc fuel) sl n =
     (if n_slot (node_at s n) > sl then
        if fc_ctxErr E then Fail ErrContext
        else case n_parent (node_at s n) of
          None \<Rightarrow> Ok None
        | Some q \<Rightarrow> ancestor_at E s fuel sl (p_node (pnode_at s q))
      else Ok (Some n))"

definition AncestorRoot :: "fc_env \<Rightarrow> fork_choice \<Rightarrow> root \<Rightarrow> slot \<Rightarrow> (fc_error, root) outcome" where
  "AncestorRoot E f r sl =
     obind (lookup_empty f r) (\<lambda>pn.
     obind (ancestor_at E (fc_store f) (tree_fuel (fc_store f)) sl (p_node (pnode_at (fc_store f) pn))) (\<lambda>no.
       case no of None \<Rightarrow> Fail ErrNilNode | Some n \<Rightarrow> Ok (n_root (node_at (fc_store f) n))))"

fun canonical_walk :: "store \<Rightarrow> nat \<Rightarrow> slot \<Rightarrow> nref option \<Rightarrow> (fc_error, nref option) outcome" where
  "canonical_walk s 0 sl no = Panic"
| "canonical_walk s (Suc fuel) sl None = Ok None"
| "canonical_walk s (Suc fuel) sl (Some n) =
     (if n_slot (node_at s n) > sl then
        canonical_walk s fuel sl
          (case n_parent (node_at s n) of None \<Rightarrow> None | Some q \<Rightarrow> Some (p_node (pnode_at s q)))
      else Ok (Some n))"

definition CanonicalNodeAtSlot :: "fc_env \<Rightarrow> fork_choice \<Rightarrow> slot \<Rightarrow> (fc_error, root \<times> bool) outcome" where
  "CanonicalNodeAtSlot E f sl =
     (let s = fc_store f in
      obind (canonical_walk s (Suc (tree_fuel s)) sl (headNode s)) (\<lambda>no.
        case no of
          None \<Rightarrow> Ok (0, False)
        | Some n \<Rightarrow>
            obind (store_currentSlot E s) (\<lambda>cur.
              if n_slot (node_at s n) = cur then Ok (n_root (node_at s n), False)
              else obind (choosePayloadContent E s n) (\<lambda>pn.
                case pn of
                  None \<Rightarrow> Panic
                | Some p \<Rightarrow> Ok (n_root (cnode s p), p_full (pnode_at s p))))))"

fun common_ancestor :: "fc_env \<Rightarrow> store \<Rightarrow> nat \<Rightarrow> pref \<Rightarrow> pref \<Rightarrow> (fc_error, pref) outcome" where
  "common_ancestor E s 0 en1 en2 = Panic"
| "common_ancestor E s (Suc fuel) en1 en2 =
     (if fc_ctxErr E then Fail ErrContext
      else if n_slot (cnode s en1) > n_slot (cnode s en2) then
        (case n_parent (cnode s en1) of
           None \<Rightarrow> Fail ErrUnknownCommonAncestor
         | Some q \<Rightarrow> if q = en2 then Ok q else common_ancestor E s fuel q en2)
      else
        (case n_parent (cnode s en2) of
           None \<Rightarrow> Fail ErrUnknownCommonAncestor
         | Some q \<Rightarrow> if en1 = q then Ok en1 else common_ancestor E s fuel en1 q))"

definition CommonAncestor :: "fc_env \<Rightarrow> fork_choice \<Rightarrow> root \<Rightarrow> root \<Rightarrow> (fc_error, root \<times> slot) outcome" where
  "CommonAncestor E f r1 r2 =
     (let s = fc_store f in
      case emptyNodeByRoot s r1 of
        None \<Rightarrow> Fail ErrUnknownCommonAncestor
      | Some en1 \<Rightarrow>
          if r1 = r2 then Ok (r1, n_slot (cnode s en1))
          else case emptyNodeByRoot s r2 of
            None \<Rightarrow> Fail ErrUnknownCommonAncestor
          | Some en2 \<Rightarrow>
              obind (common_ancestor E s (2 * tree_fuel s) en1 en2) (\<lambda>a.
                Ok (n_root (cnode s a), n_slot (cnode s a))))"

definition IsViableForCheckpoint :: "fc_env \<Rightarrow> fork_choice \<Rightarrow> checkpoint \<Rightarrow> (fc_error, bool) outcome" where
  "IsViableForCheckpoint E f cp =
     (let s = fc_store f in
      case emptyNodeByRoot s (cp_Root cp) of
        None \<Rightarrow> Ok False
      | Some pn \<Rightarrow>
          obind (owrap ErrSlots (EpochStart (fc_cfg E) (cp_Epoch cp))) (\<lambda>epochStart.
            if n_slot (cnode s pn) > epochStart then Ok False
            else if n_slot (cnode s pn) = epochStart then Ok True
            else obind (allConsensusChildren s (p_node (pnode_at s pn))) (\<lambda>children.
              if children = [] then Ok True
              else obind (if IgnoreUnviableAttestations E then Ok False
                          else obind (epoch_of E (n_slot (cnode s pn))) (\<lambda>nodeEpoch. Ok (nodeEpoch + 1 = cp_Epoch cp)))
                (\<lambda>prev. if prev then Ok True
                        else Ok (\<exists>child \<in> set children. n_slot (node_at s child) > epochStart)))))"

section \<open>Votes and balances\<close>

text \<open>The growth of the vote list up to an index, and the update of one vote.\<close>

definition grow_votes :: "nat \<Rightarrow> vote list \<Rightarrow> vote list" where
  "grow_votes i vs = (if i \<ge> length vs then vs @ replicate (Suc i - length vs) zero_vote else vs)"

definition attest_one :: "fc_env \<Rightarrow> root \<Rightarrow> slot \<Rightarrow> bool \<Rightarrow> u64 \<Rightarrow> unit fc_op" where
  "attest_one E blockRoot sl payloadStatus index =
     bind (gets fc_votes) (\<lambda>vs.
     let i = unat index; newVote = (i \<ge> length vs) in
     seq (modify (\<lambda>f. f\<lparr>fc_votes := grow_votes i vs\<rparr>))
     (bind (lift (epoch_of E sl)) (\<lambda>targetEpoch.
      bind (lift (epoch_of E (nextSlot (grow_votes i vs ! i)))) (\<lambda>nextEpoch.
        if newVote \<or> targetEpoch > nextEpoch then
          modify (\<lambda>f. f\<lparr>fc_votes := (fc_votes f)[i := (fc_votes f ! i)
            \<lparr>nextSlot := sl, nextRoot := blockRoot, nextPayloadStatus := payloadStatus\<rparr>]\<rparr>)
        else ret ()))))"

definition ProcessAttestation :: "fc_env \<Rightarrow> u64 list \<Rightarrow> root \<Rightarrow> slot \<Rightarrow> bool \<Rightarrow> unit fc_op" where
  "ProcessAttestation E validatorIndices blockRoot sl payloadStatus =
     bind (if payloadStatus then
             bind (lift (epoch_of E sl)) (\<lambda>e.
               if e \<ge> GloasForkEpoch (fc_cfg E) then
                 gets (\<lambda>f. case emptyNodeByRoot (fc_store f) blockRoot of
                             None \<Rightarrow> False | Some en \<Rightarrow> n_slot (cnode (fc_store f) en) = sl)
               else ret False)
           else ret False) (\<lambda>skip.
       if skip then ret ()
       else for_each validatorIndices (attest_one E blockRoot sl payloadStatus))"

definition sub_clamped :: "u64 \<Rightarrow> u64 \<Rightarrow> u64" where
  "sub_clamped a b = (if a < b then 0 else a - b)"

text \<open>Crediting and debiting the node a vote resolves to.\<close>

definition credit :: "pref option \<times> bool \<Rightarrow> u64 \<Rightarrow> store \<Rightarrow> store" where
  "credit tgt amount s =
     (case fst tgt of
        None \<Rightarrow> s
      | Some pn \<Rightarrow>
          if snd tgt then upd_node (p_node (pnode_at s pn)) (\<lambda>n. n\<lparr>n_balance := n_balance n + amount\<rparr>) s
          else upd_pnode pn (\<lambda>x. x\<lparr>p_balance := p_balance x + amount\<rparr>) s)"

definition debit :: "pref option \<times> bool \<Rightarrow> u64 \<Rightarrow> store \<Rightarrow> store" where
  "debit tgt amount s =
     (case fst tgt of
        None \<Rightarrow> s
      | Some pn \<Rightarrow>
          if snd tgt then upd_node (p_node (pnode_at s pn)) (\<lambda>n. n\<lparr>n_balance := sub_clamped (n_balance n) amount\<rparr>) s
          else upd_pnode pn (\<lambda>x. x\<lparr>p_balance := sub_clamped (p_balance x) amount\<rparr>) s)"

definition balance_of :: "u64 list \<Rightarrow> nat \<Rightarrow> u64" where
  "balance_of bs i = (if i < length bs then bs ! i else 0)"

definition rotate_vote :: "vote \<Rightarrow> vote" where
  "rotate_vote v = v\<lparr>currentRoot := nextRoot v, currentSlot := nextSlot v,
                     currentPayloadStatus := nextPayloadStatus v\<rparr>"

text \<open>One iteration of the loop of \<open>updateBalances\<close>.\<close>

definition move_balance :: "vote \<Rightarrow> u64 \<Rightarrow> u64 \<Rightarrow> store \<Rightarrow> store" where
  "move_balance v oldBalance newBalance s =
     (if oldBalance \<noteq> newBalance \<or> currentSlot v \<noteq> nextSlot v then
        let s1 = (if nextRoot v \<noteq> ZeroHash
                  then credit (resolveVoteNode s (nextRoot v) (nextSlot v) (nextPayloadStatus v)) newBalance s
                  else s)
        in if currentRoot v \<noteq> ZeroHash
           then debit (resolveVoteNode s1 (currentRoot v) (currentSlot v) (currentPayloadStatus v)) oldBalance s1
           else s1
      else s)"

definition update_balance :: "nat \<Rightarrow> fork_choice \<Rightarrow> fork_choice" where
  "update_balance index f =
     (let v = fc_votes f ! index in
      if slashedIndices (fc_store f) (of_nat index) then f
      else if currentRoot v = ZeroHash \<and> nextRoot v = ZeroHash then f
      else f\<lparr>fc_store := move_balance v (balance_of (fc_balances f) index)
               (balance_of (fc_justifiedBalances f) index) (fc_store f),
             fc_votes := (fc_votes f)[index := rotate_vote v]\<rparr>)"

definition updateBalances :: "fork_choice \<Rightarrow> fork_choice" where
  "updateBalances f =
     (let f' = fold update_balance [0..<length (fc_votes f)] f
      in f'\<lparr>fc_balances := fc_justifiedBalances f'\<rparr>)"

definition InsertSlashedIndex :: "validator_index \<Rightarrow> fork_choice \<Rightarrow> fork_choice" where
  "InsertSlashedIndex index f =
     (if slashedIndices (fc_store f) index then f
      else
        let f1 = upd_store (\<lambda>s. s\<lparr>slashedIndices := (slashedIndices s)(index := True)\<rparr>) f;
            i = unat index
        in if i \<ge> length (fc_balances f) \<or> i \<ge> length (fc_votes f) then f1
           else let v = fc_votes f ! i
                in upd_store (\<lambda>s. debit (resolveVoteNode s (currentRoot v) (currentSlot v) (currentPayloadStatus v))
                                    (fc_balances f ! i) s) f1)"

definition updateJustifiedBalances :: "fc_env \<Rightarrow> root \<Rightarrow> unit fc_op" where
  "updateJustifiedBalances E r =
     bind (reads (\<lambda>f. fc_balancesByRoot f r)) (\<lambda>balances.
     seq (modify (\<lambda>f. upd_store (\<lambda>s. s\<lparr>committeeWeight :=
            fold (\<lambda>val w. if val > 0 then w + val else w) balances 0\<rparr>) (f\<lparr>fc_justifiedBalances := balances\<rparr>)))
     (bind (gets (\<lambda>f. committeeWeight (fc_store f))) (\<lambda>w.
      bind (slots_op (u64_div w (SlotsPerEpoch (fc_cfg E)))) (\<lambda>q.
      modify (upd_store (\<lambda>s. s\<lparr>committeeWeight := q\<rparr>))))))"

section \<open>Checkpoints\<close>

definition updateCheckpoints :: "fc_env \<Rightarrow> pb_checkpoint \<Rightarrow> pb_checkpoint \<Rightarrow> unit fc_op" where
  "updateCheckpoints E jc fc =
     bind (gets (\<lambda>f. justifiedCheckpoint (fc_store f))) (\<lambda>old.
     seq (if pb_Epoch jc > cp_Epoch old then
            seq (modify (upd_store (\<lambda>s. s\<lparr>prevJustifiedCheckpoint := old,
                                          justifiedCheckpoint := pb_to_checkpoint jc\<rparr>)))
              (updateJustifiedBalances E (cp_Root (pb_to_checkpoint jc)))
          else ret ())
     (bind (gets (\<lambda>f. cp_Epoch (finalizedCheckpoint (fc_store f)))) (\<lambda>fe.
       if pb_Epoch fc \<le> fe then ret ()
       else
         seq (modify (upd_store (\<lambda>s. s\<lparr>finalizedCheckpoint := pb_to_checkpoint fc\<rparr>)))
           (on_store (prune E)))))"

definition UpdateJustifiedCheckpoint :: "fc_env \<Rightarrow> checkpoint option \<Rightarrow> unit fc_op" where
  "UpdateJustifiedCheckpoint E jco =
     (case jco of
        None \<Rightarrow> fail ErrInvalidNilCheckpoint
      | Some jc \<Rightarrow>
          seq (modify (upd_store (\<lambda>s. s\<lparr>prevJustifiedCheckpoint := justifiedCheckpoint s,
                                        justifiedCheckpoint := jc\<rparr>)))
            (updateJustifiedBalances E (cp_Root jc)))"

definition UpdateFinalizedCheckpoint :: "fc_env \<Rightarrow> checkpoint option \<Rightarrow> unit fc_op" where
  "UpdateFinalizedCheckpoint E fco =
     (case fco of
        None \<Rightarrow> fail ErrInvalidNilCheckpoint
      | Some fc \<Rightarrow>
          seq (modify (upd_store (\<lambda>s. s\<lparr>finalizedCheckpoint := fc\<rparr>)))
          (bind (reads (\<lambda>f. checkpointPayloadHashForRoot E (fc_store f) (cp_Root fc))) (\<lambda>h.
           modify (upd_store (\<lambda>s. case EpochStart (fc_cfg E) (cp_Epoch fc) of
             Ok finalizedSlot \<Rightarrow>
               s\<lparr>finalizedPayloadBlockHash := h,
                 blockRootsBySlotProposer := (\<lambda>key. if fst key \<le> finalizedSlot then []
                                                    else blockRootsBySlotProposer s key)\<rparr>
           | _ \<Rightarrow> s\<lparr>finalizedPayloadBlockHash := h\<rparr>)))))"

definition RecordBlockForEquivocation :: "slot \<Rightarrow> validator_index \<Rightarrow> root \<Rightarrow> fork_choice \<Rightarrow> fork_choice" where
  "RecordBlockForEquivocation sl proposer r f =
     (let roots = blockRootsBySlotProposer (fc_store f) (sl, proposer) in
      if length roots \<ge> 2 \<or> r \<in> set roots then f
      else upd_store (\<lambda>s. s\<lparr>blockRootsBySlotProposer :=
             (blockRootsBySlotProposer s)((sl, proposer) := roots @ [r])\<rparr>) f)"

text \<open>\<open>updateUnrealizedCheckpoints\<close> ranges over the map of nodes, in the order given.\<close>

definition realize_node :: "fc_env \<Rightarrow> root \<Rightarrow> unit fc_op" where
  "realize_node E r =
     bind (gets (\<lambda>f. emptyNodeByRoot (fc_store f) r)) (\<lambda>eno.
       case eno of
         None \<Rightarrow> ret ()
       | Some en \<Rightarrow>
           bind (gets (\<lambda>f. p_node (pnode_at (fc_store f) en))) (\<lambda>n.
           seq (modify (upd_store (upd_node n (\<lambda>x. x\<lparr>n_justifiedEpoch := n_unrealizedJustifiedEpoch x,
                                                     n_finalizedEpoch := n_unrealizedFinalizedEpoch x\<rparr>))))
           (bind (gets (\<lambda>f. n_justifiedEpoch (node_at (fc_store f) n) > cp_Epoch (justifiedCheckpoint (fc_store f)))) (\<lambda>newJ.
            seq (if newJ then
                   seq (modify (upd_store (\<lambda>s. s\<lparr>prevJustifiedCheckpoint := justifiedCheckpoint s,
                                                 justifiedCheckpoint := unrealizedJustifiedCheckpoint s\<rparr>)))
                   (bind (gets (\<lambda>f. cp_Root (justifiedCheckpoint (fc_store f)))) (updateJustifiedBalances E))
                 else ret ())
            (modify (upd_store (\<lambda>s.
               if n_finalizedEpoch (node_at s n) > cp_Epoch (finalizedCheckpoint s)
               then s\<lparr>finalizedCheckpoint := unrealizedFinalizedCheckpoint s\<rparr> else s)))))))"

definition updateUnrealizedCheckpoints :: "fc_env \<Rightarrow> root list \<Rightarrow> unit fc_op" where
  "updateUnrealizedCheckpoints E order = for_each order (realize_node E)"

definition NewSlot :: "fc_env \<Rightarrow> root list \<Rightarrow> slot \<Rightarrow> unit fc_op" where
  "NewSlot E order sl =
     seq (modify (upd_store (\<lambda>s. s\<lparr>proposerBoostRoot := 0\<rparr>)))
     (bind (slots_op (IsEpochStart (fc_cfg E) sl)) (\<lambda>start.
       if \<not> start then ret ()
       else seq (updateUnrealizedCheckpoints E order) (on_store (prune E))))"

section \<open>Blocks and payloads\<close>

definition InsertNode :: "fc_env \<Rightarrow> beacon_state_view \<Rightarrow> ro_block \<Rightarrow> unit fc_op" where
  "InsertNode E st b =
     (case bs_CurrentJustifiedCheckpoint st of
        None \<Rightarrow> fail ErrInvalidNilCheckpoint
      | Some jc \<Rightarrow>
          (case bs_FinalizedCheckpoint st of
             None \<Rightarrow> fail ErrInvalidNilCheckpoint
           | Some fc \<Rightarrow>
               bind (on_store (store_insert E b (pb_Epoch jc) (pb_Epoch fc))) (\<lambda>pn.
               seq (modify (RecordBlockForEquivocation (rb_Slot b) (rb_ProposerIndex b) (rb_Root b)))
               (bind (gets (\<lambda>f. p_node (pnode_at (fc_store f) pn))) (\<lambda>n.
                bind (on_store (pullTips E st n jc fc)) (\<lambda>(jc', fc').
                catch (updateCheckpoints E jc' fc') (\<lambda>e.
                  seq (log_err (on_store (removeNode E (Some pn)))) (fail e))))))))"

definition mark_full :: "fc_env \<Rightarrow> root \<Rightarrow> pref \<Rightarrow> u64 \<Rightarrow> store \<Rightarrow> store" where
  "mark_full E r en gasLimit s =
     s\<lparr>pnodes := pnodes s @ [new_pnode (p_node (pnode_at s en)) True (fc_now E) True gasLimit],
       fullNodeByRoot := (fullNodeByRoot s)(r := Some (length (pnodes s)))\<rparr>"

definition MarkFullNode :: "fc_env \<Rightarrow> root \<Rightarrow> fork_choice \<Rightarrow> fork_choice" where
  "MarkFullNode E r f =
     (case emptyNodeByRoot (fc_store f) r of
        None \<Rightarrow> f
      | Some en \<Rightarrow>
          if fullNodeByRoot (fc_store f) r \<noteq> None then f
          else upd_store (mark_full E r en 0) f)"

definition InsertChain :: "fc_env \<Rightarrow> block_and_checkpoints list \<Rightarrow> unit fc_op" where
  "InsertChain E chain =
     for_each chain (\<lambda>bcp.
       bind (on_store (store_insert E (bc_Block bcp) (pb_Epoch (bc_JustifiedCheckpoint bcp))
               (pb_Epoch (bc_FinalizedCheckpoint bcp)))) (\<lambda>_.
       seq (if bc_HasPayload bcp then modify (MarkFullNode E (rb_Root (bc_Block bcp))) else ret ())
         (updateCheckpoints E (bc_JustifiedCheckpoint bcp) (bc_FinalizedCheckpoint bcp))))"

definition updateNewFullNodeWeight :: "pref \<Rightarrow> fork_choice \<Rightarrow> fork_choice" where
  "updateNewFullNodeWeight fn f =
     (let s = fc_store f;
          total = fold (\<lambda>index b.
            let v = fc_votes f ! index in
            if currentRoot v = n_root (cnode s fn) \<and> nextPayloadStatus v \<and> index < length (fc_balances f)
            then b + fc_balances f ! index else b) [0..<length (fc_votes f)] (p_balance (pnode_at s fn))
      in upd_store (upd_pnode fn (\<lambda>x. x\<lparr>p_balance := total, p_weight := total\<rparr>)) f)"

text \<open>A payload envelope, by the results of the accessors \<open>InsertPayload\<close> calls; \<open>None\<close> is a nil
  envelope.\<close>

definition InsertPayload ::
  "fc_env \<Rightarrow> (root \<times> (fc_error, u64) outcome) option \<Rightarrow> unit fc_op" where
  "InsertPayload E peo =
     (case peo of
        None \<Rightarrow> fail ErrNilPayload
      | Some (r, execGasLimit) \<Rightarrow>
          bind (gets (\<lambda>f. (emptyNodeByRoot (fc_store f) r, fullNodeByRoot (fc_store f) r))) (\<lambda>(eno, fno).
            case eno of
              None \<Rightarrow> fail ErrNilNode
            | Some en \<Rightarrow>
                if fno \<noteq> None then ret ()
                else
                  bind (lift execGasLimit) (\<lambda>gasLimit.
                  bind (gets (\<lambda>f. length (pnodes (fc_store f)))) (\<lambda>fn.
                  seq (modify (upd_store (mark_full E r en gasLimit)))
                    (modify (updateNewFullNodeWeight fn))))))"

definition SetPTCVote :: "fc_env \<Rightarrow> root \<Rightarrow> u64 \<Rightarrow> bool \<Rightarrow> bool \<Rightarrow> fork_choice \<Rightarrow> fork_choice" where
  "SetPTCVote E r ptcIdx payloadPresent blobDataAvailable f =
     (case emptyNodeByRoot (fc_store f) r of
        None \<Rightarrow> f
      | Some en \<Rightarrow>
          upd_store (upd_node (p_node (pnode_at (fc_store f) en)) (\<lambda>n.
            n\<lparr>n_payloadAttesters := SetBitAt E (n_payloadAttesters n) ptcIdx True,
              n_payloadAvailabilityVote := SetBitAt E (n_payloadAvailabilityVote n) ptcIdx payloadPresent,
              n_payloadDataAvailabilityVote :=
                SetBitAt E (n_payloadDataAvailabilityVote n) ptcIdx blobDataAvailable\<rparr>)) f)"

definition PTCVotes :: "fork_choice \<Rightarrow> root \<Rightarrow> (bitvector512 \<times> bitvector512 \<times> bitvector512) option" where
  "PTCVotes f r =
     (case emptyNodeByRoot (fc_store f) r of
        None \<Rightarrow> None
      | Some en \<Rightarrow>
          let n = cnode (fc_store f) en
          in Some (n_payloadAttesters n, n_payloadAvailabilityVote n, n_payloadDataAvailabilityVote n))"

definition SetOptimisticToValid :: "fc_env \<Rightarrow> root \<Rightarrow> unit fc_op" where
  "SetOptimisticToValid E r =
     bind (gets (\<lambda>f. case fullNodeByRoot (fc_store f) r of
                       Some fn \<Rightarrow> Some fn | None \<Rightarrow> emptyNodeByRoot (fc_store f) r)) (\<lambda>fno.
       case fno of
         None \<Rightarrow> fail ErrNilNode
       | Some fn \<Rightarrow>
           bind (gets (\<lambda>f. tree_fuel (fc_store f))) (\<lambda>fuel.
             on_store (setNodeAndParentValidated E fuel fn)))"

definition SetOptimisticToInvalid :: "fc_env \<Rightarrow> root \<Rightarrow> root \<Rightarrow> root \<Rightarrow> root \<Rightarrow> root list fc_op" where
  "SetOptimisticToInvalid E r parentRoot parentHash' payloadHash =
     on_store (setOptimisticToInvalid E r parentRoot parentHash' payloadHash)"

section \<open>Head\<close>

definition applyProposerBoostScore :: "fc_env \<Rightarrow> unit fc_op" where
  "applyProposerBoostScore E =
     seq (modify (upd_store removePreviousProposerBoost))
     (bind (reads (\<lambda>f. shouldApplyProposerBoost E (fc_store f))) (\<lambda>should.
      bind (if should then on_store (\<lambda>s. case applyNewProposerBoost E s of (score, s') \<Rightarrow> (Ok score, s'))
            else ret 0) (\<lambda>proposerScore.
      modify (upd_store (\<lambda>s. s\<lparr>previousProposerBoostRoot := proposerBoostRoot s,
                               previousProposerBoostScore := proposerScore\<rparr>)))))"

definition Head :: "fc_env \<Rightarrow> root fc_op" where
  "Head E =
     seq (modify updateBalances)
     (seq (applyProposerBoostScore E)
     (bind (gets (\<lambda>f. (treeRootNode (fc_store f), tree_fuel (fc_store f)))) (\<lambda>(tree, fuel).
      bind (deref tree) (\<lambda>t.
      seq (on_store (applyWeightChangesConsensusNode E fuel t))
      (seq (on_store (removeProposerBoostFromParent E))
      (bind (gets (\<lambda>f. (cp_Epoch (JustifiedCheckpoint f), genesisTime (fc_store f)))) (\<lambda>(jEpoch, genesis).
       bind (slots_op (EpochsSinceGenesis (fc_cfg E) (fc_now E) genesis)) (\<lambda>currentEpoch.
       seq (on_store (updateBestDescendantConsensusNode E jEpoch currentEpoch fuel t))
       (on_store (store_head E))))))))))"

definition FullHead :: "fc_env \<Rightarrow> (root \<times> root \<times> bool) fc_op" where
  "FullHead E =
     bind (Head E) (\<lambda>hr.
     bind (gets fc_store) (\<lambda>s.
       case headNode s of
         None \<Rightarrow> ret (hr, 0, False)
       | Some n \<Rightarrow>
           bind (lift (epoch_of E (n_slot (node_at s n)))) (\<lambda>e.
             if e < GloasForkEpoch (fc_cfg E) then ret (hr, n_blockHash (node_at s n), True)
             else
               bind (lift (choosePayloadContent E s n)) (\<lambda>pno.
                 case pno of
                   None \<Rightarrow> ret (hr, 0, False)
                 | Some pn \<Rightarrow>
                     if p_full (pnode_at s pn) then ret (hr, n_blockHash (cnode s pn), True)
                     else
                       bind (lift (fullParent s pn)) (\<lambda>fao.
                         case fao of
                           None \<Rightarrow> ret (hr, 0, False)
                         | Some fa \<Rightarrow> ret (hr, n_blockHash (cnode s fa), False))))))"

section \<open>Late block reorgs (\<open>reorg_late_blocks.go\<close>)\<close>

definition orphanLateBlockProposingEarly :: int where
  "orphanLateBlockProposingEarly = 2"

text \<open>An error of \<open>arrivedEarly\<close> or \<open>SinceSlotStart\<close> is logged and turned into the value \<open>dflt\<close>.\<close>

definition on_error :: "('e, 'a) outcome \<Rightarrow> 'b \<Rightarrow> ('a \<Rightarrow> ('e, 'b) outcome) \<Rightarrow> ('e, 'b) outcome" where
  "on_error r dflt k = (case r of Ok a \<Rightarrow> k a | Fail _ \<Rightarrow> Ok dflt | Panic \<Rightarrow> Panic)"

definition ShouldOverrideFCU :: "fc_env \<Rightarrow> fork_choice \<Rightarrow> (fc_error, bool) outcome" where
  "ShouldOverrideFCU E f =
     (let s = fc_store f; cfg = fc_cfg E in
      case headNode s of
        None \<Rightarrow> Ok False
      | Some h \<Rightarrow>
          (let hd = node_at s h in
           obind (store_currentSlot E s) (\<lambda>cur.
           if n_slot hd \<noteq> cur then Ok False
           else obind (owrap ErrSlots (IsEpochEnd cfg (n_slot hd))) (\<lambda>boundary.
           if boundary then Ok False
           else obind (choosePayloadContent E s h) (\<lambda>hpo.
           case hpo of None \<Rightarrow> Panic | Some hp \<Rightarrow>
           on_error (arrivedEarly E s hp (genesisTime s)) False (\<lambda>early.
           if early then Ok False
           else obind (epoch_of E (n_slot hd + 1)) (\<lambda>e.
           if e > cp_Epoch (finalizedCheckpoint s) + ReorgMaxEpochsSinceFinalization cfg then Ok False
           else case n_parent hd of None \<Rightarrow> Ok False | Some parent \<Rightarrow>
           if n_slot hd > n_slot (cnode s parent) + 1 then Ok False
           else if n_weight hd * 100 > committeeWeight s * ReorgHeadWeightThreshold cfg then Ok False
           else on_error (owrap ErrSlots (SinceSlotStart cfg (n_slot hd) (genesisTime s) (fc_now E))) True (\<lambda>sss.
           if sss < ProcessAttestationsThreshold then Ok True
           else if n_weight (cnode s parent) * 100 < committeeWeight s * ReorgParentWeightThreshold cfg
           then Ok False
           else Ok True))))))))"

definition GetProposerHead :: "fc_env \<Rightarrow> fork_choice \<Rightarrow> (fc_error, root) outcome" where
  "GetProposerHead E f =
     (let s = fc_store f; cfg = fc_cfg E in
      case headNode s of
        None \<Rightarrow> Ok 0
      | Some h \<Rightarrow>
          (let hd = node_at s h in
           obind (store_currentSlot E s) (\<lambda>cur.
           if n_slot hd + 1 \<noteq> cur then Ok (n_root hd)
           else obind (owrap ErrSlots (IsEpochEnd cfg (n_slot hd))) (\<lambda>boundary.
           if boundary then Ok (n_root hd)
           else obind (choosePayloadContent E s h) (\<lambda>chosen.
           obind (epoch_of E (n_slot hd)) (\<lambda>he.
           case (if he \<ge> GloasForkEpoch cfg then emptyNode s h else chosen) of
             None \<Rightarrow> Ok (n_root hd)
           | Some hp \<Rightarrow>
           on_error (arrivedEarly E s hp (genesisTime s)) (n_root hd) (\<lambda>early.
           if early then Ok (n_root hd)
           else obind (epoch_of E (n_slot hd + 1)) (\<lambda>e.
           if e > cp_Epoch (finalizedCheckpoint s) + ReorgMaxEpochsSinceFinalization cfg then Ok (n_root hd)
           else case n_parent hd of None \<Rightarrow> Ok (n_root hd) | Some parent \<Rightarrow>
           if n_slot hd > n_slot (cnode s parent) + 1 then Ok (n_root hd)
           else if n_weight hd * 100 > committeeWeight s * ReorgHeadWeightThreshold cfg then Ok (n_root hd)
           else if n_weight (cnode s parent) * 100 < committeeWeight s * ReorgParentWeightThreshold cfg
           then Ok (n_root hd)
           else on_error (owrap ErrSlots (SinceSlotStart cfg cur (genesisTime s) (fc_now E))) (n_root hd) (\<lambda>sss.
           if sss \<ge> orphanLateBlockProposingEarly * Second then Ok (n_root hd)
           else Ok (n_root (cnode s parent)))))))))))"

section \<open>Dump (\<open>gloas.go\<close>, \<open>forkchoice.go\<close>)\<close>

datatype validity = Valid | Invalid | Optimistic

record dump_node =
  d_Slot :: slot
  d_BlockRoot :: root
  d_ParentRoot :: root
  d_JustifiedEpoch :: epoch
  d_FinalizedEpoch :: epoch
  d_UnrealizedJustifiedEpoch :: epoch
  d_UnrealizedFinalizedEpoch :: epoch
  d_Balance :: u64
  d_Weight :: u64
  d_ExecutionOptimistic :: bool
  d_ExecutionBlockHash :: root
  d_Timestamp :: time
  d_Target :: root
  d_Validity :: validity

definition dump_of :: "store \<Rightarrow> nref \<Rightarrow> pref \<Rightarrow> dump_node" where
  "dump_of s n en =
     (let x = node_at s n;
          parentRoot = (case n_parent x of None \<Rightarrow> 0 | Some q \<Rightarrow> n_root (cnode s q));
          target = (case n_target x of None \<Rightarrow> 0 | Some t \<Rightarrow> n_root (node_at s t));
          optimistic = (case fullNode s n of
                          Some fn \<Rightarrow> p_optimistic (pnode_at s fn)
                        | None \<Rightarrow> (case n_parent x of None \<Rightarrow> False | Some q \<Rightarrow> p_optimistic (pnode_at s q)));
          timestamp = (case fullNode s n of
                         Some fn \<Rightarrow> p_timestamp (pnode_at s fn) | None \<Rightarrow> p_timestamp (pnode_at s en))
      in \<lparr>d_Slot = n_slot x, d_BlockRoot = n_root x, d_ParentRoot = parentRoot,
          d_JustifiedEpoch = n_justifiedEpoch x, d_FinalizedEpoch = n_finalizedEpoch x,
          d_UnrealizedJustifiedEpoch = n_unrealizedJustifiedEpoch x,
          d_UnrealizedFinalizedEpoch = n_unrealizedFinalizedEpoch x,
          d_Balance = n_balance x, d_Weight = n_weight x, d_ExecutionOptimistic = optimistic,
          d_ExecutionBlockHash = n_blockHash x, d_Timestamp = timestamp, d_Target = target,
          d_Validity = (if optimistic then Optimistic else Valid)\<rparr>)"

primrec nodeTreeDump ::
  "fc_env \<Rightarrow> store \<Rightarrow> nat \<Rightarrow> nref \<Rightarrow> dump_node list \<Rightarrow> (fc_error, dump_node list) outcome" where
  "nodeTreeDump E s 0 = (\<lambda>n ns. Panic)"
| "nodeTreeDump E s (Suc fuel) = (\<lambda>n ns.
     if fc_ctxErr E then Fail ErrContext
     else case emptyNode s n of
       None \<Rightarrow> Panic
     | Some en \<Rightarrow>
         obind (allConsensusChildren s n) (\<lambda>children.
           ofold (nodeTreeDump E s fuel) children (ns @ [dump_of s n en])))"

record dump =
  dp_JustifiedCheckpoint :: checkpoint
  dp_UnrealizedJustifiedCheckpoint :: checkpoint
  dp_FinalizedCheckpoint :: checkpoint
  dp_UnrealizedFinalizedCheckpoint :: checkpoint
  dp_ProposerBoostRoot :: root
  dp_PreviousProposerBoostRoot :: root
  dp_HeadRoot :: root
  dp_ForkChoiceNodes :: "dump_node list"

definition ForkChoiceDump :: "fc_env \<Rightarrow> fork_choice \<Rightarrow> (fc_error, dump) outcome" where
  "ForkChoiceDump E f =
     (let s = fc_store f in
      obind (case treeRootNode s of None \<Rightarrow> Ok [] | Some t \<Rightarrow> nodeTreeDump E s (tree_fuel s) t []) (\<lambda>ns.
        Ok \<lparr>dp_JustifiedCheckpoint = justifiedCheckpoint s,
            dp_UnrealizedJustifiedCheckpoint = unrealizedJustifiedCheckpoint s,
            dp_FinalizedCheckpoint = finalizedCheckpoint s,
            dp_UnrealizedFinalizedCheckpoint = unrealizedFinalizedCheckpoint s,
            dp_ProposerBoostRoot = proposerBoostRoot s,
            dp_PreviousProposerBoostRoot = previousProposerBoostRoot s,
            dp_HeadRoot = (case headNode s of None \<Rightarrow> 0 | Some h \<Rightarrow> n_root (node_at s h)),
            dp_ForkChoiceNodes = ns\<rparr>))"

end
