(* ===== verification/Forkchoice_Tree.thy ===== *)
theory Forkchoice_Tree
  imports Forkchoice
begin

text \<open>
  The shape of the fork choice tree. \<open>tree_ok\<close> is the invariant of the store: the two maps index the
  payload nodes by the root of their consensus node, every full node has an empty sibling, and the
  child lists and parent pointers describe one tree whose root is \<open>treeRootNode\<close>. A child is always
  allocated after its parent, so that every recursion down the tree and every walk up the parents
  ends within \<open>tree_fuel\<close> steps.
\<close>

definition live :: "store \<Rightarrow> pref \<Rightarrow> bool" where
  "live s p \<longleftrightarrow> (\<exists>r. emptyNodeByRoot s r = Some p \<or> fullNodeByRoot s r = Some p)"

text \<open>A consensus node of the tree: the empty node of its root points back to it.\<close>

definition in_tree :: "store \<Rightarrow> nref \<Rightarrow> bool" where
  "in_tree s n \<longleftrightarrow> n < length (nodes s) \<and> (\<exists>e. emptyNode s n = Some e \<and> p_node (pnode_at s e) = n)"

definition maps_ok :: "store \<Rightarrow> bool" where
  "maps_ok s \<longleftrightarrow>
     (\<forall>r p. emptyNodeByRoot s r = Some p \<longrightarrow>
        p < length (pnodes s) \<and> \<not> p_full (pnode_at s p) \<and>
        p_node (pnode_at s p) < length (nodes s) \<and> n_root (cnode s p) = r) \<and>
     (\<forall>r p. fullNodeByRoot s r = Some p \<longrightarrow>
        p < length (pnodes s) \<and> p_full (pnode_at s p) \<and>
        (\<exists>e. emptyNodeByRoot s r = Some e \<and> p_node (pnode_at s e) = p_node (pnode_at s p)))"

definition children_ok :: "store \<Rightarrow> bool" where
  "children_ok s \<longleftrightarrow>
     (\<forall>p. live s p \<longrightarrow> distinct (p_children (pnode_at s p)) \<and>
        (\<forall>c \<in> set (p_children (pnode_at s p)).
           p_node (pnode_at s p) < c \<and> in_tree s c \<and> n_parent (node_at s c) = Some p))"

definition parents_ok :: "store \<Rightarrow> bool" where
  "parents_ok s \<longleftrightarrow>
     (\<forall>n. in_tree s n \<longrightarrow>
        (case n_parent (node_at s n) of
           Some q \<Rightarrow> live s q \<and> n \<in> set (p_children (pnode_at s q))
         | None \<Rightarrow> treeRootNode s = Some n))"

definition root_ok :: "store \<Rightarrow> bool" where
  "root_ok s \<longleftrightarrow>
     (\<forall>t. treeRootNode s = Some t \<longrightarrow> in_tree s t \<and> n_parent (node_at s t) = None)"

definition tree_ok :: "store \<Rightarrow> bool" where
  "tree_ok s \<longleftrightarrow> maps_ok s \<and> children_ok s \<and> parents_ok s \<and> root_ok s"

definition child_nodes :: "store \<Rightarrow> nref \<Rightarrow> nref list" where
  "child_nodes s n =
     (case emptyNode s n of None \<Rightarrow> [] | Some e \<Rightarrow> p_children (pnode_at s e)) @
     (case fullNode s n of None \<Rightarrow> [] | Some e \<Rightarrow> p_children (pnode_at s e))"

text \<open>The nodes of the subtree of a node.\<close>

inductive desc :: "store \<Rightarrow> nref \<Rightarrow> nref \<Rightarrow> bool" for s where
  desc_refl: "desc s n n"
| desc_child: "c \<in> set (child_nodes s n) \<Longrightarrow> desc s c m \<Longrightarrow> desc s n m"

section \<open>Consequences\<close>

lemma maps_okD:
  assumes "maps_ok s" and "emptyNodeByRoot s r = Some p"
  shows "p < length (pnodes s)" and "\<not> p_full (pnode_at s p)"
    and "p_node (pnode_at s p) < length (nodes s)" and "n_root (cnode s p) = r"
  using assms by (auto simp: maps_ok_def)

lemma maps_ok_fullD:
  assumes "maps_ok s" and "fullNodeByRoot s r = Some p"
  shows "p < length (pnodes s)" and "p_full (pnode_at s p)"
    and "\<exists>e. emptyNodeByRoot s r = Some e \<and> p_node (pnode_at s e) = p_node (pnode_at s p)"
  using assms by (auto simp: maps_ok_def)

lemma live_range:
  assumes "maps_ok s" and "live s p"
  shows "p < length (pnodes s)" and "p_node (pnode_at s p) < length (nodes s)"
    and "in_tree s (p_node (pnode_at s p))"
  using assms by (auto simp: live_def maps_ok_def in_tree_def emptyNode_def) (metis)+

lemma empty_live: "emptyNode s n = Some p \<Longrightarrow> live s p"
  and full_live: "fullNode s n = Some p \<Longrightarrow> live s p"
  by (auto simp: live_def emptyNode_def fullNode_def)

text \<open>In a well-formed store the payload nodes of a consensus node of the tree point back to it.\<close>

lemma in_tree_payload:
  assumes "maps_ok s" and "in_tree s n" and "emptyNode s n = Some p \<or> fullNode s n = Some p"
  shows "p_node (pnode_at s p) = n"
  using assms by (auto simp: in_tree_def emptyNode_def fullNode_def dest!: maps_ok_fullD(3))

lemma child_nodesD:
  assumes "maps_ok s" and "children_ok s" and "in_tree s n" and "c \<in> set (child_nodes s n)"
  shows "n < c" and "in_tree s c" and "\<exists>p. live s p \<and> p_node (pnode_at s p) = n \<and> n_parent (node_at s c) = Some p"
proof -
  from assms(4) obtain p where p: "emptyNode s n = Some p \<or> fullNode s n = Some p"
    and c: "c \<in> set (p_children (pnode_at s p))"
    by (cases "emptyNode s n"; cases "fullNode s n") (auto simp: child_nodes_def)
  have lp: "live s p" using p empty_live full_live by blast
  have "p_node (pnode_at s p) = n" using in_tree_payload[OF assms(1,3) p] .
  then show "n < c" "in_tree s c" "\<exists>p. live s p \<and> p_node (pnode_at s p) = n \<and> n_parent (node_at s c) = Some p"
    using assms(2) lp c by (auto simp: children_ok_def)
qed

lemma desc_in_tree:
  assumes "desc s n m" and "maps_ok s" and "children_ok s" and "in_tree s n"
  shows "in_tree s m \<and> n \<le> m"
  using assms by (induction) (auto dest: child_nodesD(1,2)[rotated 3] intro: less_imp_le order_trans)

lemma desc_trans: "desc s a b \<Longrightarrow> desc s b c \<Longrightarrow> desc s a c"
  by (induction rule: desc.induct) (auto intro: desc_child)

lemma live_cases:
  assumes "maps_ok s" and "live s p"
  shows "emptyNode s (p_node (pnode_at s p)) = Some p \<or> fullNode s (p_node (pnode_at s p)) = Some p"
proof -
  obtain r where r: "emptyNodeByRoot s r = Some p \<or> fullNodeByRoot s r = Some p"
    using assms(2) by (auto simp: live_def)
  then have "n_root (cnode s p) = r"
    using maps_okD(4)[OF assms(1)] maps_ok_fullD(3)[OF assms(1)] by metis
  then show ?thesis using r by (auto simp: emptyNode_def fullNode_def)
qed

lemma live_child_nodes:
  assumes "maps_ok s" and "live s p"
  shows "set (p_children (pnode_at s p)) \<subseteq> set (child_nodes s (p_node (pnode_at s p)))"
  using live_cases[OF assms] by (auto simp: child_nodes_def split: option.splits)

text \<open>The parent of a node of the tree is an older node of the tree.\<close>

lemma parent_in_tree:
  assumes "tree_ok s" "in_tree s n" "n_parent (node_at s n) = Some q"
  shows "live s q" "in_tree s (p_node (pnode_at s q))" "p_node (pnode_at s q) < n"
    "n \<in> set (child_nodes s (p_node (pnode_at s q)))"
proof -
  have ok: "maps_ok s" "children_ok s" "parents_ok s" using assms(1) by (simp_all add: tree_ok_def)
  have q: "live s q \<and> n \<in> set (p_children (pnode_at s q))"
    using ok(3) assms(2,3) by (auto simp: parents_ok_def)
  then show "live s q" "n \<in> set (child_nodes s (p_node (pnode_at s q)))"
    using live_child_nodes[OF ok(1)] by blast+
  show "in_tree s (p_node (pnode_at s q))" using live_range(3)[OF ok(1)] q by blast
  show "p_node (pnode_at s q) < n" using ok(2) q by (auto simp: children_ok_def)
qed

text \<open>Every node of the tree descends from the tree root.\<close>

lemma in_tree_desc_root:
  assumes "tree_ok s" "treeRootNode s = Some t" "in_tree s n"
  shows "desc s t n"
  using assms(3)
proof (induction n rule: less_induct)
  case (less n)
  show ?case
  proof (cases "n_parent (node_at s n)")
    case None
    then have "treeRootNode s = Some n" using assms(1) less.prems by (auto simp: tree_ok_def parents_ok_def)
    then show ?thesis using assms(2) by (simp add: desc_refl)
  next
    case (Some q)
    note par = parent_in_tree[OF assms(1) less.prems Some]
    from less.IH[OF par(3,2)] show ?thesis
      using desc_trans desc_child[OF par(4) desc_refl] by blast
  qed
qed

section \<open>What the invariant depends on\<close>

definition skeleton :: "store \<Rightarrow>
  (root \<times> pref option) list \<times> (bool \<times> nref \<times> nref list) list \<times>
  (root \<Rightarrow> pref option) \<times> (root \<Rightarrow> pref option) \<times> nref option" where
  "skeleton s = (map (\<lambda>n. (n_root n, n_parent n)) (nodes s),
     map (\<lambda>p. (p_full p, p_node p, p_children p)) (pnodes s),
     emptyNodeByRoot s, fullNodeByRoot s, treeRootNode s)"

lemma skeletonD:
  assumes "skeleton s = skeleton t"
  shows "length (nodes s) = length (nodes t)" "length (pnodes s) = length (pnodes t)"
    "emptyNodeByRoot s = emptyNodeByRoot t" "fullNodeByRoot s = fullNodeByRoot t"
    "treeRootNode s = treeRootNode t"
    "n < length (nodes t) \<Longrightarrow> n_root (node_at s n) = n_root (node_at t n) \<and> n_parent (node_at s n) = n_parent (node_at t n)"
    "p < length (pnodes t) \<Longrightarrow> p_full (pnode_at s p) = p_full (pnode_at t p) \<and>
       p_node (pnode_at s p) = p_node (pnode_at t p) \<and> p_children (pnode_at s p) = p_children (pnode_at t p)"
proof -
  note eqs = assms[unfolded skeleton_def prod.inject]
  show len: "length (nodes s) = length (nodes t)" "length (pnodes s) = length (pnodes t)"
    using eqs map_eq_imp_length_eq by blast+
  show "emptyNodeByRoot s = emptyNodeByRoot t" "fullNodeByRoot s = fullNodeByRoot t"
    "treeRootNode s = treeRootNode t" using eqs by blast+
  have nth: "map (\<lambda>n. (n_root n, n_parent n)) (nodes s) ! n = map (\<lambda>n. (n_root n, n_parent n)) (nodes t) ! n"
    "map (\<lambda>p. (p_full p, p_node p, p_children p)) (pnodes s) ! p =
     map (\<lambda>p. (p_full p, p_node p, p_children p)) (pnodes t) ! p"
    using eqs by simp_all
  then show "n < length (nodes t) \<Longrightarrow> n_root (node_at s n) = n_root (node_at t n) \<and> n_parent (node_at s n) = n_parent (node_at t n)"
    "p < length (pnodes t) \<Longrightarrow> p_full (pnode_at s p) = p_full (pnode_at t p) \<and>
       p_node (pnode_at s p) = p_node (pnode_at t p) \<and> p_children (pnode_at s p) = p_children (pnode_at t p)"
    using len by (simp_all add: node_at_def pnode_at_def)
qed

lemma skeleton_maps_ok:
  assumes "skeleton s = skeleton t" "maps_ok t"
  shows "maps_ok s"
proof -
  note sk = skeletonD[OF assms(1)]
  note e = maps_okD[OF assms(2)] and f = maps_ok_fullD[OF assms(2)]
  have "p < length (pnodes s) \<and> \<not> p_full (pnode_at s p) \<and>
      p_node (pnode_at s p) < length (nodes s) \<and> n_root (cnode s p) = r"
    if "emptyNodeByRoot s r = Some p" for r p
    using e[of r p] that sk(1,2,3) sk(6)[of "p_node (pnode_at t p)"] sk(7)[of p] by simp
  moreover have "p < length (pnodes s) \<and> p_full (pnode_at s p) \<and>
      (\<exists>e. emptyNodeByRoot s r = Some e \<and> p_node (pnode_at s e) = p_node (pnode_at s p))"
    if p: "fullNodeByRoot s r = Some p" for r p
  proof -
    have p': "fullNodeByRoot t r = Some p" using p sk(4) by simp
    obtain q where "emptyNodeByRoot t r = Some q" "p_node (pnode_at t q) = p_node (pnode_at t p)"
      using f(3)[OF p'] by blast
    then show ?thesis using f(1,2)[OF p'] e(1)[of r q] sk(2,3) sk(7)[of p] sk(7)[of q] by simp
  qed
  ultimately show ?thesis by (simp add: maps_ok_def)
qed

lemma skeleton_in_tree:
  assumes "skeleton s = skeleton t" "maps_ok t"
  shows "in_tree s n = in_tree t n" and "live s p = live t p"
    and "n < length (nodes t) \<Longrightarrow> emptyNode s n = emptyNode t n"
    and "n < length (nodes t) \<Longrightarrow> fullNode s n = fullNode t n"
proof -
  note sk = skeletonD[OF assms(1)]
  show "n < length (nodes t) \<Longrightarrow> emptyNode s n = emptyNode t n"
    "n < length (nodes t) \<Longrightarrow> fullNode s n = fullNode t n"
    using sk(3,4) sk(6)[of n] by (simp_all add: emptyNode_def fullNode_def)
  moreover have "p_node (pnode_at s e) = p_node (pnode_at t e)" if "emptyNode t n = Some e" for e
    using sk(7)[of e] maps_okD(1)[OF assms(2)] that by (simp add: emptyNode_def)
  ultimately show "in_tree s n = in_tree t n"
    using sk(1) by (cases "n < length (nodes t)") (auto simp: in_tree_def)
  show "live s p = live t p" using sk(3,4) by (simp add: live_def)
qed

lemma skeleton_tree_ok:
  assumes "skeleton s = skeleton t" "tree_ok t"
  shows "tree_ok s"
proof -
  note sk = skeletonD[OF assms(1)]
  have ok: "maps_ok t" "children_ok t" "parents_ok t" "root_ok t" using assms(2) by (simp_all add: tree_ok_def)
  note same = skeleton_in_tree(1,2)[OF assms(1) ok(1)]
  have par: "n_parent (node_at s n) = n_parent (node_at t n)" if "in_tree t n" for n
    using sk(6)[of n] that by (simp add: in_tree_def)
  have pay: "p_node (pnode_at s p) = p_node (pnode_at t p)" "p_children (pnode_at s p) = p_children (pnode_at t p)"
    if "live t p" for p using sk(7)[of p] live_range(1)[OF ok(1) that] by simp_all
  have "children_ok s" using ok(2) par pay by (auto simp: children_ok_def same)
  moreover have "parents_ok s" using ok(3) par pay sk(5)
    by (fastforce simp: parents_ok_def same split: option.splits)
  moreover have "root_ok s" using ok(4) par sk(5) by (simp add: root_ok_def same)
  ultimately show ?thesis using skeleton_maps_ok[OF assms(1) ok(1)] by (simp add: tree_ok_def)
qed

lemma parents_ok_transfer:
  assumes "parents_ok s" "\<And>m. in_tree t m \<Longrightarrow> in_tree s m \<and> n_parent (node_at t m) = n_parent (node_at s m)"
    and "\<And>q. live s q \<Longrightarrow> live t q \<and> p_children (pnode_at t q) = p_children (pnode_at s q)"
    and "treeRootNode t = treeRootNode s"
  shows "parents_ok t"
  unfolding parents_ok_def
proof (intro allI impI)
  fix m assume m: "in_tree t m"
  then have "case n_parent (node_at s m) of Some q \<Rightarrow> live s q \<and> m \<in> set (p_children (pnode_at s q))
      | None \<Rightarrow> treeRootNode s = Some m" using assms(1,2) unfolding parents_ok_def by blast
  then show "case n_parent (node_at t m) of Some q \<Rightarrow> live t q \<and> m \<in> set (p_children (pnode_at t q))
      | None \<Rightarrow> treeRootNode t = Some m"
    using assms(2)[OF m] assms(3,4) by (cases "n_parent (node_at s m)") auto
qed

end
