(* ===== verification/Forkchoice_Pass.thy ===== *)
theory Forkchoice_Pass
  imports Forkchoice_Tree
begin

text \<open>
  Both recursions of \<open>Head\<close> (\<open>applyWeightChangesConsensusNode\<close> and \<open>updateBestDescendantConsensusNode\<close>)
  walk down the tree and write one field of each consensus node and of each payload node. The
  locale \<open>tree_pass\<close> is their common contract: a writer of the field for either kind of node that
  leaves the rest of the store (what \<open>erase\<close> keeps) alone. If every write stores the specified
  value, then a field that has its value keeps it, whatever the pass does later; so the pass is
  correct for a whole subtree as soon as it is correct for one node given its children. \<open>visits\<close> tells
  at which consensus nodes the pass goes through the payload nodes.
\<close>

locale tree_pass =
  fixes erase :: "store \<Rightarrow> store"
    and nget :: "store \<Rightarrow> nref \<Rightarrow> 'v" and pget :: "store \<Rightarrow> pref \<Rightarrow> 'v"
    and nput :: "nref \<Rightarrow> 'v \<Rightarrow> store \<Rightarrow> store" and pput :: "pref \<Rightarrow> 'v \<Rightarrow> store \<Rightarrow> store"
    and nval :: "store \<Rightarrow> nref \<Rightarrow> 'v" and pval :: "store \<Rightarrow> pref \<Rightarrow> 'v"
    and visits :: "store \<Rightarrow> nref \<Rightarrow> bool"
  assumes erase_lengths: "erase s = erase t \<Longrightarrow>
      length (nodes s) = length (nodes t) \<and> length (pnodes s) = length (pnodes t)"
    and nput_law: "erase (nput n v s) = erase s" "pget (nput n v s) = pget s"
      "n < length (nodes s) \<Longrightarrow> nget (nput n v s) m = (if m = n then v else nget s m)"
    and pput_law: "erase (pput p v s) = erase s" "nget (pput p v s) = nget s"
      "p < length (pnodes s) \<Longrightarrow> pget (pput p v s) q = (if q = p then v else pget s q)"
begin

text \<open>\<open>step s0 s t\<close>: between \<open>s\<close> and \<open>t\<close>, both with the shape of \<open>s0\<close>, fields were only written with the
  values specified for \<open>s0\<close>.\<close>

definition step :: "store \<Rightarrow> store \<Rightarrow> store \<Rightarrow> bool" where
  "step s0 s t \<longleftrightarrow> erase s = erase s0 \<and> erase t = erase s0 \<and>
     (\<forall>m < length (nodes s0). nget t m \<in> {nget s m, nval s0 m}) \<and>
     (\<forall>p < length (pnodes s0). pget t p \<in> {pget s p, pval s0 p})"

definition finished :: "store \<Rightarrow> store \<Rightarrow> nref \<Rightarrow> bool" where
  "finished s0 s n \<longleftrightarrow> nget s n = nval s0 n \<and>
     (\<forall>p. visits s0 n \<and> (emptyNode s0 n = Some p \<or> fullNode s0 n = Some p) \<longrightarrow> pget s p = pval s0 p)"

definition below :: "store \<Rightarrow> store \<Rightarrow> nref \<Rightarrow> bool" where
  "below s0 s n \<longleftrightarrow> (\<forall>m. desc s0 n m \<longrightarrow> finished s0 s m)"

definition does :: "store \<Rightarrow> (nref \<Rightarrow> unit store_op) \<Rightarrow> nref \<Rightarrow> bool" where
  "does s0 rec c \<longleftrightarrow>
     (\<forall>s. erase s = erase s0 \<longrightarrow> (\<exists>t. rec c s = (Ok (), t) \<and> step s0 s t \<and> below s0 t c))"

lemma step_erase: "step s0 s t \<Longrightarrow> erase t = erase s0"
  by (simp add: step_def)

lemma step_refl: "erase s = erase s0 \<Longrightarrow> step s0 s s"
  by (simp add: step_def)

lemma step_trans: "step s0 s t \<Longrightarrow> step s0 t u \<Longrightarrow> step s0 s u"
  unfolding step_def by (metis insert_iff)

lemma nput_step:
  assumes "erase s = erase s0" "n < length (nodes s0)"
  shows "step s0 s (nput n (nval s0 n) s)"
  using assms erase_lengths[OF assms(1)] by (simp add: step_def nput_law)

lemma pput_step:
  assumes "erase s = erase s0" "p < length (pnodes s0)"
  shows "step s0 s (pput p (pval s0 p) s)"
  using assms erase_lengths[OF assms(1)] by (simp add: step_def pput_law)

lemma pget_step:
  "step s0 s t \<Longrightarrow> p < length (pnodes s0) \<Longrightarrow> pget s p = pval s0 p \<Longrightarrow> pget t p = pval s0 p"
  by (auto simp: step_def)

lemma finished_step:
  assumes "step s0 s t" "finished s0 s n" "maps_ok s0" "in_tree s0 n"
  shows "finished s0 t n"
proof -
  have "n < length (nodes s0)" using assms(4) by (simp add: in_tree_def)
  then have "nget t n = nval s0 n" using assms(1,2) by (auto simp: step_def finished_def)
  moreover have "pget t p = pval s0 p"
    if p: "visits s0 n \<and> (emptyNode s0 n = Some p \<or> fullNode s0 n = Some p)" for p
  proof (rule pget_step[OF assms(1)])
    show "p < length (pnodes s0)" using p empty_live full_live live_range(1)[OF assms(3)] by blast
    show "pget s p = pval s0 p" using p assms(2) by (auto simp: finished_def)
  qed
  ultimately show ?thesis by (simp add: finished_def)
qed

lemma below_step:
  assumes "step s0 s t" "below s0 s n" "maps_ok s0" "children_ok s0" "in_tree s0 n"
  shows "below s0 t n"
  using assms finished_step desc_in_tree unfolding below_def by blast

lemma belowI:
  assumes "finished s0 s n" "\<And>c. c \<in> set (child_nodes s0 n) \<Longrightarrow> below s0 s c"
  shows "below s0 s n"
  unfolding below_def
proof (intro allI impI)
  fix m assume "desc s0 n m"
  then show "finished s0 s m" using assms by cases (auto simp: below_def)
qed

lemma below_finished: "below s0 s n \<Longrightarrow> finished s0 s n"
  by (simp add: below_def desc_refl)

text \<open>The loop over a list of children. The accumulator, which satisfies \<open>A\<close> throughout, may depend on
  what the pass wrote.\<close>

lemma over_children:
  assumes "maps_ok s0" "children_ok s0"
    and "\<And>c. c \<in> set cs \<Longrightarrow> in_tree s0 c"
    and "\<And>c a s. c \<in> set cs \<Longrightarrow> A a \<Longrightarrow> erase s = erase s0 \<Longrightarrow>
           A (acc c a) \<and> (\<exists>t. body c a s = (Ok (acc c a), t) \<and> step s0 s t \<and> below s0 t c)"
    and "A a" and "erase s = erase s0"
  shows "\<exists>t. fold_each cs body a s = (Ok (fold acc cs a), t) \<and> step s0 s t \<and> (\<forall>c \<in> set cs. below s0 t c)"
  using assms(3-6)
proof (induction cs arbitrary: a s)
  case Nil
  then show ?case by (simp add: proc_simps step_refl)
next
  case (Cons c cs)
  obtain s1 where s1: "body c a s = (Ok (acc c a), s1)" "step s0 s s1" "below s0 s1 c" and A: "A (acc c a)"
    using Cons.prems(2)[of c a s] Cons.prems(3,4) by auto
  have hyps: "\<And>c. c \<in> set cs \<Longrightarrow> in_tree s0 c"
    "\<And>c a s. c \<in> set cs \<Longrightarrow> A a \<Longrightarrow> erase s = erase s0 \<Longrightarrow>
       A (acc c a) \<and> (\<exists>t. body c a s = (Ok (acc c a), t) \<and> step s0 s t \<and> below s0 t c)"
    using Cons.prems(1,2) by auto
  obtain t where t: "fold_each cs body (acc c a) s1 = (Ok (fold acc cs (acc c a)), t)" "step s0 s1 t"
      "\<forall>c \<in> set cs. below s0 t c"
    using Cons.IH[OF hyps A step_erase[OF s1(2)]] by blast
  have "below s0 t c" using below_step[OF t(2) s1(3) assms(1,2)] Cons.prems(1)[of c] by simp
  moreover have "fold_each (c # cs) body a s = (Ok (fold acc (c # cs) a), t)"
    using s1(1) t(1) by (simp add: bind_def)
  ultimately show ?case using t(3) step_trans[OF s1(2) t(2)] by auto
qed

text \<open>One payload node: a loop over its children and a write of its field.\<close>

definition does_payload :: "store \<Rightarrow> unit store_op \<Rightarrow> pref \<Rightarrow> bool" where
  "does_payload s0 m p \<longleftrightarrow>
     (\<forall>s. erase s = erase s0 \<longrightarrow> (\<exists>t. m s = (Ok (), t) \<and> step s0 s t \<and> pget t p = pval s0 p \<and>
        (\<forall>c \<in> set (p_children (pnode_at s0 p)). below s0 t c)))"

lemma does_payloadI:
  assumes "maps_ok s0" "children_ok s0" "live s0 p"
    and "\<And>c a s. c \<in> set (p_children (pnode_at s0 p)) \<Longrightarrow> A a \<Longrightarrow> erase s = erase s0 \<Longrightarrow>
           A (acc c a) \<and> (\<exists>t. body c a s = (Ok (acc c a), t) \<and> step s0 s t \<and> below s0 t c)"
    and "A a0" and "\<And>s t. erase s = erase s0 \<Longrightarrow>
           fold_each (p_children (pnode_at s0 p)) body a0 s = (Ok (fold acc (p_children (pnode_at s0 p)) a0), t) \<Longrightarrow>
           step s0 s t \<Longrightarrow> \<forall>c \<in> set (p_children (pnode_at s0 p)). below s0 t c \<Longrightarrow>
           m s = (Ok (), pput p (pval s0 p) t)"
  shows "does_payload s0 m p"
  unfolding does_payload_def
proof (intro allI impI)
  fix s assume es: "erase s = erase s0"
  let ?cs = "p_children (pnode_at s0 p)"
  have p: "p < length (pnodes s0)" using live_range(1)[OF assms(1,3)] .
  have tree: "in_tree s0 c" if "c \<in> set ?cs" for c using assms(2,3) that by (auto simp: children_ok_def)
  obtain t where t: "fold_each ?cs body a0 s = (Ok (fold acc ?cs a0), t)" "step s0 s t" "\<forall>c \<in> set ?cs. below s0 t c"
    using over_children[where cs = ?cs and A = A and body = body and acc = acc, OF assms(1,2) tree assms(4,5) es] by blast
  let ?u = "pput p (pval s0 p) t"
  have u: "step s0 t ?u" using pput_step[OF step_erase[OF t(2)] p] .
  have "pget ?u p = pval s0 p"
    using pput_law(3) p erase_lengths[OF step_erase[OF t(2)]] by simp
  moreover have "below s0 ?u c" if "c \<in> set ?cs" for c
    using below_step[OF u _ assms(1,2) tree[OF that]] t(3) that by blast
  ultimately show "\<exists>t. m s = (Ok (), t) \<and> step s0 s t \<and> pget t p = pval s0 p \<and> (\<forall>c \<in> set ?cs. below s0 t c)"
    using assms(6)[OF es t] step_trans[OF t(2) u] by blast
qed

text \<open>The empty and the full node of a consensus node, one after the other.\<close>

lemma both_payloads:
  assumes "maps_ok s0" "children_ok s0" "emptyNode s0 n = Some en" "erase s = erase s0"
    and "\<And>p. emptyNode s0 n = Some p \<or> fullNode s0 n = Some p \<Longrightarrow> does_payload s0 (pass p) p"
  obtains s1 s2 where "pass en s = (Ok (), s1)" "step s0 s s1" "pget s1 en = pval s0 en"
    and "case fullNode s0 n of None \<Rightarrow> s2 = s1 | Some fn \<Rightarrow> pass fn s1 = (Ok (), s2)" "step s0 s s2"
    and "\<forall>c \<in> set (child_nodes s0 n). below s0 s2 c"
    and "\<And>p. emptyNode s0 n = Some p \<or> fullNode s0 n = Some p \<Longrightarrow> pget s2 p = pval s0 p"
proof -
  have en: "live s0 en" using assms(3) by (rule empty_live)
  obtain s1 where s1: "pass en s = (Ok (), s1)" "step s0 s s1" "pget s1 en = pval s0 en"
      "\<forall>c \<in> set (p_children (pnode_at s0 en)). below s0 s1 c"
    using assms(3-5) unfolding does_payload_def by blast
  show ?thesis
  proof (cases "fullNode s0 n")
    case None
    then show ?thesis using that[OF s1(1-3), of s1] s1 assms(3) by (auto simp: child_nodes_def)
  next
    case (Some fn)
    obtain s2 where s2: "pass fn s1 = (Ok (), s2)" "step s0 s1 s2" "pget s2 fn = pval s0 fn"
        "\<forall>c \<in> set (p_children (pnode_at s0 fn)). below s0 s2 c"
      using assms(5)[of fn] Some step_erase[OF s1(2)] unfolding does_payload_def by blast
    have pe: "pget s2 en = pval s0 en" using pget_step[OF s2(2) live_range(1)[OF assms(1) en] s1(3)] .
    have "below s0 s2 c" if "c \<in> set (p_children (pnode_at s0 en))" for c
      using below_step[OF s2(2) _ assms(1,2)] s1(4) that assms(2) en by (auto simp: children_ok_def)
    then have "\<forall>c \<in> set (child_nodes s0 n). below s0 s2 c"
      using s2(4) Some assms(3) by (auto simp: child_nodes_def)
    then show ?thesis
      using that[OF s1(1-3), of s2] s2 pe Some assms(3) step_trans[OF s1(2) s2(2)] by auto
  qed
qed

text \<open>A pass that writes the value of \<open>n\<close> after both payload nodes is done with the subtree of \<open>n\<close>.\<close>

lemma close_node:
  assumes "maps_ok s0" "children_ok s0" "in_tree s0 n" "step s0 s s2"
    and "\<forall>c \<in> set (child_nodes s0 n). below s0 s2 c"
    and "\<And>p. visits s0 n \<Longrightarrow> emptyNode s0 n = Some p \<or> fullNode s0 n = Some p \<Longrightarrow> pget s2 p = pval s0 p"
  shows "step s0 s (nput n (nval s0 n) s2)" and "below s0 (nput n (nval s0 n) s2) n"
proof -
  let ?u = "nput n (nval s0 n) s2"
  have n: "n < length (nodes s0)" using assms(3) by (simp add: in_tree_def)
  have u: "step s0 s2 ?u" using nput_step[OF step_erase[OF assms(4)] n] .
  show "step s0 s ?u" using assms(4) u by (rule step_trans)
  have "finished s0 ?u n"
    using assms(6) n erase_lengths[OF step_erase[OF assms(4)]] by (auto simp: finished_def nput_law)
  moreover have "below s0 ?u c" if "c \<in> set (child_nodes s0 n)" for c
    using below_step[OF u _ assms(1,2) child_nodesD(2)[OF assms(1-3) that]] assms(5) that by blast
  ultimately show "below s0 ?u n" by (rule belowI)
qed

end

end
