(* ===== verification/Forkchoice_Example.thy ===== *)
theory Forkchoice_Example
  imports Forkchoice_Tree
begin

text \<open>
  A concrete fork choice store on which the witnesses of the properties evaluate: a block with root
  1 and, on its full payload node, a child block with root 2.
\<close>

definition example_env :: fc_env where
  "example_env = \<lparr>fc_cfg = mainnetBeaconConfig, fc_now = 24 * Second, fc_ctxErr = False,
     IgnoreUnviableAttestations = False, NewBitvector512 = 0,
     SetBitAt = (\<lambda>v i b. if b then Bit_Operations.set_bit (unat i) v else unset_bit (unat i) v),
     BitCount = (\<lambda>v. 0)\<rparr>"

definition example_node :: "slot \<Rightarrow> root \<Rightarrow> pref option \<Rightarrow> u64 \<Rightarrow> node" where
  "example_node sl r parent bal =
     \<lparr>n_slot = sl, n_proposerIndex = 7, n_root = r, n_blockHash = r, n_parent = parent,
      n_target = None, n_bestDescendant = None, n_justifiedEpoch = 0, n_unrealizedJustifiedEpoch = 0,
      n_finalizedEpoch = 0, n_unrealizedFinalizedEpoch = 0, n_balance = bal, n_weight = 0,
      n_payloadAvailabilityVote = 0, n_payloadDataAvailabilityVote = 0, n_payloadAttesters = 0\<rparr>"

definition example_pnode :: "nref \<Rightarrow> bool \<Rightarrow> nref list \<Rightarrow> u64 \<Rightarrow> payload_node" where
  "example_pnode n full children bal =
     \<lparr>p_optimistic = True, p_full = full, p_weight = 0, p_balance = bal, p_gasLimit = 0,
      p_bestDescendant = None, p_node = n, p_timestamp = 0, p_children = children\<rparr>"

definition example_store :: store where
  "example_store = (new_store 0)
     \<lparr>nodes := [example_node 0 1 None 5, example_node 1 2 (Some 1) 7],
      pnodes := [example_pnode 0 False [] 1, example_pnode 0 True [1] 2,
                 example_pnode 1 False [] 3, example_pnode 1 True [] 4],
      emptyNodeByRoot := [1 \<mapsto> 0, 2 \<mapsto> 2], fullNodeByRoot := [1 \<mapsto> 1, 2 \<mapsto> 3],
      treeRootNode := Some 0, headNode := Some 0, highestReceivedNode := Some 1\<rparr>"

lemmas example_defs = example_store_def example_node_def example_pnode_def new_store_def
  node_at_def pnode_at_def

lemma example_fields [simp]:
  "length (nodes example_store) = 2" "length (pnodes example_store) = 4"
  "emptyNodeByRoot example_store = [1 \<mapsto> 0, 2 \<mapsto> 2]" "fullNodeByRoot example_store = [1 \<mapsto> 1, 2 \<mapsto> 3]"
  "treeRootNode example_store = Some 0" "headNode example_store = Some 0"
  "node_at example_store 0 = example_node 0 1 None 5"
  "node_at example_store (Suc 0) = example_node 1 2 (Some 1) 7"
  "pnode_at example_store 0 = example_pnode 0 False [] 1"
  "pnode_at example_store (Suc 0) = example_pnode 0 True [1] 2"
  "pnode_at example_store 2 = example_pnode 1 False [] 3"
  "pnode_at example_store 3 = example_pnode 1 True [] 4"
  by (simp_all add: example_store_def new_store_def node_at_def pnode_at_def numeral_2_eq_2 numeral_3_eq_3)

lemma example_node_fields [simp]:
  "n_root (example_node sl r q b) = r" "n_parent (example_node sl r q b) = q"
  "n_slot (example_node sl r q b) = sl" "n_balance (example_node sl r q b) = b"
  "p_node (example_pnode n f cs v) = n" "p_full (example_pnode n f cs v) = f"
  "p_children (example_pnode n f cs v) = cs" "p_balance (example_pnode n f cs v) = v"
  by (simp_all add: example_node_def example_pnode_def)

lemma example_in_tree: "in_tree example_store n \<longleftrightarrow> n = 0 \<or> n = 1"
  by (cases "n = 0"; cases "n = 1") (auto simp: in_tree_def emptyNode_def)

lemma example_live: "live example_store p \<longleftrightarrow> p \<in> {0, 1, 2, 3}"
  by (auto simp: live_def intro: exI[of _ 2])

lemma example_tree_ok: "tree_ok example_store"
proof -
  have "maps_ok example_store" by (auto simp: maps_ok_def split: if_splits)
  moreover have "children_ok example_store" by (auto simp: children_ok_def example_live example_in_tree)
  moreover have "parents_ok example_store" by (auto simp: parents_ok_def example_live example_in_tree)
  moreover have "root_ok example_store" by (auto simp: root_ok_def example_in_tree)
  ultimately show ?thesis by (simp add: tree_ok_def)
qed

end
