(* ===== verification/Forkchoice_Weights.thy ===== *)
theory Forkchoice_Weights
  imports Forkchoice_Pass Forkchoice_Example
begin

text \<open>
  The weights that \<open>Head\<close> recomputes. \<open>node_total\<close> and \<open>pnode_total\<close> are the specification: the balance of
  a node plus the totals below it. The recursion of \<open>applyWeightChangesConsensusNode\<close> always returns
  on a well-formed store, leaves everything but the weights alone, and gives every node of the
  subtree its total.
\<close>

section \<open>Specification\<close>

primrec node_total_upto :: "nat \<Rightarrow> store \<Rightarrow> nref \<Rightarrow> u64" where
  "node_total_upto 0 s n = 0"
| "node_total_upto (Suc f) s n =
     n_balance (node_at s n) +
     (case emptyNode s n of
        None \<Rightarrow> 0
      | Some p \<Rightarrow> p_balance (pnode_at s p) + sum_list (map (node_total_upto f s) (p_children (pnode_at s p)))) +
     (case fullNode s n of
        None \<Rightarrow> 0
      | Some p \<Rightarrow> p_balance (pnode_at s p) + sum_list (map (node_total_upto f s) (p_children (pnode_at s p))))"

definition node_total :: "store \<Rightarrow> nref \<Rightarrow> u64" where
  "node_total s n = node_total_upto (tree_fuel s) s n"

definition pnode_total :: "store \<Rightarrow> pref \<Rightarrow> u64" where
  "pnode_total s p = p_balance (pnode_at s p) + sum_list (map (node_total s) (p_children (pnode_at s p)))"

definition zero_payload :: "('a \<Rightarrow> u64) \<Rightarrow> 'a option \<Rightarrow> u64" where
  "zero_payload g po = (case po of None \<Rightarrow> 0 | Some p \<Rightarrow> g p)"

lemma sum_children_cong:
  assumes "\<And>c. c \<in> set (child_nodes s n) \<Longrightarrow> f c = (g c :: u64)"
    and "emptyNode s n = Some p \<or> fullNode s n = Some p"
  shows "sum_list (map f (p_children (pnode_at s p))) = sum_list (map g (p_children (pnode_at s p)))"
  using assms by (intro arg_cong[where f = sum_list] map_cong) (auto simp: child_nodes_def)

lemma node_total_upto_fuel:
  assumes "maps_ok s" "children_ok s" "in_tree s n"
    and "length (nodes s) - n \<le> f" "length (nodes s) - n \<le> g"
  shows "node_total_upto f s n = node_total_upto g s n"
  using assms
proof (induction f arbitrary: g n)
  case 0
  then show ?case by (simp add: in_tree_def)
next
  case (Suc f)
  have n: "n < length (nodes s)" using Suc.prems(3) by (simp add: in_tree_def)
  obtain g' where g: "g = Suc g'" using Suc.prems(5) n by (cases g) auto
  have eq: "node_total_upto f s c = node_total_upto g' s c" if "c \<in> set (child_nodes s n)" for c
  proof (rule Suc.IH[OF Suc.prems(1,2)])
    note c = child_nodesD(1,2)[OF Suc.prems(1-3) that]
    show "in_tree s c" by (rule c(2))
    show "length (nodes s) - c \<le> f" "length (nodes s) - c \<le> g'"
      using c(1) Suc.prems(4,5) g n by linarith+
  qed
  show ?case unfolding g using sum_children_cong[OF eq] by (auto split: option.splits)
qed

lemma node_total_unfold:
  assumes "maps_ok s" "children_ok s" "in_tree s n"
  shows "node_total s n = n_balance (node_at s n) +
    zero_payload (pnode_total s) (emptyNode s n) + zero_payload (pnode_total s) (fullNode s n)"
proof -
  have "node_total_upto (length (nodes s)) s c = node_total s c" if "c \<in> set (child_nodes s n)" for c
    unfolding node_total_def
    by (rule node_total_upto_fuel[OF assms(1,2) child_nodesD(2)[OF assms that]])
      (simp_all add: tree_fuel_def)
  note eq = sum_children_cong[OF this]
  have "node_total s n = node_total_upto (Suc (length (nodes s))) s n"
    by (simp add: node_total_def tree_fuel_def)
  then show ?thesis using eq
    by (auto simp: pnode_total_def zero_payload_def split: option.splits)
qed

section \<open>What the recursion may change\<close>

definition erase_weights :: "store \<Rightarrow> store" where
  "erase_weights s = s\<lparr>nodes := map (\<lambda>x. x\<lparr>n_weight := 0\<rparr>) (nodes s),
                       pnodes := map (\<lambda>x. x\<lparr>p_weight := 0\<rparr>) (pnodes s)\<rparr>"

lemma erase_weightsD:
  assumes "erase_weights s = erase_weights s0"
  shows "length (nodes s) = length (nodes s0)" "length (pnodes s) = length (pnodes s0)"
    and "emptyNodeByRoot s = emptyNodeByRoot s0" "fullNodeByRoot s = fullNodeByRoot s0"
    and "n < length (nodes s0) \<Longrightarrow> (node_at s n)\<lparr>n_weight := 0\<rparr> = (node_at s0 n)\<lparr>n_weight := 0\<rparr>"
    and "p < length (pnodes s0) \<Longrightarrow> (pnode_at s p)\<lparr>p_weight := 0\<rparr> = (pnode_at s0 p)\<lparr>p_weight := 0\<rparr>"
proof -
  note eqs = arg_cong[OF assms, of nodes] arg_cong[OF assms, of pnodes]
    arg_cong[OF assms, of emptyNodeByRoot] arg_cong[OF assms, of fullNodeByRoot]
  note eqs = eqs[unfolded erase_weights_def, simplified]
  show l: "length (nodes s) = length (nodes s0)" "length (pnodes s) = length (pnodes s0)"
    using eqs(1,2) by (auto dest: map_eq_imp_length_eq)
  show "emptyNodeByRoot s = emptyNodeByRoot s0" "fullNodeByRoot s = fullNodeByRoot s0"
    by (fact eqs)+
  show "(node_at s n)\<lparr>n_weight := 0\<rparr> = (node_at s0 n)\<lparr>n_weight := 0\<rparr>" if "n < length (nodes s0)"
    using that l arg_cong[OF eqs(1), of "\<lambda>xs. xs ! n"] by (simp add: node_at_def)
  show "(pnode_at s p)\<lparr>p_weight := 0\<rparr> = (pnode_at s0 p)\<lparr>p_weight := 0\<rparr>" if "p < length (pnodes s0)"
    using that l arg_cong[OF eqs(2), of "\<lambda>xs. xs ! p"] by (simp add: pnode_at_def)
qed

lemma erase_weights_node:
  assumes "erase_weights s = erase_weights s0" and "n < length (nodes s0)"
  shows "n_balance (node_at s n) = n_balance (node_at s0 n)" "n_root (node_at s n) = n_root (node_at s0 n)"
    "emptyNode s n = emptyNode s0 n" "fullNode s n = fullNode s0 n"
proof -
  note eq = erase_weightsD(5)[OF assms]
  from arg_cong[OF eq, of n_balance] arg_cong[OF eq, of n_root]
  show "n_balance (node_at s n) = n_balance (node_at s0 n)" "n_root (node_at s n) = n_root (node_at s0 n)"
    by simp_all
  then show "emptyNode s n = emptyNode s0 n" "fullNode s n = fullNode s0 n"
    using erase_weightsD(3,4)[OF assms(1)] by (simp_all add: emptyNode_def fullNode_def)
qed

lemma erase_weights_pnode:
  assumes "erase_weights s = erase_weights s0" and "p < length (pnodes s0)"
  shows "p_balance (pnode_at s p) = p_balance (pnode_at s0 p)" "p_children (pnode_at s p) = p_children (pnode_at s0 p)"
proof -
  note eq = erase_weightsD(6)[OF assms]
  from arg_cong[OF eq, of p_balance] arg_cong[OF eq, of p_children]
  show "p_balance (pnode_at s p) = p_balance (pnode_at s0 p)" "p_children (pnode_at s p) = p_children (pnode_at s0 p)"
    by simp_all
qed

lemma erase_weights_upd:
  "erase_weights (upd_node n (\<lambda>x. x\<lparr>n_weight := w x\<rparr>) s) = erase_weights s"
  "erase_weights (upd_pnode p (\<lambda>x. x\<lparr>p_weight := v x\<rparr>) s) = erase_weights s"
  by (simp_all add: erase_weights_def upd_node_def upd_pnode_def map_update)
    (cases "n < length (nodes s)"; simp add: list_update_beyond list_update_same_conv
     | cases "p < length (pnodes s)"; simp add: list_update_beyond list_update_same_conv)+

definition put_weight :: "nref \<Rightarrow> u64 \<Rightarrow> store \<Rightarrow> store" where
  "put_weight n v = upd_node n (\<lambda>x. x\<lparr>n_weight := v\<rparr>)"

definition put_pweight :: "pref \<Rightarrow> u64 \<Rightarrow> store \<Rightarrow> store" where
  "put_pweight p v = upd_pnode p (\<lambda>x. x\<lparr>p_weight := v\<rparr>)"

interpretation weights: tree_pass erase_weights
  "\<lambda>s n. n_weight (node_at s n)" "\<lambda>s p. p_weight (pnode_at s p)"
  put_weight put_pweight node_total pnode_total "\<lambda>_ _. True"
proof unfold_locales
  fix s t :: store assume "erase_weights s = erase_weights t"
  then show "length (nodes s) = length (nodes t) \<and> length (pnodes s) = length (pnodes t)"
    using erase_weightsD(1,2) by blast
qed (simp_all add: put_weight_def put_pweight_def erase_weights_upd node_at_upd_node pnode_at_upd_pnode fun_eq_iff)

section \<open>The recursion\<close>

lemma fold_plus: "fold (\<lambda>c a. a + f c) cs a = a + sum_list (map f cs)"
  for f :: "'a \<Rightarrow> u64"
  by (induction cs arbitrary: a) (simp_all add: add.assoc)

lemma weigh_payload:
  assumes "maps_ok s0" "children_ok s0" "\<not> fc_ctxErr E" "live s0 p"
    and "\<And>c. c \<in> set (p_children (pnode_at s0 p)) \<Longrightarrow> weights.does s0 rec c"
  shows "weights.does_payload s0 (applyWeightChangesPayloadNode rec E (Some p)) p"
proof (rule weights.does_payloadI[where A = "\<lambda>_. True", OF assms(1,2,4)])
  let ?body = "\<lambda>child w. seq (check_ctx E) (seq (rec child) (gets (\<lambda>s. w + n_weight (node_at s child))))"
  show "True \<and> (\<exists>t. ?body c a s = (Ok (a + node_total s0 c), t) \<and> weights.step s0 s t \<and> weights.below s0 t c)"
    if c: "c \<in> set (p_children (pnode_at s0 p))" and es: "erase_weights s = erase_weights s0" for c a s
  proof -
    obtain t where t: "rec c s = (Ok (), t)" "weights.step s0 s t" "weights.below s0 t c"
      using assms(5)[OF c] es unfolding weights.does_def by blast
    moreover have "n_weight (node_at t c) = node_total s0 c"
      using weights.below_finished[OF t(3)] by (simp add: weights.finished_def)
    ultimately show ?thesis using assms(3) by (simp add: check_ctx_def proc_simps)
  qed
  show True ..
  let ?cs = "p_children (pnode_at s0 p)"
  fix s t assume es: "erase_weights s = erase_weights s0"
    and f: "fold_each ?cs ?body 0 s = (Ok (fold (\<lambda>c a. a + node_total s0 c) ?cs 0), t)"
    and st: "weights.step s0 s t"
  have p: "p < length (pnodes s0)" using live_range(1)[OF assms(1,4)] .
  have "upd_pnode p (\<lambda>x. x\<lparr>p_weight := p_balance x + sum_list (map (node_total s0) ?cs)\<rparr>) t
      = put_pweight p (pnode_total s0 p) t"
    using erase_weights_pnode(1)[OF weights.step_erase[OF st] p]
    by (simp add: put_pweight_def upd_pnode_def pnode_total_def pnode_at_def)
  then show "applyWeightChangesPayloadNode rec E (Some p) s = (Ok (), put_pweight p (pnode_total s0 p) t)"
    using f erase_weights_pnode(2)[OF es p]
    by (simp add: applyWeightChangesPayloadNode_def proc_simps fold_plus)
qed

lemma applyWeightChanges_eval:
  assumes "emptyNode s n = Some en" "fullNode s1 n = fo" "n_root (node_at s2 n) \<noteq> ZeroHash"
    and "applyWeightChangesPayloadNode (applyWeightChangesConsensusNode E fuel) E (Some en) s = (Ok (), s1)"
    and "case fo of
       None \<Rightarrow> s2 = s1
     | Some fn \<Rightarrow> applyWeightChangesPayloadNode (applyWeightChangesConsensusNode E fuel) E (Some fn) s1 = (Ok (), s2)"
  shows "applyWeightChangesConsensusNode E (Suc fuel) n s =
    (Ok (), upd_node n (\<lambda>x. x\<lparr>n_weight := n_balance x +
       (p_weight (pnode_at s1 en) + zero_payload (\<lambda>fn. p_weight (pnode_at s2 fn)) fo)\<rparr>) s2)"
  using assms
  by (cases fo) (simp_all add: applyWeightChangesConsensusNode.simps(2) deref_def proc_simps zero_payload_def)

lemma applyWeightChanges_does:
  assumes "maps_ok s0" "children_ok s0" "\<not> fc_ctxErr E" "emptyNodeByRoot s0 ZeroHash = None"
    and "in_tree s0 n" "length (nodes s0) - n \<le> fuel"
  shows "weights.does s0 (applyWeightChangesConsensusNode E fuel) n"
  using assms(5,6)
proof (induction fuel arbitrary: n)
  case 0
  then show ?case by (simp add: in_tree_def)
next
  case (Suc fuel)
  let ?pass = "\<lambda>p. applyWeightChangesPayloadNode (applyWeightChangesConsensusNode E fuel) E (Some p)"
  have n: "n < length (nodes s0)" using Suc.prems(1) by (simp add: in_tree_def)
  obtain en where en: "emptyNode s0 n = Some en" using Suc.prems(1) by (auto simp: in_tree_def)
  have ih: "weights.does s0 (applyWeightChangesConsensusNode E fuel) c" if "c \<in> set (child_nodes s0 n)" for c
    using child_nodesD(1,2)[OF assms(1,2) Suc.prems(1) that] Suc.prems(2) by (intro Suc.IH) linarith+
  have pass: "weights.does_payload s0 (?pass p) p" if "emptyNode s0 n = Some p \<or> fullNode s0 n = Some p" for p
    using that ih empty_live full_live
    by (intro weigh_payload[OF assms(1-3)]) (auto simp: child_nodes_def)
  show ?case unfolding weights.does_def
  proof (intro allI impI)
    fix s assume es: "erase_weights s = erase_weights s0"
    obtain s1 s2 where st: "?pass en s = (Ok (), s1)" "weights.step s0 s s1" "p_weight (pnode_at s1 en) = pnode_total s0 en"
        "case fullNode s0 n of None \<Rightarrow> s2 = s1 | Some fn \<Rightarrow> ?pass fn s1 = (Ok (), s2)" "weights.step s0 s s2"
        "\<forall>c \<in> set (child_nodes s0 n). weights.below s0 s2 c"
        "\<And>p. emptyNode s0 n = Some p \<or> fullNode s0 n = Some p \<Longrightarrow> p_weight (pnode_at s2 p) = pnode_total s0 p"
      using weights.both_payloads[where pass = ?pass, OF assms(1,2) en es pass] by blast
    note e1 = weights.step_erase[OF st(2)] and e2 = weights.step_erase[OF st(5)]
    have nz: "n_root (node_at s2 n) \<noteq> ZeroHash"
      using en assms(4) erase_weights_node(2)[OF e2 n] by (auto simp: emptyNode_def)
    have "n_balance (node_at s2 n) + (p_weight (pnode_at s1 en) +
        zero_payload (\<lambda>fn. p_weight (pnode_at s2 fn)) (fullNode s0 n)) = node_total s0 n"
      using node_total_unfold[OF assms(1,2) Suc.prems(1)] st(3,7) en erase_weights_node(1)[OF e2 n]
      by (simp add: zero_payload_def add.assoc split: option.splits)
    then have "applyWeightChangesConsensusNode E (Suc fuel) n s = (Ok (), put_weight n (node_total s0 n) s2)"
      using applyWeightChanges_eval[OF _ _ nz st(1,4)] erase_weights_node(3)[OF es n]
        erase_weights_node(4)[OF e1 n] en by (simp add: put_weight_def upd_node_def node_at_def)
    then show "\<exists>t. applyWeightChangesConsensusNode E (Suc fuel) n s = (Ok (), t) \<and>
        weights.step s0 s t \<and> weights.below s0 t n"
      using weights.close_node[OF assms(1,2) Suc.prems(1) st(5-7)] by blast
  qed
qed

text \<open>On a well-formed store the weight pass returns, changes nothing but weights, and leaves every
  node below the start with the weight of its subtree.\<close>

lemma applyWeightChanges_correct:
  assumes "tree_ok s" "\<not> fc_ctxErr E" "emptyNodeByRoot s ZeroHash = None" "in_tree s n"
  shows "\<exists>t. applyWeightChangesConsensusNode E (tree_fuel s) n s = (Ok (), t) \<and>
    erase_weights t = erase_weights s \<and> weights.below s t n"
proof -
  have ok: "maps_ok s" "children_ok s" using assms(1) by (simp_all add: tree_ok_def)
  have "length (nodes s) - n \<le> tree_fuel s" by (simp add: tree_fuel_def)
  then obtain t where "applyWeightChangesConsensusNode E (tree_fuel s) n s = (Ok (), t)"
      "weights.step s s t" "weights.below s t n"
    using applyWeightChanges_does[OF ok assms(2-4)] unfolding weights.does_def by blast
  then show ?thesis using weights.step_erase by blast
qed

section \<open>Properties\<close>

text \<open>C6: On a well-formed store, the recursion that \<open>Head\<close> starts at the tree root returns, changes
  nothing but weights, and afterwards the weight of every node of the tree is its own balance plus
  the weights of its empty and full payload nodes, and the weight of each payload node is its
  balance plus the weights of its children.\<close>

theorem head_weights_are_subtree_sums:
  assumes "tree_ok s" "\<not> fc_ctxErr E" "emptyNodeByRoot s ZeroHash = None" "treeRootNode s = Some root"
  shows "\<exists>t. applyWeightChangesConsensusNode E (tree_fuel s) root s = (Ok (), t) \<and>
    erase_weights t = erase_weights s \<and>
    (\<forall>m. desc s root m \<longrightarrow>
       n_weight (node_at t m) = n_balance (node_at s m) +
         zero_payload (\<lambda>p. p_weight (pnode_at t p)) (emptyNode s m) +
         zero_payload (\<lambda>p. p_weight (pnode_at t p)) (fullNode s m) \<and>
       (\<forall>p. emptyNode s m = Some p \<or> fullNode s m = Some p \<longrightarrow>
          p_weight (pnode_at t p) = p_balance (pnode_at s p) +
            sum_list (map (\<lambda>c. n_weight (node_at t c)) (p_children (pnode_at s p)))))"
proof -
  have ok: "maps_ok s" "children_ok s" and root: "in_tree s root"
    using assms(1,4) by (auto simp: tree_ok_def root_ok_def)
  obtain t where t: "applyWeightChangesConsensusNode E (tree_fuel s) root s = (Ok (), t)"
      "erase_weights t = erase_weights s" "weights.below s t root"
    using applyWeightChanges_correct[OF assms(1-3) root] by blast
  have fin: "weights.finished s t m" if "desc s root m" for m using t(3) that by (simp add: weights.below_def)
  have node: "n_weight (node_at t m) = node_total s m" if "desc s root m" for m
    using fin[OF that] by (simp add: weights.finished_def)
  have pay: "p_weight (pnode_at t p) = pnode_total s p"
    if "desc s root m" "emptyNode s m = Some p \<or> fullNode s m = Some p" for m p
    using fin[OF that(1)] that(2) by (auto simp: weights.finished_def)
  have eq_n: "n_weight (node_at t m) = n_balance (node_at s m) +
      zero_payload (\<lambda>p. p_weight (pnode_at t p)) (emptyNode s m) +
      zero_payload (\<lambda>p. p_weight (pnode_at t p)) (fullNode s m)" if m: "desc s root m" for m
    using node_total_unfold[OF ok, of m] desc_in_tree[OF m ok root] node[OF m] pay[OF m]
    by (simp add: zero_payload_def split: option.splits)
  moreover have "p_weight (pnode_at t p) = p_balance (pnode_at s p) +
      sum_list (map (\<lambda>c. n_weight (node_at t c)) (p_children (pnode_at s p)))"
    if m: "desc s root m" and p: "emptyNode s m = Some p \<or> fullNode s m = Some p" for m p
  proof -
    have "node_total s c = n_weight (node_at t c)" if "c \<in> set (child_nodes s m)" for c
      using node[OF desc_trans[OF m desc_child[OF that desc_refl]]] by simp
    from sum_children_cong[OF this p] show ?thesis using pay[OF m p] by (simp add: pnode_total_def)
  qed
  ultimately show ?thesis using t(1,2) by blast
qed

theorem head_weights_witness:
  "\<exists>t. applyWeightChangesConsensusNode example_env (tree_fuel example_store) 0 example_store = (Ok (), t) \<and>
    n_weight (node_at t 0) = 22"
proof -
  have kids: "emptyNode example_store 0 = Some 0" "fullNode example_store 0 = Some 1"
    "emptyNode example_store 1 = Some 2" "fullNode example_store 1 = Some 3"
    by (simp_all add: emptyNode_def fullNode_def)
  have d: "desc example_store 0 0" "desc example_store 0 1"
    using desc_child[OF _ desc_refl, of 1 example_store 0] kids by (simp_all add: desc_refl child_nodes_def)
  have hyps: "\<not> fc_ctxErr example_env" "emptyNodeByRoot example_store ZeroHash = None"
    "treeRootNode example_store = Some 0"
    by (simp_all add: example_env_def ZeroHash_def)
  obtain t where t: "applyWeightChangesConsensusNode example_env (tree_fuel example_store) 0 example_store = (Ok (), t)"
    and sums: "\<And>m. desc example_store 0 m \<Longrightarrow>
       n_weight (node_at t m) = n_balance (node_at example_store m) +
         zero_payload (\<lambda>p. p_weight (pnode_at t p)) (emptyNode example_store m) +
         zero_payload (\<lambda>p. p_weight (pnode_at t p)) (fullNode example_store m)"
      "\<And>m p. desc example_store 0 m \<Longrightarrow> emptyNode example_store m = Some p \<or> fullNode example_store m = Some p \<Longrightarrow>
          p_weight (pnode_at t p) = p_balance (pnode_at example_store p) +
            sum_list (map (\<lambda>c. n_weight (node_at t c)) (p_children (pnode_at example_store p)))"
    using head_weights_are_subtree_sums[OF example_tree_ok hyps] by blast
  have "p_weight (pnode_at t 0) = 1" "p_weight (pnode_at t 2) = 3" "p_weight (pnode_at t 3) = 4"
    using sums(2)[OF d(1), of 0] sums(2)[OF d(2), of 2] sums(2)[OF d(2), of 3] kids by simp_all
  moreover from this have "n_weight (node_at t 1) = 14"
    using sums(1)[OF d(2)] kids by (simp add: zero_payload_def)
  moreover from this have "p_weight (pnode_at t 1) = 16" using sums(2)[OF d(1), of 1] kids by simp
  ultimately have "n_weight (node_at t 0) = 22"
    using sums(1)[OF d(1)] kids by (simp add: zero_payload_def)
  then show ?thesis using t by blast
qed

end
