(* ===== verification/Forkchoice_Best.thy ===== *)
theory Forkchoice_Best
  imports Forkchoice_Pass Forkchoice_Example
begin

text \<open>
  The best descendants that \<open>Head\<close> recomputes. \<open>best_node\<close> and \<open>best_pnode\<close> are the specification: among
  the children of the payload node that \<open>choosePayloadContent\<close> selects, the viable child with the
  largest weight, ties broken by the larger root, and below it that child's own best descendant.
\<close>

section \<open>Specification\<close>

definition best_child :: "(nref \<Rightarrow> bool) \<Rightarrow> store \<Rightarrow> nref list \<Rightarrow> nref option" where
  "best_child leads s cs = fst (fold (better_child leads s) cs (None, 0))"

definition tip_below :: "(nref \<Rightarrow> nref option) \<Rightarrow> nref \<Rightarrow> nref" where
  "tip_below g n = (case g n of None \<Rightarrow> n | Some d \<Rightarrow> d)"

definition chosen_payload :: "fc_env \<Rightarrow> store \<Rightarrow> nref \<Rightarrow> pref option" where
  "chosen_payload E s n = (case choosePayloadContent E s n of Ok po \<Rightarrow> po | _ \<Rightarrow> None)"

definition viable_tip :: "(nref \<Rightarrow> nref option) \<Rightarrow> store \<Rightarrow> epoch \<Rightarrow> epoch \<Rightarrow> nref \<Rightarrow> bool" where
  "viable_tip g s je ce n = viableForHead (node_at s (tip_below g n)) je ce"

definition best_below :: "epoch \<Rightarrow> epoch \<Rightarrow> (nref \<Rightarrow> nref option) \<Rightarrow> store \<Rightarrow> pref \<Rightarrow> nref option" where
  "best_below je ce g s p =
     map_option (tip_below g) (best_child (viable_tip g s je ce) s (p_children (pnode_at s p)))"

primrec best_upto :: "nat \<Rightarrow> fc_env \<Rightarrow> epoch \<Rightarrow> epoch \<Rightarrow> store \<Rightarrow> nref \<Rightarrow> nref option" where
  "best_upto 0 E je ce s n = None"
| "best_upto (Suc f) E je ce s n =
     (if child_nodes s n = [] then None
      else case chosen_payload E s n of
        None \<Rightarrow> None
      | Some p \<Rightarrow> best_below je ce (best_upto f E je ce s) s p)"

definition best_node :: "fc_env \<Rightarrow> epoch \<Rightarrow> epoch \<Rightarrow> store \<Rightarrow> nref \<Rightarrow> nref option" where
  "best_node E je ce s n = best_upto (tree_fuel s) E je ce s n"

definition best_pnode :: "fc_env \<Rightarrow> epoch \<Rightarrow> epoch \<Rightarrow> store \<Rightarrow> pref \<Rightarrow> nref option" where
  "best_pnode E je ce s p = best_below je ce (best_node E je ce s) s p"

text \<open>The choice between the payload nodes of a consensus node succeeds everywhere in the tree.\<close>

definition choice_ok :: "fc_env \<Rightarrow> store \<Rightarrow> bool" where
  "choice_ok E s \<longleftrightarrow> (\<forall>n. in_tree s n \<longrightarrow> (\<exists>p. choosePayloadContent E s n = Ok (Some p)))"

lemma choosePayloadContent_cases:
  "choosePayloadContent E s n = Ok (Some p) \<Longrightarrow> emptyNode s n = Some p \<or> fullNode s n = Some p"
  by (auto simp: choosePayloadContent_def outcome_iff split: option.splits if_splits)

lemma better_child_cong:
  assumes "leads c = leads' c"
  shows "better_child leads s c best = better_child leads' s c best"
  by (simp add: better_child_def assms)

lemma best_child_set:
  "best_child leads s cs = Some b \<Longrightarrow> b \<in> set cs \<and> leads b"
proof -
  have "fst (fold (better_child leads s) cs a) = Some b \<Longrightarrow> fst a = Some b \<or> b \<in> set cs \<and> leads b" for a
  proof (induction cs arbitrary: a)
    case (Cons c cs)
    from Cons.IH[of "better_child leads s c a"] Cons.prems show ?case
      by (auto simp: better_child_def split: if_splits option.splits)
  qed simp
  then show "best_child leads s cs = Some b \<Longrightarrow> b \<in> set cs \<and> leads b"
    by (fastforce simp: best_child_def)
qed

lemma best_below_cong:
  assumes "\<And>c. c \<in> set (p_children (pnode_at s p)) \<Longrightarrow> g c = h c"
  shows "best_below je ce g s p = best_below je ce h s p"
proof -
  have tip: "tip_below g c = tip_below h c" if "c \<in> set (p_children (pnode_at s p))" for c
    using assms[OF that] by (simp add: tip_below_def)
  have "fold (better_child (viable_tip g s je ce) s) (p_children (pnode_at s p)) (None, 0) =
      fold (better_child (viable_tip h s je ce) s) (p_children (pnode_at s p)) (None, 0)"
    by (intro fold_cong refl ext better_child_cong) (simp add: viable_tip_def tip)
  then have eq: "best_child (viable_tip g s je ce) s (p_children (pnode_at s p)) =
      best_child (viable_tip h s je ce) s (p_children (pnode_at s p))"
    by (simp add: best_child_def)
  show ?thesis unfolding best_below_def eq
    by (rule map_option_cong[OF refl]) (auto dest: best_child_set intro: tip)
qed

lemma best_upto_fuel:
  assumes "maps_ok s" "children_ok s" "choice_ok E s" "in_tree s n"
    and "length (nodes s) - n \<le> f" "length (nodes s) - n \<le> g"
  shows "best_upto f E je ce s n = best_upto g E je ce s n"
  using assms(4-6)
proof (induction f arbitrary: g n)
  case 0
  then show ?case by (simp add: in_tree_def)
next
  case (Suc f)
  have n: "n < length (nodes s)" using Suc.prems(1) by (simp add: in_tree_def)
  obtain g' where g: "g = Suc g'" using Suc.prems(3) n by (cases g) auto
  obtain p where p: "choosePayloadContent E s n = Ok (Some p)" using assms(3) Suc.prems(1) by (auto simp: choice_ok_def)
  have eq: "best_upto f E je ce s c = best_upto g' E je ce s c" if "c \<in> set (p_children (pnode_at s p))" for c
  proof (rule Suc.IH)
    have c: "c \<in> set (child_nodes s n)" using choosePayloadContent_cases[OF p] that by (auto simp: child_nodes_def)
    note child_nodesD(1,2)[OF assms(1,2) Suc.prems(1) c]
    then show "in_tree s c" "length (nodes s) - c \<le> f" "length (nodes s) - c \<le> g'"
      using Suc.prems(2,3) g n by simp_all
  qed
  show ?case unfolding g by (simp add: chosen_payload_def p best_below_cong[OF eq])
qed

lemma best_node_unfold:
  assumes "maps_ok s" "children_ok s" "choice_ok E s" "in_tree s n"
    and "choosePayloadContent E s n = Ok (Some p)"
  shows "best_node E je ce s n = (if child_nodes s n = [] then None else best_pnode E je ce s p)"
proof -
  have eq: "best_upto (length (nodes s)) E je ce s c = best_node E je ce s c"
    if "c \<in> set (p_children (pnode_at s p))" for c
  proof -
    have c: "c \<in> set (child_nodes s n)"
      using choosePayloadContent_cases[OF assms(5)] that by (auto simp: child_nodes_def)
    show ?thesis unfolding best_node_def
      by (rule best_upto_fuel[OF assms(1-3) child_nodesD(2)[OF assms(1,2,4) c]]) (simp_all add: tree_fuel_def)
  qed
  show ?thesis
    by (simp add: best_node_def[of E je ce s n] tree_fuel_def chosen_payload_def assms(5) best_pnode_def
        best_below_cong[OF eq])
qed

section \<open>What the recursion may change\<close>

definition erase_best :: "store \<Rightarrow> store" where
  "erase_best s = s\<lparr>nodes := map (\<lambda>x. x\<lparr>n_bestDescendant := None\<rparr>) (nodes s),
                    pnodes := map (\<lambda>x. x\<lparr>p_bestDescendant := None\<rparr>) (pnodes s)\<rparr>"

definition put_best :: "nref \<Rightarrow> nref option \<Rightarrow> store \<Rightarrow> store" where
  "put_best n v = upd_node n (\<lambda>x. x\<lparr>n_bestDescendant := v\<rparr>)"

definition put_pbest :: "pref \<Rightarrow> nref option \<Rightarrow> store \<Rightarrow> store" where
  "put_pbest p v = upd_pnode p (\<lambda>x. x\<lparr>p_bestDescendant := v\<rparr>)"

lemma erase_bestD:
  assumes "erase_best s = erase_best s0"
  shows "length (nodes s) = length (nodes s0)" "length (pnodes s) = length (pnodes s0)"
    and "emptyNodeByRoot s = emptyNodeByRoot s0" "fullNodeByRoot s = fullNodeByRoot s0"
    and "proposerBoostRoot s = proposerBoostRoot s0" "genesisTime s = genesisTime s0"
    and "n < length (nodes s0) \<Longrightarrow>
      (node_at s n)\<lparr>n_bestDescendant := None\<rparr> = (node_at s0 n)\<lparr>n_bestDescendant := None\<rparr>"
    and "p < length (pnodes s0) \<Longrightarrow>
      (pnode_at s p)\<lparr>p_bestDescendant := None\<rparr> = (pnode_at s0 p)\<lparr>p_bestDescendant := None\<rparr>"
proof -
  note eqs = arg_cong[OF assms, of nodes] arg_cong[OF assms, of pnodes]
    arg_cong[OF assms, of emptyNodeByRoot] arg_cong[OF assms, of fullNodeByRoot]
    arg_cong[OF assms, of proposerBoostRoot] arg_cong[OF assms, of genesisTime]
  note eqs = eqs[unfolded erase_best_def, simplified]
  show l: "length (nodes s) = length (nodes s0)" "length (pnodes s) = length (pnodes s0)"
    using eqs(1,2) by (auto dest: map_eq_imp_length_eq)
  show "emptyNodeByRoot s = emptyNodeByRoot s0" "fullNodeByRoot s = fullNodeByRoot s0"
    "proposerBoostRoot s = proposerBoostRoot s0" "genesisTime s = genesisTime s0"
    by (fact eqs)+
  show "(node_at s n)\<lparr>n_bestDescendant := None\<rparr> = (node_at s0 n)\<lparr>n_bestDescendant := None\<rparr>" if "n < length (nodes s0)"
    using that l arg_cong[OF eqs(1), of "\<lambda>xs. xs ! n"] by (simp add: node_at_def)
  show "(pnode_at s p)\<lparr>p_bestDescendant := None\<rparr> = (pnode_at s0 p)\<lparr>p_bestDescendant := None\<rparr>"
    if "p < length (pnodes s0)"
    using that l arg_cong[OF eqs(2), of "\<lambda>xs. xs ! p"] by (simp add: pnode_at_def)
qed

text \<open>A field of a node other than its best descendant is the same in both stores.\<close>

lemma erase_best_field:
  assumes "erase_best s = erase_best s0" and "n < length (nodes s0)"
    and "\<And>x. f (x\<lparr>n_bestDescendant := None\<rparr>) = f x"
  shows "f (node_at s n) = f (node_at s0 n)"
  using arg_cong[OF erase_bestD(7)[OF assms(1,2)], of f] by (simp add: assms(3))

lemma erase_best_pfield:
  assumes "erase_best s = erase_best s0" and "p < length (pnodes s0)"
    and "\<And>x. f (x\<lparr>p_bestDescendant := None\<rparr>) = f x"
  shows "f (pnode_at s p) = f (pnode_at s0 p)"
  using arg_cong[OF erase_bestD(8)[OF assms(1,2)], of f] by (simp add: assms(3))

lemma erase_best_empty_full:
  assumes "erase_best s = erase_best s0" and "n < length (nodes s0)"
  shows "emptyNode s n = emptyNode s0 n" "fullNode s n = fullNode s0 n"
  using erase_best_field[OF assms, of n_root] erase_bestD(3,4)[OF assms(1)]
  by (simp_all add: emptyNode_def fullNode_def)

lemma erase_best_child_nodes:
  assumes "erase_best s = erase_best s0" "maps_ok s0" "n < length (nodes s0)"
  shows "child_nodes s n = child_nodes s0 n"
proof -
  have "p_children (pnode_at s p) = p_children (pnode_at s0 p)" if "live s0 p" for p
    using erase_best_pfield[OF assms(1) live_range(1)[OF assms(2) that], of p_children] by simp
  then show ?thesis
    using empty_live full_live
    by (auto simp: child_nodes_def erase_best_empty_full[OF assms(1,3)] split: option.splits)
qed

lemma hasConsensusChildren_eq:
  assumes "in_tree s n"
  shows "hasConsensusChildren s n = Ok (child_nodes s n \<noteq> [])"
  using assms by (auto simp: in_tree_def hasConsensusChildren_def child_nodes_def split: option.splits)

lemma erase_best_choice:
  assumes "erase_best s = erase_best s0" "tree_ok s0" "in_tree s0 n"
  shows "choosePayloadContent E s n = choosePayloadContent E s0 n"
proof -
  have ok: "maps_ok s0" "parents_ok s0" using assms(2) by (simp_all add: tree_ok_def)
  have n: "n < length (nodes s0)" using assms(3) by (simp add: in_tree_def)
  note e = erase_bestD(3-6)[OF assms(1)] and ef = erase_best_empty_full[OF assms(1) n]
  have pf: "p_weight (pnode_at s p) = p_weight (pnode_at s0 p)" "p_node (pnode_at s p) = p_node (pnode_at s0 p)"
    "p_full (pnode_at s p) = p_full (pnode_at s0 p)" if "live s0 p" for p
    by (rule erase_best_pfield[OF assms(1) live_range(1)[OF ok(1) that]], simp)+
  have nf: "n_payloadAvailabilityVote (cnode s p) = n_payloadAvailabilityVote (cnode s0 p)"
    "n_payloadDataAvailabilityVote (cnode s p) = n_payloadDataAvailabilityVote (cnode s0 p)"
    "n_parent (cnode s p) = n_parent (cnode s0 p)" if "live s0 p" for p
    unfolding pf(2)[OF that]
    by (rule erase_best_field[OF assms(1) live_range(2)[OF ok(1) that]], simp)+
  have par: "live s0 q" if "live s0 p" "n_parent (cnode s0 p) = Some q" for p q
    using ok(2) live_range(3)[OF ok(1) that(1)] that(2) by (auto simp: parents_ok_def)
  have ext: "shouldExtendPayload E s (Some fn) = shouldExtendPayload E s0 (Some fn)" if fn: "live s0 fn" for fn
  proof (cases "emptyNodeByRoot s0 (proposerBoostRoot s0)")
    case None
    then show ?thesis using nf[OF fn] e by (simp add: shouldExtendPayload_def Let_def)
  next
    case (Some pn)
    then have lpn: "live s0 pn" by (auto simp: live_def)
    show ?thesis
    proof (cases "n_parent (cnode s0 pn)")
      case None
      then show ?thesis using nf[OF fn] nf(3)[OF lpn] Some e by (simp add: shouldExtendPayload_def Let_def)
    next
      case p: (Some q)
      then show ?thesis using nf[OF fn] nf(3)[OF lpn] pf[OF fn] pf[OF par[OF lpn p]] Some e
        by (simp add: shouldExtendPayload_def Let_def)
    qed
  qed
  have sl: "n_slot (node_at s n) = n_slot (node_at s0 n)" using erase_best_field[OF assms(1) n, of n_slot] by simp
  show ?thesis
  proof (cases "fullNode s0 n")
    case None
    then show ?thesis by (simp add: choosePayloadContent_def ef)
  next
    case (Some fn)
    then have fn: "live s0 fn" by (rule full_live)
    obtain en where en: "emptyNode s0 n = Some en" using assms(3) by (auto simp: in_tree_def)
    then have "live s0 en" by (rule empty_live)
    then show ?thesis using Some en pf(1) fn ext[OF fn] sl e
      by (simp add: choosePayloadContent_def ef store_currentSlot_def cong: if_cong)
  qed
qed

lemma erase_best_upd:
  "erase_best (put_best n v s) = erase_best s" "erase_best (put_pbest p v s) = erase_best s"
  by (simp_all add: erase_best_def put_best_def put_pbest_def upd_node_def upd_pnode_def map_update)
    (cases "n < length (nodes s)"; simp add: list_update_beyond list_update_same_conv
     | cases "p < length (pnodes s)"; simp add: list_update_beyond list_update_same_conv)+

interpretation best: tree_pass erase_best
  "\<lambda>s n. n_bestDescendant (node_at s n)" "\<lambda>s p. p_bestDescendant (pnode_at s p)"
  put_best put_pbest "best_node E je ce" "best_pnode E je ce" "\<lambda>s n. child_nodes s n \<noteq> []" for E je ce
proof unfold_locales
  fix s t :: store assume "erase_best s = erase_best t"
  then show "length (nodes s) = length (nodes t) \<and> length (pnodes s) = length (pnodes t)"
    using erase_bestD(1,2) by blast
qed (simp_all only: erase_best_upd,
  simp_all add: put_best_def put_pbest_def node_at_upd_node pnode_at_upd_pnode fun_eq_iff)

section \<open>The recursion\<close>

lemma best_child_step:
  assumes "maps_ok s0" "children_ok s0" "in_tree s0 c" "erase_best t = erase_best s0"
    and "n_bestDescendant (node_at t c) = best_node E je ce s0 c"
    and "\<And>d. best_node E je ce s0 c = Some d \<Longrightarrow> d < length (nodes s0)"
    and "\<And>b. fst a = Some b \<Longrightarrow> b < length (nodes s0)"
  shows "better_child (\<lambda>n. leadsToViableHead t n je ce) t c a =
         better_child (viable_tip (best_node E je ce s0) s0 je ce) s0 c a"
proof -
  have c: "c < length (nodes s0)" using assms(3) by (simp add: in_tree_def)
  have v: "viableForHead (node_at t m) je ce = viableForHead (node_at s0 m) je ce" if "m < length (nodes s0)" for m
    using erase_best_field[OF assms(4) that, of n_justifiedEpoch] by (simp add: viableForHead_def)
  have "leadsToViableHead t c je ce = viable_tip (best_node E je ce s0) s0 je ce c"
    using assms(5,6) v c by (auto simp: leadsToViableHead_def viable_tip_def tip_below_def split: option.splits)
  moreover have "n_weight (node_at t c) = n_weight (node_at s0 c)"
    using erase_best_field[OF assms(4) c, of n_weight] by simp
  moreover have "n_root (node_at t m) = n_root (node_at s0 m)" if "m < length (nodes s0)" for m
    using erase_best_field[OF assms(4) that, of n_root] by simp
  ultimately show ?thesis using assms(7) c by (auto simp: better_child_def split: option.splits)
qed

lemma best_pnode_Some:
  assumes "best_pnode E je ce s p = Some d"
  obtains b where "b \<in> set (p_children (pnode_at s p))" "d = tip_below (best_node E je ce s) b"
    "viableForHead (node_at s d) je ce"
  using assms best_child_set[of "viable_tip (best_node E je ce s) s je ce" s "p_children (pnode_at s p)"]
  by (auto simp: best_pnode_def best_below_def viable_tip_def)

text \<open>A best descendant is a proper descendant, viable, and has no best descendant itself.\<close>

lemma best_node_tip:
  assumes "maps_ok s" "children_ok s" "choice_ok E s" "in_tree s n"
    and "best_node E je ce s n = Some d"
  shows "desc s n d \<and> n < d \<and> viableForHead (node_at s d) je ce \<and> best_node E je ce s d = None"
  using assms(4,5)
proof (induction "length (nodes s) - n" arbitrary: n rule: less_induct)
  case less
  obtain p where p: "choosePayloadContent E s n = Ok (Some p)"
    using assms(3) less.prems(1) by (auto simp: choice_ok_def)
  have "best_pnode E je ce s p = Some d"
    using less.prems(2) best_node_unfold[OF assms(1-3) less.prems(1) p] by (simp split: if_splits)
  then obtain b where b: "b \<in> set (p_children (pnode_at s p))" "d = tip_below (best_node E je ce s) b"
      "viableForHead (node_at s d) je ce"
    by (rule best_pnode_Some)
  have bc: "b \<in> set (child_nodes s n)" using choosePayloadContent_cases[OF p] b(1) by (auto simp: child_nodes_def)
  note nb = child_nodesD(1,2)[OF assms(1,2) less.prems(1) bc]
  show ?case
  proof (cases "best_node E je ce s b")
    case None
    then show ?thesis using b nb bc by (auto simp: tip_below_def intro: desc.intros)
  next
    case (Some d')
    have "length (nodes s) - b < length (nodes s) - n" using nb less.prems(1) by (auto simp: in_tree_def)
    from less.hyps[OF this nb(2)] Some b(2) show ?thesis
      using nb(1) bc by (auto simp: tip_below_def intro: desc_child)
  qed
qed

lemma best_node_range:
  assumes "maps_ok s" "children_ok s" "choice_ok E s" "in_tree s n" "best_node E je ce s n = Some d"
  shows "d < length (nodes s)"
  using best_node_tip[OF assms] desc_in_tree[OF _ assms(1,2,4)] by (auto simp: in_tree_def)

lemma fst_better_child:
  "fst (better_child leads s c a) = Some b \<Longrightarrow> b = c \<or> fst a = Some b"
  by (auto simp: better_child_def split: if_splits option.splits)

lemma best_payload:
  assumes "tree_ok s0" "choice_ok E s0" "\<not> fc_ctxErr E" "live s0 p"
    and "\<And>c. c \<in> set (p_children (pnode_at s0 p)) \<Longrightarrow> best.does E je ce s0 rec c"
  shows "best.does_payload E je ce s0 (updateBestDescendantPayloadNode rec E je ce p) p"
proof -
  have ok: "maps_ok s0" "children_ok s0" using assms(1) by (simp_all add: tree_ok_def)
  let ?cs = "p_children (pnode_at s0 p)" and ?g = "best_node E je ce s0"
  let ?A = "\<lambda>a :: nref option \<times> u64. \<forall>b. fst a = Some b \<longrightarrow> b < length (nodes s0)"
  let ?acc = "better_child (viable_tip ?g s0 je ce) s0"
  let ?body = "\<lambda>child a. seq (rec child) (gets (\<lambda>s. better_child (\<lambda>n. leadsToViableHead s n je ce) s child a))"
  have tree: "in_tree s0 c" if "c \<in> set ?cs" for c using ok(2) assms(4) that by (auto simp: children_ok_def)
  have p: "p < length (pnodes s0)" using live_range(1)[OF ok(1) assms(4)] .
  show ?thesis
  proof (rule best.does_payloadI[where A = ?A and acc = ?acc and ?a0.0 = "(None, 0)" and body = ?body, OF ok assms(4)])
    fix c a s assume c: "c \<in> set ?cs" and A: "?A a" and es: "erase_best s = erase_best s0"
    obtain t where t: "rec c s = (Ok (), t)" "best.step E je ce s0 s t" "best.below E je ce s0 t c"
      using assms(5)[OF c] es unfolding best.does_def by blast
    have "n_bestDescendant (node_at t c) = ?g c"
      using best.below_finished[OF t(3)] unfolding best.finished_def by (rule conjunct1)
    then have eq: "better_child (\<lambda>n. leadsToViableHead t n je ce) t c a = ?acc c a"
      by (rule best_child_step[OF ok tree[OF c] best.step_erase[OF t(2)]])
        (use A in \<open>simp_all add: best_node_range[OF ok assms(2) tree[OF c]]\<close>)
    have "c < length (nodes s0)" using tree[OF c] by (simp add: in_tree_def)
    then have "?A (?acc c a)" using A fst_better_child[of _ s0 c a] by blast
    moreover have "?body c a s = (Ok (?acc c a), t)" unfolding eq[symmetric] using t(1) by (simp add: proc_simps)
    ultimately show "?A (?acc c a) \<and>
        (\<exists>t. ?body c a s = (Ok (?acc c a), t) \<and> best.step E je ce s0 s t \<and> best.below E je ce s0 t c)"
      using t(2,3) by blast
  next
    fix s t assume es: "erase_best s = erase_best s0"
      and f: "fold_each ?cs ?body (None, 0) s = (Ok (fold ?acc ?cs (None, 0)), t)"
      and st: "best.step E je ce s0 s t" and below: "\<forall>c \<in> set ?cs. best.below E je ce s0 t c"
    have "n_bestDescendant (node_at t b) = ?g b" if "fst (fold ?acc ?cs (None, 0)) = Some b" for b
    proof -
      have "b \<in> set ?cs" using that best_child_set[of "viable_tip ?g s0 je ce" s0 ?cs b] by (simp add: best_child_def)
      then have "best.finished E je ce s0 t b" using below best.below_finished by blast
      then show ?thesis unfolding best.finished_def by (rule conjunct1)
    qed
    then have "(case fst (fold ?acc ?cs (None, 0)) of
        None \<Rightarrow> None
      | Some b \<Rightarrow> (case n_bestDescendant (node_at t b) of None \<Rightarrow> Some b | Some d \<Rightarrow> Some d)) = best_pnode E je ce s0 p"
      by (auto simp: best_pnode_def best_below_def best_child_def tip_below_def split: option.splits)
    then show "updateBestDescendantPayloadNode rec E je ce p s = (Ok (), put_pbest p (best_pnode E je ce s0 p) t)"
      using f erase_best_pfield[OF es p, of p_children] assms(3)
      by (simp add: updateBestDescendantPayloadNode_def check_ctx_def proc_simps put_pbest_def)
  qed simp
qed

lemma updateBestDescendant_leaf:
  assumes "\<not> fc_ctxErr E" "hasConsensusChildren s n = Ok False"
  shows "updateBestDescendantConsensusNode E je ce (Suc fuel) n s = (Ok (), put_best n None s)"
  using assms
  by (simp add: updateBestDescendantConsensusNode.simps(2) check_ctx_def proc_simps put_best_def)

lemma updateBestDescendant_inner:
  assumes "\<not> fc_ctxErr E" "hasConsensusChildren s n = Ok True" "emptyNode s n = Some en" "fullNode s1 n = fo"
    and "updateBestDescendantPayloadNode (updateBestDescendantConsensusNode E je ce fuel) E je ce en s = (Ok (), s1)"
    and "case fo of
       None \<Rightarrow> s2 = s1
     | Some fn \<Rightarrow>
         updateBestDescendantPayloadNode (updateBestDescendantConsensusNode E je ce fuel) E je ce fn s1 = (Ok (), s2)"
    and "choosePayloadContent E s2 n = Ok (Some c)" "fo = None \<Longrightarrow> c = en"
  shows "updateBestDescendantConsensusNode E je ce (Suc fuel) n s =
    (Ok (), put_best n (p_bestDescendant (pnode_at s2 c)) s2)"
  using assms
  by (cases fo)
    (simp_all add: updateBestDescendantConsensusNode.simps(2) check_ctx_def proc_simps deref_def put_best_def)

lemma updateBestDescendant_does:
  assumes "tree_ok s0" "choice_ok E s0" "\<not> fc_ctxErr E" "in_tree s0 n" "length (nodes s0) - n \<le> fuel"
  shows "best.does E je ce s0 (updateBestDescendantConsensusNode E je ce fuel) n"
  using assms(4,5)
proof (induction fuel arbitrary: n)
  case 0
  then show ?case by (simp add: in_tree_def)
next
  case (Suc fuel)
  have ok: "maps_ok s0" "children_ok s0" using assms(1) by (simp_all add: tree_ok_def)
  let ?pass = "updateBestDescendantPayloadNode (updateBestDescendantConsensusNode E je ce fuel) E je ce"
  have n: "n < length (nodes s0)" using Suc.prems(1) by (simp add: in_tree_def)
  obtain en where en: "emptyNode s0 n = Some en" using Suc.prems(1) by (auto simp: in_tree_def)
  obtain c where c: "choosePayloadContent E s0 n = Ok (Some c)"
    using assms(2) Suc.prems(1) by (auto simp: choice_ok_def)
  note unfold = best_node_unfold[OF ok assms(2) Suc.prems(1) c, of je ce]
  have ih: "best.does E je ce s0 (updateBestDescendantConsensusNode E je ce fuel) d" if "d \<in> set (child_nodes s0 n)" for d
    using child_nodesD(1,2)[OF ok Suc.prems(1) that] Suc.prems(2) by (intro Suc.IH) linarith+
  have pass: "best.does_payload E je ce s0 (?pass p) p" if "emptyNode s0 n = Some p \<or> fullNode s0 n = Some p" for p
    using that ih empty_live full_live
    by (intro best_payload[OF assms(1-3)]) (auto simp: child_nodes_def)
  show ?case unfolding best.does_def
  proof (intro allI impI)
    fix s assume es: "erase_best s = erase_best s0"
    have "in_tree s n" using Suc.prems(1) erase_best_empty_full[OF es n] erase_bestD(1)[OF es]
        erase_best_pfield[OF es live_range(1)[OF ok(1) empty_live[OF en]], of p_node] en
      by (auto simp: in_tree_def)
    then have has: "hasConsensusChildren s n = Ok (child_nodes s0 n \<noteq> [])"
      using erase_best_child_nodes[OF es ok(1) n] by (simp add: hasConsensusChildren_eq)
    show "\<exists>t. updateBestDescendantConsensusNode E je ce (Suc fuel) n s = (Ok (), t) \<and>
        best.step E je ce s0 s t \<and> best.below E je ce s0 t n"
    proof (cases "child_nodes s0 n = []")
      case True
      then have "updateBestDescendantConsensusNode E je ce (Suc fuel) n s = (Ok (), put_best n (best_node E je ce s0 n) s)"
        using updateBestDescendant_leaf[OF assms(3)] has unfold by simp
      moreover have "\<forall>c \<in> set (child_nodes s0 n). best.below E je ce s0 s c" using True by simp
      note best.close_node[OF ok Suc.prems(1) best.step_refl[OF es] this]
      ultimately show ?thesis using True by blast
    next
      case False
      obtain s1 s2 where st: "?pass en s = (Ok (), s1)" "best.step E je ce s0 s s1"
          and "p_bestDescendant (pnode_at s1 en) = best_pnode E je ce s0 en" and st':
          "case fullNode s0 n of None \<Rightarrow> s2 = s1 | Some fn \<Rightarrow> ?pass fn s1 = (Ok (), s2)" "best.step E je ce s0 s s2"
          "\<forall>c \<in> set (child_nodes s0 n). best.below E je ce s0 s2 c"
          "\<And>p. emptyNode s0 n = Some p \<or> fullNode s0 n = Some p \<Longrightarrow> p_bestDescendant (pnode_at s2 p) = best_pnode E je ce s0 p"
        by (rule best.both_payloads[where pass = ?pass, OF ok en es pass]) blast+
      note st = st st'
      note e1 = best.step_erase[OF st(2)] and e2 = best.step_erase[OF st(4)]
      have val: "p_bestDescendant (pnode_at s2 c) = best_node E je ce s0 n"
        using st(6)[OF choosePayloadContent_cases[OF c]] unfold False by simp
      have cen: "c = en" if "fullNode s0 n = None" using that c en by (simp add: choosePayloadContent_def)
      have ch: "choosePayloadContent E s2 n = Ok (Some c)"
        using erase_best_choice[OF e2 assms(1) Suc.prems(1)] c by simp
      have has': "hasConsensusChildren s n = Ok True" using has False by simp
      have es_n: "emptyNode s n = Some en" using erase_best_empty_full(1)[OF es n] en by simp
      have "updateBestDescendantConsensusNode E je ce (Suc fuel) n s = (Ok (), put_best n (best_node E je ce s0 n) s2)"
        using updateBestDescendant_inner[OF assms(3) has' es_n erase_best_empty_full(2)[OF e1 n] st(1,3) ch cen]
        unfolding val .
      moreover have "best.step E je ce s0 s (put_best n (best_node E je ce s0 n) s2)"
        "best.below E je ce s0 (put_best n (best_node E je ce s0 n) s2) n"
        by (rule best.close_node[OF ok Suc.prems(1) st(4,5)], erule st(6))+
      ultimately show ?thesis by (intro exI[of _ "put_best n (best_node E je ce s0 n) s2"] conjI)
    qed
  qed
qed

lemma updateBestDescendant_correct:
  assumes "tree_ok s" "choice_ok E s" "\<not> fc_ctxErr E" "in_tree s n"
  shows "\<exists>t. updateBestDescendantConsensusNode E je ce (tree_fuel s) n s = (Ok (), t) \<and>
    erase_best t = erase_best s \<and> (\<forall>m. desc s n m \<longrightarrow> n_bestDescendant (node_at t m) = best_node E je ce s m)"
proof -
  have "length (nodes s) - n \<le> tree_fuel s" by (simp add: tree_fuel_def)
  then obtain t where t: "updateBestDescendantConsensusNode E je ce (tree_fuel s) n s = (Ok (), t)"
      "best.step E je ce s s t" "best.below E je ce s t n"
    using updateBestDescendant_does[OF assms] unfolding best.does_def by blast
  then show ?thesis using best.step_erase[OF t(2)] unfolding best.below_def best.finished_def by blast
qed

section \<open>The selected child\<close>

definition beats :: "store \<Rightarrow> nref \<Rightarrow> nref \<Rightarrow> bool" where
  "beats s b c \<longleftrightarrow> n_weight (node_at s c) < n_weight (node_at s b) \<or>
     n_weight (node_at s c) = n_weight (node_at s b) \<and> n_root (node_at s c) \<le> n_root (node_at s b)"

lemma best_child_fold:
  "case fold (better_child leads s) cs (None, 0) of
     (None, w) \<Rightarrow> \<forall>c \<in> set cs. \<not> leads c
   | (Some b, w) \<Rightarrow> w = n_weight (node_at s b) \<and> (\<forall>c \<in> set cs. leads c \<longrightarrow> beats s b c)"
proof (induction cs rule: rev_induct)
  case (snoc c cs)
  obtain best w where a: "fold (better_child leads s) cs (None, 0) = (best, w)" by fastforce
  have step: "fold (better_child leads s) (cs @ [c]) (None, 0) = better_child leads s c (best, w)" by (simp add: a)
  show ?case
  proof (cases best)
    case None
    with snoc have "\<forall>c \<in> set cs. \<not> leads c" by (simp add: a)
    then show ?thesis unfolding step None by (auto simp: better_child_def beats_def)
  next
    case (Some b)
    with snoc have w: "w = n_weight (node_at s b)" and m: "\<forall>c \<in> set cs. leads c \<longrightarrow> beats s b c" by (simp_all add: a)
    show ?thesis unfolding step Some using m w by (auto simp: better_child_def beats_def)
  qed
qed simp

lemma best_child_None_iff: "best_child leads s cs = None \<longleftrightarrow> (\<forall>c \<in> set cs. \<not> leads c)"
  using best_child_fold[where leads = leads and s = s and cs = cs] best_child_set[of leads s cs]
  by (auto simp: best_child_def split: prod.splits option.splits)

lemma best_child_max: "best_child leads s cs = Some b \<Longrightarrow> c \<in> set cs \<Longrightarrow> leads c \<Longrightarrow> beats s b c"
  using best_child_fold[where leads = leads and s = s and cs = cs] by (auto simp: best_child_def split: prod.splits option.splits)

section \<open>When the choice of the payload succeeds\<close>

text \<open>The node with the proposer boost has a parent: the boost is given to blocks with a parent only.\<close>

definition boost_ok :: "store \<Rightarrow> bool" where
  "boost_ok s \<longleftrightarrow> (\<forall>p. proposerBoostRoot s \<noteq> 0 \<longrightarrow> emptyNodeByRoot s (proposerBoostRoot s) = Some p \<longrightarrow>
     n_parent (cnode s p) \<noteq> None)"

lemma store_currentSlot_total: "SlotDuration (fc_cfg E) \<noteq> 0 \<Longrightarrow> \<exists>sl. store_currentSlot E s = Ok sl"
  by (simp add: store_currentSlot_def CurrentSlot_def At_def slot_of_duration_def)

lemma shouldExtendPayload_total: "boost_ok s \<Longrightarrow> \<exists>b. shouldExtendPayload E s fno = Ok b"
  by (auto simp: boost_ok_def shouldExtendPayload_def Let_def split: option.splits)

lemma choice_okI:
  assumes "tree_ok s" "SlotDuration (fc_cfg E) \<noteq> 0" "boost_ok s"
  shows "choice_ok E s"
  unfolding choice_ok_def
proof (intro allI impI)
  fix n assume "in_tree s n"
  then obtain en where en: "emptyNode s n = Some en" by (auto simp: in_tree_def)
  obtain cur where cur: "store_currentSlot E s = Ok cur" using store_currentSlot_total[OF assms(2)] by blast
  show "\<exists>p. choosePayloadContent E s n = Ok (Some p)"
  proof (cases "fullNode s n")
    case (Some fn)
    obtain b where "shouldExtendPayload E s (Some fn) = Ok b" using shouldExtendPayload_total[OF assms(3)] by blast
    then show ?thesis using en cur Some by (simp add: choosePayloadContent_def)
  qed (simp add: choosePayloadContent_def en)
qed

lemma best_node_spec:
  assumes "maps_ok s" "children_ok s" "choice_ok E s" "in_tree s m" "choosePayloadContent E s m = Ok (Some p)"
  shows "case best_node E je ce s m of
      Some d \<Rightarrow> desc s m d \<and> m \<noteq> d \<and> viableForHead (node_at s d) je ce \<and> best_node E je ce s d = None \<and>
        (\<exists>b \<in> set (p_children (pnode_at s p)). d = tip_below (best_node E je ce s) b \<and>
           (\<forall>c \<in> set (p_children (pnode_at s p)). viable_tip (best_node E je ce s) s je ce c \<longrightarrow> beats s b c))
    | None \<Rightarrow> child_nodes s m = [] \<or>
        (\<forall>c \<in> set (p_children (pnode_at s p)). \<not> viable_tip (best_node E je ce s) s je ce c)"
proof -
  let ?g = "best_node E je ce s" and ?cs = "p_children (pnode_at s p)"
  let ?lead = "viable_tip ?g s je ce"
  note unf = best_node_unfold[OF assms, of je ce]
  have bp: "best_pnode E je ce s p = map_option (tip_below ?g) (best_child ?lead s ?cs)"
    by (simp add: best_pnode_def best_below_def)
  show ?thesis
  proof (cases "?g m")
    case None
    then have "child_nodes s m = [] \<or> best_child ?lead s ?cs = None"
      using unf bp by (simp split: if_splits)
    then show ?thesis using None by (simp add: best_child_None_iff)
  next
    case (Some d)
    then have "best_pnode E je ce s p = Some d" using unf by (simp split: if_splits)
    then obtain b where b: "best_child ?lead s ?cs = Some b" "d = tip_below ?g b" using bp by auto
    then have "b \<in> set ?cs" "\<forall>c \<in> set ?cs. ?lead c \<longrightarrow> beats s b c"
      using best_child_set[OF b(1)] best_child_max[OF b(1)] by blast+
    then show ?thesis using best_node_tip[OF assms(1-4) Some] b(2) Some by auto
  qed
qed

section \<open>Properties\<close>

text \<open>C2: On a well-formed store, the recursion of \<open>Head\<close> that starts at the tree root returns and changes
  nothing but best descendants. Afterwards the best descendant of a node is a proper descendant
  that is viable for head and a tip, and it is reached through the child that, among the children
  of the chosen payload node that lead to a viable head, has the largest weight, with ties broken
  by the larger root. A node has no best descendant exactly when it has no children or none of
  those children leads to a viable head.\<close>

theorem best_descendants_heaviest_viable:
  assumes "tree_ok s" "SlotDuration (fc_cfg E) \<noteq> 0" "boost_ok s" "\<not> fc_ctxErr E" "treeRootNode s = Some root"
  shows "\<exists>t. updateBestDescendantConsensusNode E je ce (tree_fuel s) root s = (Ok (), t) \<and>
    erase_best t = erase_best s \<and>
    (\<forall>m. desc s root m \<longrightarrow> (\<exists>p. choosePayloadContent E s m = Ok (Some p) \<and>
       (let best = \<lambda>n. n_bestDescendant (node_at t n);
            viable = \<lambda>c. viableForHead (node_at s (tip_below best c)) je ce
        in case best m of
             Some d \<Rightarrow> desc s m d \<and> m \<noteq> d \<and> viableForHead (node_at s d) je ce \<and> best d = None \<and>
               (\<exists>b \<in> set (p_children (pnode_at s p)). d = tip_below best b \<and>
                  (\<forall>c \<in> set (p_children (pnode_at s p)). viable c \<longrightarrow> beats s b c))
           | None \<Rightarrow> child_nodes s m = [] \<or> (\<forall>c \<in> set (p_children (pnode_at s p)). \<not> viable c))))"
proof -
  have ok: "maps_ok s" "children_ok s" and root: "in_tree s root"
    using assms(1,5) by (auto simp: tree_ok_def root_ok_def)
  note ch = choice_okI[OF assms(1-3)]
  let ?g = "best_node E je ce s"
  obtain t where t: "updateBestDescendantConsensusNode E je ce (tree_fuel s) root s = (Ok (), t)"
      "erase_best t = erase_best s" "\<And>m. desc s root m \<Longrightarrow> n_bestDescendant (node_at t m) = ?g m"
    using updateBestDescendant_correct[OF assms(1) ch assms(4) root] by blast
  show ?thesis
  proof (intro exI[of _ t] conjI t(1,2) allI impI)
    fix m assume m: "desc s root m"
    have mt: "in_tree s m" using desc_in_tree[OF m ok root] by simp
    obtain p where p: "choosePayloadContent E s m = Ok (Some p)" using ch mt by (auto simp: choice_ok_def)
    have tip: "tip_below (\<lambda>n. n_bestDescendant (node_at t n)) c = tip_below ?g c"
      if "c \<in> set (p_children (pnode_at s p))" for c
    proof -
      have "c \<in> set (child_nodes s m)" using choosePayloadContent_cases[OF p] that by (auto simp: child_nodes_def)
      then show ?thesis using t(3)[OF desc_trans[OF m desc_child[OF _ desc_refl]]] by (simp add: tip_below_def)
    qed
    have "n_bestDescendant (node_at t d) = ?g d" if "desc s m d" for d using t(3)[OF desc_trans[OF m that]] .
    then show "\<exists>p. choosePayloadContent E s m = Ok (Some p) \<and>
       (let best = \<lambda>n. n_bestDescendant (node_at t n);
            viable = \<lambda>c. viableForHead (node_at s (tip_below best c)) je ce
        in case best m of
             Some d \<Rightarrow> desc s m d \<and> m \<noteq> d \<and> viableForHead (node_at s d) je ce \<and> best d = None \<and>
               (\<exists>b \<in> set (p_children (pnode_at s p)). d = tip_below best b \<and>
                  (\<forall>c \<in> set (p_children (pnode_at s p)). viable c \<longrightarrow> beats s b c))
           | None \<Rightarrow> child_nodes s m = [] \<or> (\<forall>c \<in> set (p_children (pnode_at s p)). \<not> viable c))"
      using p best_node_spec[OF ok ch mt p, of je ce] t(3)[OF m] tip
      by (intro exI[of _ p]) (auto simp: viable_tip_def Let_def split: option.splits)
  qed
qed

theorem best_descendants_witness:
  "\<exists>t. updateBestDescendantConsensusNode example_env 0 0 (tree_fuel example_store) 0 example_store = (Ok (), t) \<and>
    n_bestDescendant (node_at t 0) \<noteq> None"
proof -
  have hyps: "SlotDuration (fc_cfg example_env) \<noteq> 0" "boost_ok example_store" "\<not> fc_ctxErr example_env"
    "treeRootNode example_store = Some 0"
    by (simp_all add: example_env_def mainnet_SlotDuration boost_ok_def example_store_def new_store_def)
  have kids: "emptyNode example_store 0 = Some 0" "fullNode example_store 0 = Some 1"
    by (simp_all add: emptyNode_def fullNode_def)
  have cur: "store_currentSlot example_env example_store = Ok 2"
    by (simp add: store_currentSlot_def CurrentSlot_def At_def slot_of_duration_def example_env_def
        mainnet_SlotDuration example_store_def new_store_def time_Sub_def MinInt_def MaxInt_def
        Second_def Millisecond_def)
  have choice: "choosePayloadContent example_env example_store 0 = Ok (Some 1)"
    by (simp add: choosePayloadContent_def kids cur) (simp add: example_node_def example_pnode_def)
  show ?thesis
    using best_descendants_heaviest_viable[OF example_tree_ok hyps, of 0 0] desc_refl[of example_store 0] choice kids
    by (fastforce simp: viableForHead_def child_nodes_def Let_def split: option.splits)
qed

end
