(* ===== verification/Forkchoice_Votes.thy ===== *)
theory Forkchoice_Votes
  imports Forkchoice_Example
begin

text \<open>
  The accounting of votes. A vote points at a place of the tree, a consensus node or one of its
  payload nodes. The ledger invariant says that the balance of every place is the total balance of
  the unslashed validators whose current vote points there, plus what other parts of the store
  have put there (the proposer boost). \<open>updateBalances\<close> and \<open>InsertSlashedIndex\<close> keep the ledger, and
  \<open>ProcessAttestation\<close> keeps what they rely on.
\<close>

section \<open>Places and votes\<close>

datatype place = AtNode nref | AtPayload pref

definition place_balance :: "store \<Rightarrow> place \<Rightarrow> u64" where
  "place_balance s l = (case l of AtNode n \<Rightarrow> n_balance (node_at s n) | AtPayload p \<Rightarrow> p_balance (pnode_at s p))"

definition place_ok :: "store \<Rightarrow> place \<Rightarrow> bool" where
  "place_ok s l \<longleftrightarrow> (case l of AtNode n \<Rightarrow> n < length (nodes s) | AtPayload p \<Rightarrow> p < length (pnodes s))"

definition target_place :: "store \<Rightarrow> pref option \<times> bool \<Rightarrow> place option" where
  "target_place s tgt = map_option (\<lambda>p. if snd tgt then AtNode (p_node (pnode_at s p)) else AtPayload p) (fst tgt)"

text \<open>Where a vote for a root, a slot and a payload status points; votes for the zero hash point nowhere.\<close>

definition vote_place :: "store \<Rightarrow> root \<Rightarrow> slot \<Rightarrow> bool \<Rightarrow> place option" where
  "vote_place s r sl st = (if r = ZeroHash then None else target_place s (resolveVoteNode s r sl st))"

definition current_place :: "store \<Rightarrow> vote \<Rightarrow> place option" where
  "current_place s v = vote_place s (currentRoot v) (currentSlot v) (currentPayloadStatus v)"

definition next_place :: "store \<Rightarrow> vote \<Rightarrow> place option" where
  "next_place s v = vote_place s (nextRoot v) (nextSlot v) (nextPayloadStatus v)"

definition share :: "place option \<Rightarrow> u64 \<Rightarrow> place \<Rightarrow> nat" where
  "share po amount l = (if po = Some l then unat amount else 0)"

definition slashed :: "fork_choice \<Rightarrow> nat \<Rightarrow> bool" where
  "slashed f i \<longleftrightarrow> slashedIndices (fc_store f) (of_nat i)"

definition voted :: "fork_choice \<Rightarrow> nat \<Rightarrow> place \<Rightarrow> nat" where
  "voted f i l = (if slashed f i then 0
     else share (current_place (fc_store f) (fc_votes f ! i)) (balance_of (fc_balances f) i) l)"

definition ledger_ok :: "(place \<Rightarrow> nat) \<Rightarrow> fork_choice \<Rightarrow> bool" where
  "ledger_ok extra f \<longleftrightarrow>
     (\<forall>l. place_ok (fc_store f) l \<longrightarrow>
        unat (place_balance (fc_store f) l) = extra l + (\<Sum>i < length (fc_votes f). voted f i l))"

text \<open>A vote that has not moved to another slot has not changed.\<close>

definition settled :: "vote \<Rightarrow> bool" where
  "settled v \<longleftrightarrow> (currentSlot v = nextSlot v \<longrightarrow>
     currentRoot v = nextRoot v \<and> currentPayloadStatus v = nextPayloadStatus v)"

section \<open>What an update of balances leaves alone\<close>

definition erase_balances :: "store \<Rightarrow> store" where
  "erase_balances s = s\<lparr>nodes := map (\<lambda>x. x\<lparr>n_balance := 0\<rparr>) (nodes s),
     pnodes := map (\<lambda>x. x\<lparr>p_balance := 0\<rparr>) (pnodes s)\<rparr>"

lemma erase_balances_upd:
  "erase_balances (upd_node n (\<lambda>x. x\<lparr>n_balance := w x\<rparr>) s) = erase_balances s"
  "erase_balances (upd_pnode p (\<lambda>x. x\<lparr>p_balance := v x\<rparr>) s) = erase_balances s"
  by (simp_all add: erase_balances_def upd_node_def upd_pnode_def map_update)
    (cases "n < length (nodes s)"; simp add: list_update_beyond list_update_same_conv
     | cases "p < length (pnodes s)"; simp add: list_update_beyond list_update_same_conv)+

lemma erase_balancesD:
  assumes "erase_balances s = erase_balances t"
  shows "length (nodes s) = length (nodes t)" "length (pnodes s) = length (pnodes t)"
    "emptyNodeByRoot s = emptyNodeByRoot t" "fullNodeByRoot s = fullNodeByRoot t"
    "slashedIndices s = slashedIndices t"
    "n < length (nodes t) \<Longrightarrow> (node_at s n)\<lparr>n_balance := 0\<rparr> = (node_at t n)\<lparr>n_balance := 0\<rparr>"
    "p < length (pnodes t) \<Longrightarrow> (pnode_at s p)\<lparr>p_balance := 0\<rparr> = (pnode_at t p)\<lparr>p_balance := 0\<rparr>"
proof -
  note eqs = arg_cong[OF assms, of nodes] arg_cong[OF assms, of pnodes] arg_cong[OF assms, of emptyNodeByRoot]
    arg_cong[OF assms, of fullNodeByRoot] arg_cong[OF assms, of slashedIndices]
  note eqs = eqs[unfolded erase_balances_def, simplified]
  show len: "length (nodes s) = length (nodes t)" "length (pnodes s) = length (pnodes t)"
    using map_eq_imp_length_eq[OF eqs(1)] map_eq_imp_length_eq[OF eqs(2)] by simp_all
  show "emptyNodeByRoot s = emptyNodeByRoot t" "fullNodeByRoot s = fullNodeByRoot t"
    "slashedIndices s = slashedIndices t" using eqs by simp_all
  show "n < length (nodes t) \<Longrightarrow> (node_at s n)\<lparr>n_balance := 0\<rparr> = (node_at t n)\<lparr>n_balance := 0\<rparr>"
    using arg_cong[OF eqs(1), of "\<lambda>l. l ! n"] len by (simp add: node_at_def)
  show "p < length (pnodes t) \<Longrightarrow> (pnode_at s p)\<lparr>p_balance := 0\<rparr> = (pnode_at t p)\<lparr>p_balance := 0\<rparr>"
    using arg_cong[OF eqs(2), of "\<lambda>l. l ! p"] len by (simp add: pnode_at_def)
qed

lemma erase_balances_fields:
  assumes "erase_balances s = erase_balances t"
  shows "p < length (pnodes t) \<Longrightarrow> p_node (pnode_at s p) = p_node (pnode_at t p)"
    "n < length (nodes t) \<Longrightarrow> n_slot (node_at s n) = n_slot (node_at t n)"
  using erase_balancesD(6)[OF assms, of n, THEN arg_cong[where f = n_slot]]
    erase_balancesD(7)[OF assms, of p, THEN arg_cong[where f = p_node]] by auto

lemma resolveVoteNode_cong:
  assumes "erase_balances s = erase_balances t" "maps_ok t"
  shows "resolveVoteNode s r sl st = resolveVoteNode t r sl st"
  using erase_balancesD(3,4)[OF assms(1)] erase_balances_fields[OF assms(1)] maps_okD(1,3)[OF assms(2)]
  by (auto simp: resolveVoteNode_def split: option.splits)

lemma resolveVoteNode_range:
  assumes "maps_ok s" "resolveVoteNode s r sl st = (Some p, pending)"
  shows "p < length (pnodes s)" "p_node (pnode_at s p) < length (nodes s)"
  using assms maps_okD(1,3)[OF assms(1)] maps_ok_fullD[OF assms(1)]
  by (auto simp: resolveVoteNode_def split: option.splits if_splits) metis

lemma vote_place_cong:
  assumes "erase_balances s = erase_balances t" "maps_ok t"
  shows "vote_place s r sl st = vote_place t r sl st"
proof -
  have "target_place s (resolveVoteNode t r sl st) = target_place t (resolveVoteNode t r sl st)"
    using resolveVoteNode_range(1)[OF assms(2), of r sl st] erase_balances_fields(1)[OF assms(1)]
    by (cases "resolveVoteNode t r sl st"; cases "fst (resolveVoteNode t r sl st)") (auto simp: target_place_def)
  then show ?thesis by (simp add: vote_place_def resolveVoteNode_cong[OF assms])
qed

lemma place_ok_cong: "erase_balances s = erase_balances t \<Longrightarrow> place_ok s l = place_ok t l"
  by (simp add: place_ok_def erase_balancesD(1,2)[of s t] split: place.split)

section \<open>Crediting and debiting\<close>

lemma credit_spec:
  assumes "maps_ok s" and "place_ok s l" and "unat (place_balance s l) + unat amount < 2 ^ 64"
  shows "unat (place_balance (credit (resolveVoteNode s r sl st) amount s) l) =
    unat (place_balance s l) + share (target_place s (resolveVoteNode s r sl st)) amount l"
  using assms resolveVoteNode_range[OF assms(1), of r sl st]
  by (cases "resolveVoteNode s r sl st"; cases "fst (resolveVoteNode s r sl st)"; cases l)
    (auto simp: credit_def share_def target_place_def place_balance_def node_at_upd_node
      pnode_at_upd_pnode unat_add_u64)

lemma debit_spec:
  assumes "maps_ok s" and "place_ok s l"
    and "share (target_place s (resolveVoteNode s r sl st)) amount l \<le> unat (place_balance s l)"
  shows "unat (place_balance (debit (resolveVoteNode s r sl st) amount s) l) =
    unat (place_balance s l) - share (target_place s (resolveVoteNode s r sl st)) amount l"
  using assms resolveVoteNode_range[OF assms(1), of r sl st]
  by (cases "resolveVoteNode s r sl st"; cases "fst (resolveVoteNode s r sl st)"; cases l)
    (auto simp: debit_def share_def target_place_def place_balance_def node_at_upd_node
      pnode_at_upd_pnode sub_clamped_def unat_sub_u64 word_less_nat_alt word_le_nat_alt)

lemma erase_credit: "erase_balances (credit tgt amount s) = erase_balances s"
  by (simp add: credit_def erase_balances_upd split: option.split)

lemma erase_debit: "erase_balances (debit tgt amount s) = erase_balances s"
  by (simp add: debit_def erase_balances_upd split: option.split)

lemma erase_balances_skeleton: "erase_balances s = erase_balances t \<Longrightarrow> skeleton s = skeleton t"
proof -
  have "skeleton s = skeleton (erase_balances s)" for s
    by (simp add: skeleton_def erase_balances_def o_def)
  then show "erase_balances s = erase_balances t \<Longrightarrow> skeleton s = skeleton t" by metis
qed

lemma erase_move_balance: "erase_balances (move_balance v old new s) = erase_balances s"
  by (simp add: move_balance_def Let_def erase_credit erase_debit)

text \<open>Moving a vote takes the old balance from the current place and gives the new one to the next.\<close>

lemma move_balance_spec:
  assumes "maps_ok s" "settled v" "place_ok s l"
    and "unat (place_balance s l) + unat new < 2 ^ 64"
    and "share (current_place s v) old l \<le> unat (place_balance s l)"
  shows "unat (place_balance (move_balance v old new s) l) + share (current_place s v) old l =
    unat (place_balance s l) + share (next_place s v) new l"
proof (cases "old \<noteq> new \<or> currentSlot v \<noteq> nextSlot v")
  case False
  then have "current_place s v = next_place s v"
    using assms(2) by (simp add: settled_def current_place_def next_place_def)
  with False show ?thesis by (simp add: move_balance_def)
next
  case True
  define s1 where "s1 = (if nextRoot v \<noteq> ZeroHash
    then credit (resolveVoteNode s (nextRoot v) (nextSlot v) (nextPayloadStatus v)) new s else s)"
  have e1: "erase_balances s1 = erase_balances s" by (simp add: s1_def erase_credit)
  have ok1: "maps_ok s1" "place_ok s1 l"
    using skeleton_maps_ok[OF erase_balances_skeleton[OF e1] assms(1)] place_ok_cong[OF e1] assms(3) by simp_all
  have b1: "unat (place_balance s1 l) = unat (place_balance s l) + share (next_place s v) new l"
    using credit_spec[OF assms(1,3,4)] by (simp add: s1_def next_place_def vote_place_def share_def)
  have cur: "current_place s1 v = current_place s v"
    by (simp add: current_place_def vote_place_cong[OF e1 assms(1)])
  show ?thesis
  proof (cases "currentRoot v = ZeroHash")
    case z: True
    with True b1 show ?thesis
      by (simp add: move_balance_def s1_def[symmetric] current_place_def vote_place_def share_def)
  next
    case nz: False
    let ?r = "resolveVoteNode s1 (currentRoot v) (currentSlot v) (currentPayloadStatus v)"
    have tp: "target_place s1 ?r = current_place s v" using cur nz by (simp add: current_place_def vote_place_def)
    have "share (target_place s1 ?r) old l \<le> unat (place_balance s1 l)" using assms(5) b1 tp by simp
    from debit_spec[OF ok1 this] show ?thesis
      using True nz b1 tp assms(5) by (simp add: move_balance_def s1_def[symmetric])
  qed
qed

section \<open>The loop of \<open>updateBalances\<close>\<close>

text \<open>The amount a validator puts on a place after the loop has passed it.\<close>

definition voting :: "fork_choice \<Rightarrow> nat \<Rightarrow> place \<Rightarrow> nat" where
  "voting f i l = (if slashed f i then 0
     else share (next_place (fc_store f) (fc_votes f ! i)) (balance_of (fc_justifiedBalances f) i) l)"

definition loop_ok :: "(place \<Rightarrow> nat) \<Rightarrow> fork_choice \<Rightarrow> nat \<Rightarrow> fork_choice \<Rightarrow> bool" where
  "loop_ok extra f k g \<longleftrightarrow>
     erase_balances (fc_store g) = erase_balances (fc_store f) \<and>
     fc_balances g = fc_balances f \<and> fc_justifiedBalances g = fc_justifiedBalances f \<and>
     length (fc_votes g) = length (fc_votes f) \<and>
     (\<forall>i. k \<le> i \<longrightarrow> i < length (fc_votes f) \<longrightarrow> fc_votes g ! i = fc_votes f ! i) \<and>
     (\<forall>i < k. \<not> slashed f i \<longrightarrow> current_place (fc_store f) (fc_votes g ! i) = next_place (fc_store f) (fc_votes f ! i)) \<and>
     (\<forall>l. place_ok (fc_store f) l \<longrightarrow> unat (place_balance (fc_store g) l) =
        extra l + (\<Sum>i < k. voting f i l) + (\<Sum>i = k..<length (fc_votes f). voted f i l))"

lemma share_le: "share po a l \<le> unat a"
  by (simp add: share_def)

lemma voting_le: "voting f i l \<le> unat (balance_of (fc_justifiedBalances f) i)"
  by (simp add: voting_def share_le)

lemma voted_le: "voted f i l \<le> unat (balance_of (fc_balances f) i)"
  by (simp add: voted_def share_le)

text \<open>No place can overflow: the extra amounts and all balances, old and new, fit in 64 bits.\<close>

definition funds_ok :: "(place \<Rightarrow> nat) \<Rightarrow> fork_choice \<Rightarrow> bool" where
  "funds_ok extra f \<longleftrightarrow> (\<forall>l. extra l +
     (\<Sum>i < length (fc_votes f). unat (balance_of (fc_balances f) i)) +
     (\<Sum>i < length (fc_votes f). unat (balance_of (fc_justifiedBalances f) i)) < 2 ^ 64)"

lemma loop_funds:
  assumes "funds_ok extra f" "loop_ok extra f k g" "k < length (fc_votes f)" "place_ok (fc_store f) l"
  shows "unat (place_balance (fc_store g) l) + unat (balance_of (fc_justifiedBalances f) k) < 2 ^ 64"
proof -
  let ?N = "length (fc_votes f)"
  let ?new = "\<lambda>i. unat (balance_of (fc_justifiedBalances f) i)" and ?old = "\<lambda>i. unat (balance_of (fc_balances f) i)"
  have "(\<Sum>i < k. voting f i l) + ?new k \<le> (\<Sum>i < Suc k. ?new i)"
    by (simp add: sum_mono voting_le)
  also have "\<dots> \<le> (\<Sum>i < ?N. ?new i)" using assms(3) by (intro sum_mono2) auto
  finally have 1: "(\<Sum>i < k. voting f i l) + ?new k \<le> (\<Sum>i < ?N. ?new i)" .
  have "(\<Sum>i = k..<?N. voted f i l) \<le> (\<Sum>i = k..<?N. ?old i)" by (simp add: sum_mono voted_le)
  also have "\<dots> \<le> (\<Sum>i < ?N. ?old i)" by (intro sum_mono2) auto
  finally have 2: "(\<Sum>i = k..<?N. voted f i l) \<le> (\<Sum>i < ?N. ?old i)" .
  have "unat (place_balance (fc_store g) l) = extra l + (\<Sum>i < k. voting f i l) + (\<Sum>i = k..<?N. voted f i l)"
    using assms(2,4) by (simp add: loop_ok_def)
  moreover have "extra l + (\<Sum>i < ?N. ?old i) + (\<Sum>i < ?N. ?new i) < 2 ^ 64"
    using assms(1) unfolding funds_ok_def by blast
  ultimately show ?thesis using 1 2 by linarith
qed

lemma loop_step:
  assumes "maps_ok (fc_store f)" "funds_ok extra f" "settled (fc_votes f ! k)"
    and "loop_ok extra f k g" "k < length (fc_votes f)"
  shows "loop_ok extra f (Suc k) (update_balance k g)"
proof -
  let ?v = "fc_votes f ! k" and ?s = "fc_store g" and ?base = "fc_store f" and ?N = "length (fc_votes f)"
  let ?old = "balance_of (fc_balances f) k" and ?new = "balance_of (fc_justifiedBalances f) k"
  note g = assms(4)[unfolded loop_ok_def]
  have e: "erase_balances ?s = erase_balances ?base" and v: "fc_votes g ! k = ?v" using g assms(5) by auto
  have sl: "slashedIndices ?s (of_nat k) = slashed f k"
    using erase_balancesD(5)[OF e] by (simp add: slashed_def)
  have places: "current_place ?s w = current_place ?base w" "next_place ?s w = next_place ?base w" for w
    by (simp_all add: current_place_def next_place_def vote_place_cong[OF e assms(1)])
  have sums: "(\<Sum>i < Suc k. voting f i l) = (\<Sum>i < k. voting f i l) + voting f k l"
    "(\<Sum>i = k..<?N. voted f i l) = voted f k l + (\<Sum>i = Suc k..<?N. voted f i l)" for l
    using assms(5) by (simp_all add: sum.atLeast_Suc_lessThan)
  have less: "i < Suc k \<longleftrightarrow> i < k \<or> i = k" for i by auto
  consider (skip) "slashed f k \<or> currentRoot ?v = ZeroHash \<and> nextRoot ?v = ZeroHash"
    | (move) "\<not> slashed f k" "\<not> (currentRoot ?v = ZeroHash \<and> nextRoot ?v = ZeroHash)" by blast
  then show ?thesis
  proof cases
    case skip
    then have "update_balance k g = g" using sl v by (auto simp: update_balance_def Let_def)
    moreover have "voted f k l = 0" "voting f k l = 0" for l
      using skip by (auto simp: voted_def voting_def current_place_def next_place_def vote_place_def share_def)
    moreover have "\<not> slashed f k \<Longrightarrow> current_place ?base ?v = next_place ?base ?v"
      using skip by (simp add: current_place_def next_place_def vote_place_def)
    ultimately show ?thesis using g v by (auto simp: loop_ok_def less sums simp del: sum.lessThan_Suc)
  next
    case move
    let ?t = "move_balance ?v ?old ?new ?s"
    have upd: "update_balance k g = g\<lparr>fc_store := ?t, fc_votes := (fc_votes g)[k := rotate_vote ?v]\<rparr>"
      using move sl v g by (auto simp: update_balance_def Let_def)
    have maps: "maps_ok ?s" using skeleton_maps_ok[OF erase_balances_skeleton[OF e] assms(1)] .
    have "unat (place_balance ?t l) = extra l + (\<Sum>i < Suc k. voting f i l) + (\<Sum>i = Suc k..<?N. voted f i l)"
      if l: "place_ok ?base l" for l
    proof -
      have bal: "unat (place_balance ?s l) = extra l + (\<Sum>i < k. voting f i l) + (\<Sum>i = k..<?N. voted f i l)"
        using g l by simp
      have cur: "share (current_place ?s ?v) ?old l = voted f k l"
        and nxt: "share (next_place ?s ?v) ?new l = voting f k l"
        using move by (simp_all add: voted_def voting_def places)
      have "share (current_place ?s ?v) ?old l \<le> unat (place_balance ?s l)" using bal cur sums(2)[of l] by simp
      from move_balance_spec[OF maps assms(3) _ loop_funds[OF assms(2,4,5) l] this] l
      show ?thesis using bal cur nxt sums(1,2)[of l] place_ok_cong[OF e] by simp
    qed
    moreover have "current_place ?base (rotate_vote ?v) = next_place ?base ?v"
      by (simp add: current_place_def next_place_def rotate_vote_def)
    ultimately show ?thesis using g assms(5) e unfolding upd loop_ok_def
      by (auto simp: less erase_move_balance nth_list_update simp del: sum.lessThan_Suc)
  qed
qed

lemma loop_all:
  assumes "maps_ok (fc_store f)" "funds_ok extra f" "\<forall>v \<in> set (fc_votes f). settled v" "ledger_ok extra f"
    and "k \<le> length (fc_votes f)"
  shows "loop_ok extra f k (fold update_balance [0..<k] f)"
  using assms(5)
proof (induction k)
  case 0
  then show ?case using assms(4) by (simp add: loop_ok_def ledger_ok_def lessThan_atLeast0)
next
  case (Suc k)
  then show ?case using loop_step[OF assms(1,2)] assms(3) by simp
qed

lemma updateBalances_run:
  assumes "maps_ok (fc_store f)" "funds_ok extra f" "\<forall>v \<in> set (fc_votes f). settled v" "ledger_ok extra f"
  shows "ledger_ok extra (updateBalances f) \<and>
    erase_balances (fc_store (updateBalances f)) = erase_balances (fc_store f) \<and>
    fc_balances (updateBalances f) = fc_justifiedBalances f \<and>
    (\<forall>i < length (fc_votes f). \<not> slashed f i \<longrightarrow>
       current_place (fc_store f) (fc_votes (updateBalances f) ! i) = next_place (fc_store f) (fc_votes f ! i))"
proof -
  let ?N = "length (fc_votes f)" and ?u = "updateBalances f"
  define g where "g = fold update_balance [0..<?N] f"
  have u: "?u = g\<lparr>fc_balances := fc_justifiedBalances g\<rparr>"
    by (simp add: updateBalances_def g_def Let_def)
  have "loop_ok extra f ?N g" unfolding g_def by (rule loop_all[OF assms]) simp
  then have e: "erase_balances (fc_store g) = erase_balances (fc_store f)"
    and frame: "fc_justifiedBalances g = fc_justifiedBalances f" "length (fc_votes g) = ?N"
    and places: "\<forall>i < ?N. \<not> slashed f i \<longrightarrow>
      current_place (fc_store f) (fc_votes g ! i) = next_place (fc_store f) (fc_votes f ! i)"
    and bal: "\<And>l. place_ok (fc_store f) l \<Longrightarrow>
      unat (place_balance (fc_store g) l) = extra l + (\<Sum>i < ?N. voting f i l)"
    by (simp_all add: loop_ok_def)
  have "voted ?u i l = voting f i l" if "i < ?N" for i l
    using places that erase_balancesD(5)[OF e]
    by (simp add: u voted_def voting_def slashed_def frame current_place_def vote_place_cong[OF e assms(1)])
  then have "ledger_ok extra ?u"
    using bal by (simp add: ledger_ok_def u frame place_ok_cong[OF e])
  then show ?thesis using e frame places by (simp add: u)
qed

text \<open>C3: Starting from a ledger that balances, with settled votes and balances that fit in 64 bits,
  \<open>updateBalances\<close> ends with a ledger that balances for the new votes and the new balances: the
  balance of each consensus or payload node is the sum of the balances of the unslashed validators
  whose latest vote points there, plus the extra amount. It changes nothing but balances in the store.\<close>

theorem updateBalances_ledger:
  assumes "maps_ok (fc_store f)" "funds_ok extra f" "\<forall>v \<in> set (fc_votes f). settled v" "ledger_ok extra f"
  shows "ledger_ok extra (updateBalances f) \<and>
    erase_balances (fc_store (updateBalances f)) = erase_balances (fc_store f) \<and>
    fc_balances (updateBalances f) = fc_justifiedBalances f \<and>
    (\<forall>i < length (fc_votes f). \<not> slashed f i \<longrightarrow>
       current_place (fc_store f) (fc_votes (updateBalances f) ! i) = next_place (fc_store f) (fc_votes f ! i))"
  by (rule updateBalances_run[OF assms])

text \<open>A fork choice on the example store: one validator with balance 4 voted for the full payload of
  block 2, and now votes for block 1 with balance 6.\<close>

definition example_vote :: vote where
  "example_vote = \<lparr>currentRoot = 2, nextRoot = 1, nextSlot = 40, currentSlot = 3,
     nextPayloadStatus = False, currentPayloadStatus = True\<rparr>"

definition example_fc :: fork_choice where
  "example_fc = \<lparr>fc_store = example_store, fc_votes = [example_vote], fc_balances = [4],
     fc_justifiedBalances = [6], fc_balancesByRoot = (\<lambda>_. Ok [6])\<rparr>"

definition example_extra :: "place \<Rightarrow> nat" where
  "example_extra l = (case l of
     AtNode n \<Rightarrow> if n = 0 then 5 else if n = 1 then 7 else 0
   | AtPayload p \<Rightarrow> if p = 0 then 1 else if p = 1 then 2 else if p = 2 then 3 else 0)"

lemma example_places:
  "current_place example_store example_vote = Some (AtPayload 3)"
  "next_place example_store example_vote = Some (AtPayload 0)"
  by (simp_all add: current_place_def next_place_def vote_place_def example_vote_def ZeroHash_def
      resolveVoteNode_def target_place_def)

lemma example_ledger:
  "maps_ok (fc_store example_fc)" "funds_ok example_extra example_fc" "ledger_ok example_extra example_fc"
  "\<forall>v \<in> set (fc_votes example_fc). settled v"
proof -
  show "maps_ok (fc_store example_fc)" using example_tree_ok by (simp add: tree_ok_def example_fc_def)
  have "example_extra l \<le> 7" for l by (simp add: example_extra_def split: place.split)
  then have "example_extra l + 10 < 2 ^ 64" for l using le_less_trans[of "example_extra l + 10" 17 "2 ^ 64"] by simp
  then show "funds_ok example_extra example_fc" by (simp add: funds_ok_def example_fc_def balance_of_def)
  have four: "p < 4 \<longleftrightarrow> p = 0 \<or> p = 1 \<or> p = 2 \<or> p = 3" and two: "p < 2 \<longleftrightarrow> p = 0 \<or> p = 1" for p :: nat by auto
  have "\<not> slashedIndices example_store 0" by (simp add: example_store_def new_store_def)
  then show "ledger_ok example_extra example_fc"
    by (auto simp: ledger_ok_def example_fc_def place_ok_def place_balance_def voted_def slashed_def share_def
        example_places example_extra_def balance_of_def four two split: place.splits)
  show "\<forall>v \<in> set (fc_votes example_fc). settled v"
    by (simp add: example_fc_def example_vote_def settled_def)
qed

theorem updateBalances_witness:
  "ledger_ok example_extra (updateBalances example_fc) \<and>
   current_place example_store (fc_votes (updateBalances example_fc) ! 0) = Some (AtPayload 0)"
proof -
  have "\<not> slashed example_fc 0" "length (fc_votes example_fc) = 1" "fc_votes example_fc ! 0 = example_vote"
    "fc_store example_fc = example_store"
    by (simp_all add: slashed_def example_fc_def example_store_def new_store_def)
  then show ?thesis using updateBalances_ledger[OF example_ledger(1,2,4,3)] by (simp add: example_places)
qed

section \<open>Slashed validators\<close>

lemma slashed_frame:
  "node_at (s\<lparr>slashedIndices := x\<rparr>) n = node_at s n" "pnode_at (s\<lparr>slashedIndices := x\<rparr>) p = pnode_at s p"
  "resolveVoteNode (s\<lparr>slashedIndices := x\<rparr>) r sl st = resolveVoteNode s r sl st"
  "target_place (s\<lparr>slashedIndices := x\<rparr>) tgt = target_place s tgt"
  "place_ok (s\<lparr>slashedIndices := x\<rparr>) l = place_ok s l"
  "place_balance (s\<lparr>slashedIndices := x\<rparr>) l = place_balance s l"
  by (simp_all add: node_at_def pnode_at_def resolveVoteNode_def target_place_def place_ok_def place_balance_def
      cong: if_cong split: option.splits place.splits)

lemma voted_slash:
  assumes "i < length (fc_votes f)" "length (fc_votes f) \<le> 2 ^ 64"
    and "fc_votes g = fc_votes f" "fc_balances g = fc_balances f"
    and "erase_balances (fc_store g) = erase_balances ((fc_store f)\<lparr>slashedIndices := (slashedIndices (fc_store f))(index := True)\<rparr>)"
    and "maps_ok (fc_store f)"
  shows "voted g i l = (if i = unat index then 0 else voted f i l)"
proof -
  let ?m = "(fc_store f)\<lparr>slashedIndices := (slashedIndices (fc_store f))(index := True)\<rparr>"
  have "i < 2 ^ 64" using assms(1,2) by linarith
  then have idx: "(of_nat i :: u64) = index \<longleftrightarrow> i = unat index" by (auto simp: unat_of_nat_u64)
  have sl: "slashed g i \<longleftrightarrow> slashed f i \<or> i = unat index"
    using erase_balancesD(5)[OF assms(5)] idx by (auto simp: slashed_def)
  have sk: "skeleton ?m = skeleton (fc_store f)" by (simp add: skeleton_def)
  have "current_place (fc_store g) v = current_place ?m v" for v
    by (simp add: current_place_def vote_place_cong[OF assms(5) skeleton_maps_ok[OF sk assms(6)]])
  also have "current_place ?m v = current_place (fc_store f) v" for v
    by (simp add: current_place_def vote_place_def slashed_frame)
  finally show ?thesis using assms(3,4) sl by (simp add: voted_def)
qed

text \<open>C8: Marking a validator as slashed takes exactly its balance away from the place its current vote
  points at, so the ledger still balances, and the validator no longer counts.\<close>

theorem InsertSlashedIndex_ledger:
  assumes "maps_ok (fc_store f)" "ledger_ok extra f" "emptyNodeByRoot (fc_store f) ZeroHash = None"
    and "length (fc_votes f) \<le> 2 ^ 64"
  shows "ledger_ok extra (InsertSlashedIndex index f) \<and> slashedIndices (fc_store (InsertSlashedIndex index f)) index"
proof (cases "slashedIndices (fc_store f) index")
  case True
  then show ?thesis using assms(2) by (simp add: InsertSlashedIndex_def)
next
  case False
  let ?N = "length (fc_votes f)" and ?i = "unat index"
  let ?m = "(fc_store f)\<lparr>slashedIndices := (slashedIndices (fc_store f))(index := True)\<rparr>"
  define g where "g = InsertSlashedIndex index f"
  have sk: "maps_ok ?m" by (rule skeleton_maps_ok[OF _ assms(1)]) (simp add: skeleton_def)
  have e: "erase_balances (fc_store g) = erase_balances ?m" and fr: "fc_votes g = fc_votes f" "fc_balances g = fc_balances f"
    using False by (simp_all add: g_def InsertSlashedIndex_def Let_def upd_store_def erase_debit)
  note voted = voted_slash[OF _ assms(4) fr e assms(1)]
  have "unat (place_balance (fc_store g) l) = extra l + (\<Sum>i < ?N. voted g i l)" if l: "place_ok (fc_store f) l" for l
  proof -
    have bal: "unat (place_balance (fc_store f) l) = extra l + (\<Sum>i < ?N. voted f i l)"
      using assms(2) l by (simp add: ledger_ok_def)
    show ?thesis
    proof (cases "?i < ?N \<and> ?i < length (fc_balances f)")
      case False
      then have "voted g i l = voted f i l" if "i < ?N" for i
        using that voted_le[of f ?i l] by (cases "i = ?i") (auto simp: voted balance_of_def split: if_splits)
      moreover have "fc_store g = ?m"
        using False \<open>\<not> slashedIndices _ _\<close> by (auto simp: g_def InsertSlashedIndex_def Let_def upd_store_def)
      ultimately show ?thesis using bal by (simp add: slashed_frame)
    next
      case True
      let ?v = "fc_votes f ! ?i" and ?b = "fc_balances f ! ?i"
      let ?r = "resolveVoteNode ?m (currentRoot ?v) (currentSlot ?v) (currentPayloadStatus ?v)"
      have g: "fc_store g = debit ?r ?b ?m"
        using True False by (simp add: g_def InsertSlashedIndex_def Let_def upd_store_def)
      have sum: "(\<Sum>i < ?N. voted f i l) = (\<Sum>i < ?N. voted g i l) + voted f ?i l"
        using True sum.remove[of "{..<?N}" ?i "\<lambda>i. voted f i l"] sum.remove[of "{..<?N}" ?i "\<lambda>i. voted g i l"]
        by (simp add: voted)
      have sh: "share (target_place ?m ?r) ?b l = voted f ?i l"
      proof -
        have "target_place (fc_store f) (resolveVoteNode (fc_store f) ZeroHash a b) = None" for a b
          using assms(3) by (simp add: resolveVoteNode_def target_place_def)
        then show ?thesis using True False
          by (auto simp: voted_def slashed_def current_place_def vote_place_def balance_of_def slashed_frame)
      qed
      show ?thesis using debit_spec[OF sk, of l "currentRoot ?v" "currentSlot ?v" "currentPayloadStatus ?v" ?b] bal sum sh l
        by (simp add: g slashed_frame)
    qed
  qed
  moreover have "slashedIndices (fc_store g) index" using erase_balancesD(5)[OF e] by simp
  ultimately show ?thesis
    using place_ok_cong[OF e] by (simp add: ledger_ok_def g_def[symmetric] fr slashed_frame)
qed

theorem InsertSlashedIndex_witness:
  "ledger_ok example_extra (InsertSlashedIndex 0 example_fc) \<and>
   slashedIndices (fc_store (InsertSlashedIndex 0 example_fc)) 0"
  by (rule InsertSlashedIndex_ledger[OF example_ledger(1,3)]) (simp_all add: example_fc_def ZeroHash_def)

section \<open>Attestations\<close>

text \<open>The vote of a validator, the zero vote when none is stored.\<close>

definition vote_of :: "fork_choice \<Rightarrow> nat \<Rightarrow> vote" where
  "vote_of f i = (if i < length (fc_votes f) then fc_votes f ! i else zero_vote)"

text \<open>The vote after an attestation: replaced when the epoch of the attestation is later.\<close>

definition latest_vote :: "fc_env \<Rightarrow> root \<Rightarrow> slot \<Rightarrow> bool \<Rightarrow> vote \<Rightarrow> vote" where
  "latest_vote E r sl st v =
     (if nextSlot v div SlotsPerEpoch (fc_cfg E) < sl div SlotsPerEpoch (fc_cfg E)
      then v\<lparr>nextSlot := sl, nextRoot := r, nextPayloadStatus := st\<rparr> else v)"

lemma latest_vote_idem: "latest_vote E r sl st (latest_vote E r sl st v) = latest_vote E r sl st v"
  by (simp add: latest_vote_def)

lemma vote_of_grow: "vote_of (f\<lparr>fc_votes := grow_votes i (fc_votes f)\<rparr>) j = vote_of f j"
  by (auto simp: vote_of_def grow_votes_def nth_append)

lemma attest_one_eval:
  assumes "SlotsPerEpoch (fc_cfg E) \<noteq> 0" "0 < sl div SlotsPerEpoch (fc_cfg E)"
  shows "\<exists>f'. attest_one E r sl st index f = (Ok (), f') \<and> fc_store f' = fc_store f \<and>
    fc_balances f' = fc_balances f \<and> fc_justifiedBalances f' = fc_justifiedBalances f \<and>
    (\<forall>j. vote_of f' j = (if j = unat index then latest_vote E r sl st (vote_of f j) else vote_of f j))"
proof -
  let ?i = "unat index" and ?n = "SlotsPerEpoch (fc_cfg E)"
  define g where "g = f\<lparr>fc_votes := grow_votes ?i (fc_votes f)\<rparr>"
  have len: "?i < length (fc_votes g)" by (auto simp: g_def grow_votes_def)
  have new: "nextSlot (fc_votes g ! ?i) div ?n < sl div ?n" if "?i \<ge> length (fc_votes f)"
    using that assms(2) by (simp add: g_def grow_votes_def nth_append zero_vote_def)
  have ep: "epoch_of E x = Ok (x div ?n)" for x using assms(1) by (simp add: epoch_of_def ToEpoch_eq)
  have gi: "vote_of g ?i = fc_votes g ! ?i" using len by (simp add: vote_of_def)
  have gv: "vote_of g j = vote_of f j" for j unfolding g_def by (rule vote_of_grow)
  let ?h = "g\<lparr>fc_votes := (fc_votes g)[?i := latest_vote E r sl st (fc_votes g ! ?i)]\<rparr>"
  have "attest_one E r sl st index f = (Ok (), ?h)"
    using new len by (auto simp: attest_one_def Let_def proc_simps ep g_def[symmetric] latest_vote_def)
      (auto simp: g_def)
  moreover have "vote_of ?h j = (if j = ?i then latest_vote E r sl st (vote_of f j) else vote_of f j)" for j
    using len gi by (auto simp: gv[symmetric]) (auto simp: vote_of_def nth_list_update)
  ultimately show ?thesis by (intro exI[of _ ?h]) (simp add: g_def)
qed

lemma attest_all_eval:
  assumes "SlotsPerEpoch (fc_cfg E) \<noteq> 0" "0 < sl div SlotsPerEpoch (fc_cfg E)"
  shows "\<exists>f'. for_each is (attest_one E r sl st) f = (Ok (), f') \<and> fc_store f' = fc_store f \<and>
    fc_balances f' = fc_balances f \<and> fc_justifiedBalances f' = fc_justifiedBalances f \<and>
    (\<forall>j. vote_of f' j = (if j \<in> unat ` set is then latest_vote E r sl st (vote_of f j) else vote_of f j))"
proof (induction "is" arbitrary: f)
  case Nil
  then show ?case by (simp add: proc_simps)
next
  case (Cons i "is")
  obtain g where g: "attest_one E r sl st i f = (Ok (), g)" "fc_store g = fc_store f"
    "fc_balances g = fc_balances f" "fc_justifiedBalances g = fc_justifiedBalances f"
    "\<forall>j. vote_of g j = (if j = unat i then latest_vote E r sl st (vote_of f j) else vote_of f j)"
    using attest_one_eval[OF assms] by blast
  obtain h where "for_each is (attest_one E r sl st) g = (Ok (), h)" "fc_store h = fc_store g"
    "fc_balances h = fc_balances g" "fc_justifiedBalances h = fc_justifiedBalances g"
    "\<forall>j. vote_of h j = (if j \<in> unat ` set is then latest_vote E r sl st (vote_of g j) else vote_of g j)"
    using Cons by blast
  with g show ?case by (intro exI[of _ h]) (auto simp: proc_simps latest_vote_idem)
qed

text \<open>C7: \<open>ProcessAttestation\<close> for an epoch after genesis returns, leaves the store and the balances
  alone, and replaces the pending vote of exactly the listed validators whose pending vote is from an
  earlier epoch. A payload-present vote for a Gloas block of the same slot is ignored.\<close>

theorem ProcessAttestation_latest:
  assumes "SlotsPerEpoch (fc_cfg E) \<noteq> 0" "0 < sl div SlotsPerEpoch (fc_cfg E)"
  shows "\<exists>f'. ProcessAttestation E is r sl st f = (Ok (), f') \<and> fc_store f' = fc_store f \<and>
    fc_balances f' = fc_balances f \<and> fc_justifiedBalances f' = fc_justifiedBalances f \<and>
    (\<forall>j. vote_of f' j =
      (if j \<in> unat ` set is \<and>
          \<not> (st \<and> GloasForkEpoch (fc_cfg E) \<le> sl div SlotsPerEpoch (fc_cfg E) \<and>
             (\<exists>en. emptyNodeByRoot (fc_store f) r = Some en \<and> n_slot (cnode (fc_store f) en) = sl))
       then latest_vote E r sl st (vote_of f j) else vote_of f j))"
proof -
  let ?skip = "st \<and> GloasForkEpoch (fc_cfg E) \<le> sl div SlotsPerEpoch (fc_cfg E) \<and>
    (\<exists>en. emptyNodeByRoot (fc_store f) r = Some en \<and> n_slot (cnode (fc_store f) en) = sl)"
  have "epoch_of E sl = Ok (sl div SlotsPerEpoch (fc_cfg E))"
    using assms(1) by (simp add: epoch_of_def ToEpoch_eq)
  then have "ProcessAttestation E is r sl st f = (if ?skip then ret () else for_each is (attest_one E r sl st)) f"
    by (auto simp: ProcessAttestation_def proc_simps split: option.splits)
  then show ?thesis
    using attest_all_eval[OF assms, of "is" r st f] by (cases ?skip) (auto simp: proc_simps)
qed

theorem ProcessAttestation_witness:
  "\<exists>f'. ProcessAttestation example_env [3] 2 70 False example_fc = (Ok (), f') \<and>
    vote_of f' 3 = zero_vote\<lparr>nextSlot := 70, nextRoot := 2\<rparr> \<and> vote_of f' 0 = example_vote"
proof -
  have n: "SlotsPerEpoch (fc_cfg example_env) = 32" by (simp add: example_env_def mainnetBeaconConfig_def)
  obtain f' where f': "ProcessAttestation example_env [3] 2 70 False example_fc = (Ok (), f')"
    "\<And>j. vote_of f' j = (if j = 3 then latest_vote example_env 2 70 False (vote_of example_fc j) else vote_of example_fc j)"
    using ProcessAttestation_latest[of example_env 70 "[3]" 2 False example_fc] n by auto
  moreover have "vote_of example_fc 3 = zero_vote" "vote_of example_fc 0 = example_vote"
    by (simp_all add: vote_of_def example_fc_def)
  ultimately show ?thesis by (simp add: latest_vote_def n zero_vote_def)
qed

text \<open>A vote is in order when it is settled and its current slot is not from a later epoch than its
  pending one.\<close>

definition vote_ordered :: "fc_env \<Rightarrow> vote \<Rightarrow> bool" where
  "vote_ordered E v \<longleftrightarrow> settled v \<and>
     currentSlot v div SlotsPerEpoch (fc_cfg E) \<le> nextSlot v div SlotsPerEpoch (fc_cfg E)"

lemma latest_vote_ordered: "vote_ordered E v \<Longrightarrow> vote_ordered E (latest_vote E r sl st v)"
  by (auto simp: vote_ordered_def latest_vote_def settled_def)

lemma rotate_vote_ordered: "vote_ordered E (rotate_vote v)"
  by (simp add: vote_ordered_def rotate_vote_def settled_def)

end
