(* ===== verification/Forkchoice_Ghost.thy ===== *)
theory Forkchoice_Ghost
  imports Forkchoice_Weights Forkchoice_Best Forkchoice_Votes
begin

text \<open>
  The composition of the parts of \<open>Head\<close>: with a balanced ledger, the weight of a node is the total
  balance of the unslashed validators whose latest vote lies in the subtree of the node, plus the
  proposer boost when the boosted block lies there. This is the weight of the LMD-GHOST rule.
\<close>

section \<open>Subtrees\<close>














section \<open>Weights as sums over places\<close>





section \<open>Weights as sums over votes\<close>





section \<open>The proposer boost\<close>

text \<open>The amount that the last proposer boost has put on a place.\<close>

definition boost_extra :: "store \<Rightarrow> place \<Rightarrow> nat" where
  "boost_extra s l =
     (if previousProposerBoostRoot s = ZeroHash then 0
      else case emptyNodeByRoot s (previousProposerBoostRoot s) of
        None \<Rightarrow> 0
      | Some e \<Rightarrow> if l = AtNode (p_node (pnode_at s e)) then unat (previousProposerBoostScore s) else 0)"

lemma removePreviousProposerBoost_spec:
  assumes "maps_ok s" "place_ok s l" "boost_extra s l \<le> unat (place_balance s l)"
  shows "unat (place_balance (removePreviousProposerBoost s) l) = unat (place_balance s l) - boost_extra s l"
  using assms maps_okD(3)[OF assms(1)]
  by (cases l)
    (auto simp: removePreviousProposerBoost_def boost_extra_def place_balance_def node_at_upd_node word_less_nat_alt
      word_le_nat_alt unat_sub_u64 split: option.splits if_splits)

lemma removePreviousProposerBoost_erase:
  "erase_balances (removePreviousProposerBoost s) = erase_balances s"
  by (simp add: removePreviousProposerBoost_def erase_balances_upd split: option.splits)

lemma boost_frame:
  "node_at (s\<lparr>previousProposerBoostRoot := x, previousProposerBoostScore := y\<rparr>) n = node_at s n"
  "pnode_at (s\<lparr>previousProposerBoostRoot := x, previousProposerBoostScore := y\<rparr>) p = pnode_at s p"
  "resolveVoteNode (s\<lparr>previousProposerBoostRoot := x, previousProposerBoostScore := y\<rparr>) r sl st = resolveVoteNode s r sl st"
  "target_place (s\<lparr>previousProposerBoostRoot := x, previousProposerBoostScore := y\<rparr>) tgt = target_place s tgt"
  "place_ok (s\<lparr>previousProposerBoostRoot := x, previousProposerBoostScore := y\<rparr>) l = place_ok s l"
  "place_balance (s\<lparr>previousProposerBoostRoot := x, previousProposerBoostScore := y\<rparr>) l = place_balance s l"
  by (simp_all add: node_at_def pnode_at_def resolveVoteNode_def target_place_def place_ok_def place_balance_def
      cong: if_cong split: option.splits place.splits)

text \<open>The store after a new score has been recorded, and the balances it adds.\<close>

definition record_boost :: "u64 \<Rightarrow> store \<Rightarrow> store" where
  "record_boost score s = s\<lparr>previousProposerBoostRoot := proposerBoostRoot s, previousProposerBoostScore := score\<rparr>"

definition boost_score :: "fc_env \<Rightarrow> store \<Rightarrow> u64" where
  "boost_score E s = committeeWeight s * ProposerScoreBoost (fc_cfg E) div 100"

lemma applyNewProposerBoost_spec:
  assumes "maps_ok s" "place_ok s l" "unat (place_balance s l) + unat (boost_score E s) < 2 ^ 64"
    and "applyNewProposerBoost E s = (score, t)"
  shows "unat (place_balance t l) = unat (place_balance s l) + boost_extra (record_boost score t) l"
    and "erase_balances t = erase_balances s"
  using assms maps_okD(3)[OF assms(1)]
  by (cases l;
      auto simp: applyNewProposerBoost_def boost_extra_def record_boost_def place_balance_def node_at_upd_node boost_frame
        Let_def boost_score_def unat_add_u64 erase_balances_upd split: option.splits if_splits)+

text \<open>The specification of the boost, read off the store before the boost is applied: the block at
  \<open>proposerBoostRoot\<close>, if it is known and \<open>shouldApplyProposerBoost\<close> holds, is due \<open>ProposerScoreBoost\<close>
  percent of the committee weight; no other place is due anything.\<close>

definition boost_amount :: "fc_env \<Rightarrow> store \<Rightarrow> u64" where
  "boost_amount E s =
     (if shouldApplyProposerBoost E s = Ok True \<and> emptyNodeByRoot s (proposerBoostRoot s) \<noteq> None
      then boost_score E s else 0)"

definition boost_due :: "fc_env \<Rightarrow> store \<Rightarrow> place \<Rightarrow> nat" where
  "boost_due E s l =
     (case emptyNodeByRoot s (proposerBoostRoot s) of
        None \<Rightarrow> 0
      | Some e \<Rightarrow> if l = AtNode (p_node (pnode_at s e)) then unat (boost_amount E s) else 0)"

lemma nth_beyond: "length xs = length ys \<Longrightarrow> length ys \<le> n \<Longrightarrow> xs ! n = ys ! n"
  by (induction xs ys arbitrary: n rule: list_induct2) (auto simp: nth_Cons split: nat.splits)

lemma erase_balances_all:
  assumes "erase_balances s = erase_balances t"
  shows "(node_at s n)\<lparr>n_balance := 0\<rparr> = (node_at t n)\<lparr>n_balance := 0\<rparr>"
    and "(pnode_at s p)\<lparr>p_balance := 0\<rparr> = (pnode_at t p)\<lparr>p_balance := 0\<rparr>"
  using erase_balancesD(1,2,6,7)[OF assms] nth_beyond[of "nodes s" "nodes t" n] nth_beyond[of "pnodes s" "pnodes t" p]
  by (metis node_at_def not_le, metis pnode_at_def not_le)

lemma boost_due_cong:
  assumes "erase_balances s = erase_balances t"
  shows "boost_amount E s = boost_amount E t" "boost_due E s = boost_due E t" "boost_score E s = boost_score E t"
proof -
  have n: "n_parent (node_at s n) = n_parent (node_at t n)" "n_slot (node_at s n) = n_slot (node_at t n)"
    "n_weight (node_at s n) = n_weight (node_at t n)" "n_root (node_at s n) = n_root (node_at t n)"
    "n_proposerIndex (node_at s n) = n_proposerIndex (node_at t n)" for n
    using arg_cong[OF erase_balances_all(1)[OF assms, of n], of n_parent]
      arg_cong[OF erase_balances_all(1)[OF assms, of n], of n_slot]
      arg_cong[OF erase_balances_all(1)[OF assms, of n], of n_weight]
      arg_cong[OF erase_balances_all(1)[OF assms, of n], of n_root]
      arg_cong[OF erase_balances_all(1)[OF assms, of n], of n_proposerIndex] by simp_all
  have p: "p_node (pnode_at s p) = p_node (pnode_at t p)" for p
    using arg_cong[OF erase_balances_all(2)[OF assms, of p], of p_node] by simp
  have g: "proposerBoostRoot s = proposerBoostRoot t" "genesisTime s = genesisTime t"
    "committeeWeight s = committeeWeight t" "blockRootsBySlotProposer s = blockRootsBySlotProposer t"
    using arg_cong[OF assms, of proposerBoostRoot] arg_cong[OF assms, of genesisTime]
      arg_cong[OF assms, of committeeWeight] arg_cong[OF assms, of blockRootsBySlotProposer]
    by (simp_all add: erase_balances_def)
  have "shouldApplyProposerBoost E s = shouldApplyProposerBoost E t"
    by (simp add: shouldApplyProposerBoost_def store_currentSlot_def n p g erase_balancesD(3)[OF assms]
        cong: if_cong option.case_cong)
  then show "boost_amount E s = boost_amount E t" "boost_score E s = boost_score E t"
    unfolding boost_amount_def boost_score_def g erase_balancesD(3)[OF assms] by simp_all
  then show "boost_due E s = boost_due E t"
    by (intro ext) (simp add: boost_due_def g p erase_balancesD(3)[OF assms] split: option.split)
qed

lemma erase_record_boost: "erase_balances (record_boost x s) = record_boost x (erase_balances s)"
  by (simp add: record_boost_def erase_balances_def)

text \<open>The score that is recorded is the amount that is due.\<close>

lemma boost_recorded:
  assumes "shouldApplyProposerBoost E s = Ok b" "(if b then applyNewProposerBoost E s else (0, s)) = (score, t)"
  shows "score = boost_amount E s" "boost_extra (record_boost score t) = boost_due E s"
    "proposerBoostRoot t = proposerBoostRoot s"
proof -
  have root: "proposerBoostRoot s \<noteq> 0" if b using assms(1) that by (simp add: shouldApplyProposerBoost_def split: if_splits)
  have frame: "proposerBoostRoot t = proposerBoostRoot s" "emptyNodeByRoot t = emptyNodeByRoot s" "pnodes t = pnodes s"
    using assms(2) by (auto simp: applyNewProposerBoost_def Let_def upd_node_def split: if_splits option.splits)
  show sc: "score = boost_amount E s"
    using assms root by (auto simp: boost_amount_def applyNewProposerBoost_def boost_score_def Let_def ZeroHash_def
        split: if_splits option.splits)
  have "boost_amount E s = 0" if "proposerBoostRoot s = 0"
    using assms(1) that by (auto simp: boost_amount_def shouldApplyProposerBoost_def)
  then show "boost_extra (record_boost score t) = boost_due E s"
    by (intro ext) (auto simp: boost_extra_def boost_due_def record_boost_def frame sc ZeroHash_def pnode_at_def
        split: option.split)
  show "proposerBoostRoot t = proposerBoostRoot s" by (rule frame)
qed

text \<open>What the fork choice keeps when only balances and the recorded boost change.\<close>

lemma vote_place_boost:
  "vote_place (s\<lparr>previousProposerBoostRoot := x, previousProposerBoostScore := y\<rparr>) r sl st = vote_place s r sl st"
  by (simp add: vote_place_def boost_frame)

lemma voted_cong:
  assumes "erase_balances t = erase_balances (fc_store f)" "maps_ok (fc_store f)"
  shows "voted (f\<lparr>fc_store := t\<lparr>previousProposerBoostRoot := x, previousProposerBoostScore := y\<rparr>\<rparr>) i l = voted f i l"
  using erase_balancesD(5)[OF assms(1)]
  by (simp add: voted_def slashed_def current_place_def vote_place_boost vote_place_cong[OF assms])

lemma shouldApplyProposerBoost_total:
  assumes "SlotDuration (fc_cfg E) \<noteq> 0" "SlotsPerEpoch (fc_cfg E) \<noteq> 0"
  shows "\<exists>b. shouldApplyProposerBoost E s = Ok b"
proof -
  obtain cur where "store_currentSlot E s = Ok cur" using store_currentSlot_total[OF assms(1)] by blast
  then show ?thesis using assms(2)
    by (auto simp: shouldApplyProposerBoost_def epoch_of_def ToEpoch_eq split: option.splits)
qed

lemma applyProposerBoostScore_eval:
  assumes "shouldApplyProposerBoost E (removePreviousProposerBoost (fc_store f)) = Ok b"
    and "(if b then applyNewProposerBoost E (removePreviousProposerBoost (fc_store f))
          else (0, removePreviousProposerBoost (fc_store f))) = (score, t)"
  shows "applyProposerBoostScore E f = (Ok (), f\<lparr>fc_store := record_boost score t\<rparr>)"
  using assms by (cases b)
    (simp_all add: applyProposerBoostScore_def upd_store_def on_store_def proc_simps record_boost_def)

lemma applyProposerBoostScore_run:
  assumes "maps_ok (fc_store f)" "ledger_ok (boost_extra (fc_store f)) f"
    and "SlotDuration (fc_cfg E) \<noteq> 0" "SlotsPerEpoch (fc_cfg E) \<noteq> 0"
    and "(\<Sum>i < length (fc_votes f). unat (balance_of (fc_balances f) i)) + unat (boost_score E (fc_store f)) < 2 ^ 64"
  shows "\<exists>t. applyProposerBoostScore E f = (Ok (), f\<lparr>fc_store := t\<rparr>) \<and>
    erase_balances t = erase_balances (record_boost (boost_amount E (fc_store f)) (fc_store f)) \<and>
    (\<forall>l. place_ok (fc_store f) l \<longrightarrow> unat (place_balance t l) =
       unat (place_balance (fc_store f) l) - boost_extra (fc_store f) l + boost_due E (fc_store f) l) \<and>
    boost_extra t = boost_due E (fc_store f) \<and> ledger_ok (boost_due E (fc_store f)) (f\<lparr>fc_store := t\<rparr>)"
proof -
  let ?s = "fc_store f" and ?u = "removePreviousProposerBoost (fc_store f)" and ?N = "length (fc_votes f)"
  have eu: "erase_balances ?u = erase_balances ?s" by (rule removePreviousProposerBoost_erase)
  have mu: "maps_ok ?u" using skeleton_maps_ok[OF erase_balances_skeleton[OF eu] assms(1)] .
  have bu: "unat (place_balance ?u l) = (\<Sum>i < ?N. voted f i l)" if "place_ok ?s l" for l
    using removePreviousProposerBoost_spec[OF assms(1) that] assms(2) that by (simp add: ledger_ok_def)
  have sc: "boost_score E ?u = boost_score E ?s"
    by (simp add: boost_score_def removePreviousProposerBoost_def upd_node_def split: option.split)
  obtain b where b: "shouldApplyProposerBoost E ?u = Ok b" using shouldApplyProposerBoost_total[OF assms(3,4)] by blast
  obtain score t where t: "(if b then applyNewProposerBoost E ?u else (0, ?u)) = (score, t)" by fastforce
  have fits: "unat (place_balance ?u l) + unat (boost_score E ?u) < 2 ^ 64" if "place_ok ?s l" for l
  proof -
    have "(\<Sum>i < ?N. voted f i l) \<le> (\<Sum>i < ?N. unat (balance_of (fc_balances f) i))"
      by (intro sum_mono voted_le)
    then show ?thesis using assms(5) bu[OF that] sc by simp
  qed
  have bal: "unat (place_balance t l) = unat (place_balance ?u l) + boost_extra (record_boost score t) l"
    if "place_ok ?s l" for l
  proof (cases b)
    case True
    then show ?thesis using applyNewProposerBoost_spec(1)[OF mu _ fits[OF that]] t that place_ok_cong[OF eu] by simp
  next
    case False
    then show ?thesis using t by (auto simp: boost_extra_def record_boost_def split: option.splits)
  qed
  have et: "erase_balances t = erase_balances ?s"
    using t eu by (cases b) (auto simp: applyNewProposerBoost_def erase_balances_upd Let_def split: option.splits if_splits)
  note due = boost_due_cong[OF eu] and rec = boost_recorded[OF b t]
  have led: "ledger_ok (boost_due E ?s) (f\<lparr>fc_store := record_boost score t\<rparr>)"
    using bal bu rec(2) due
    by (simp add: ledger_ok_def record_boost_def boost_frame voted_cong[OF et assms(1)] place_ok_cong[OF et])
  have "erase_balances (record_boost score t) = erase_balances (record_boost (boost_amount E ?s) ?s)"
    using et rec(1) due by (simp add: erase_record_boost)
  moreover have "unat (place_balance (record_boost score t) l) =
      unat (place_balance ?s l) - boost_extra ?s l + boost_due E ?s l" if "place_ok ?s l" for l
    using bal[OF that] bu[OF that] rec(2) due assms(2) that
    by (simp add: record_boost_def boost_frame ledger_ok_def)
  ultimately show ?thesis using applyProposerBoostScore_eval[OF b t] led rec(2) due by auto
qed

section \<open>What \<open>Head\<close> leaves alone\<close>
















section \<open>Head\<close>







text \<open>What \<open>Head\<close> relies on.\<close>

definition head_ready :: "fc_env \<Rightarrow> fork_choice \<Rightarrow> bool" where
  "head_ready E f \<longleftrightarrow> tree_ok (fc_store f) \<and> boost_ok (fc_store f) \<and> treeRootNode (fc_store f) \<noteq> None \<and>
     emptyNodeByRoot (fc_store f) ZeroHash = None \<and> \<not> fc_ctxErr E \<and>
     SlotDuration (fc_cfg E) \<noteq> 0 \<and> SlotsPerEpoch (fc_cfg E) \<noteq> 0 \<and>
     (\<forall>v \<in> set (fc_votes f). settled v) \<and> ledger_ok (boost_extra (fc_store f)) f \<and>
     funds_ok (boost_extra (fc_store f)) f \<and>
     (\<Sum>i < length (fc_votes f). unat (balance_of (fc_justifiedBalances f) i)) +
       unat (boost_score E (fc_store f)) < 2 ^ 64"







section \<open>An example run\<close>

text \<open>Two blocks; the boost is at the second, and the recorded boost of an earlier slot at the first.\<close>

definition ghost_store :: store where
  "ghost_store = example_store
     \<lparr>nodes := [example_node 0 1 None 3, example_node 1 2 (Some 1) 0],
      pnodes := [example_pnode 0 False [] 0, example_pnode 0 True [1] 0,
                 example_pnode 1 False [] 0, example_pnode 1 True [] 4],
      justifiedCheckpoint := \<lparr>cp_Epoch = 0, cp_Root = 1\<rparr>, committeeWeight := 100,
      proposerBoostRoot := 2, previousProposerBoostRoot := 1, previousProposerBoostScore := 3\<rparr>"

definition ghost_fc :: fork_choice where
  "ghost_fc = example_fc\<lparr>fc_store := ghost_store\<rparr>"

lemma ghost_fields:
  "length (nodes ghost_store) = 2" "length (pnodes ghost_store) = 4"
  "emptyNodeByRoot ghost_store = [1 \<mapsto> 0, 2 \<mapsto> 2]" "fullNodeByRoot ghost_store = [1 \<mapsto> 1, 2 \<mapsto> 3]"
  "node_at ghost_store 0 = example_node 0 1 None 3" "node_at ghost_store (Suc 0) = example_node 1 2 (Some 1) 0"
  "pnode_at ghost_store 0 = example_pnode 0 False [] 0" "pnode_at ghost_store (Suc 0) = example_pnode 0 True [1] 0"
  "pnode_at ghost_store 2 = example_pnode 1 False [] 0" "pnode_at ghost_store 3 = example_pnode 1 True [] 4"
  "fc_store ghost_fc = ghost_store" "fc_votes ghost_fc = [example_vote]" "fc_balances ghost_fc = [4]"
  "fc_justifiedBalances ghost_fc = [6]" "justifiedCheckpoint ghost_store = \<lparr>cp_Epoch = 0, cp_Root = 1\<rparr>"
  "treeRootNode ghost_store = Some 0"
  by (simp_all add: ghost_store_def ghost_fc_def example_fc_def node_at_def pnode_at_def numeral_2_eq_2 numeral_3_eq_3)

lemma ghost_store_fields:
  "previousProposerBoostRoot ghost_store = 1" "previousProposerBoostScore ghost_store = 3"
  "proposerBoostRoot ghost_store = 2" "committeeWeight ghost_store = 100" "genesisTime ghost_store = 0"
  "\<not> slashedIndices ghost_store i"
  by (simp_all add: ghost_store_def example_store_def new_store_def)

lemma ghost_tree_ok: "tree_ok ghost_store"
  by (rule skeleton_tree_ok[OF _ example_tree_ok])
    (simp add: skeleton_def ghost_store_def example_store_def new_store_def)

lemma ghost_boost:
  "boost_extra ghost_store l = (if l = AtNode 0 then 3 else 0)"
  "boost_amount example_env ghost_store = 40" "boost_score example_env ghost_store = 40"
  "boost_due example_env ghost_store l = (if l = AtNode 1 then 40 else 0)"
proof -
  show "boost_extra ghost_store l = (if l = AtNode 0 then 3 else 0)"
    by (simp add: boost_extra_def ghost_store_fields ghost_fields ZeroHash_def)
  show s: "boost_score example_env ghost_store = 40"
    by (simp add: boost_score_def ghost_store_fields example_env_def mainnetBeaconConfig_def)
  have "store_currentSlot example_env ghost_store = Ok 2"
    by (simp add: store_currentSlot_def CurrentSlot_def At_def slot_of_duration_def example_env_def
        mainnet_SlotDuration ghost_store_fields time_Sub_def MinInt_def MaxInt_def Second_def Millisecond_def)
  then have "shouldApplyProposerBoost example_env ghost_store = Ok True"
    by (simp add: shouldApplyProposerBoost_def ghost_store_fields epoch_of_def ToEpoch_eq example_env_def
        mainnetBeaconConfig_def word_gt_0)
  then show a: "boost_amount example_env ghost_store = 40"
    by (simp add: boost_amount_def s ghost_store_fields ghost_fields)
  show "boost_due example_env ghost_store l = (if l = AtNode 1 then 40 else 0)"
    by (simp add: boost_due_def a ghost_store_fields ghost_fields)
qed

lemma ghost_ready: "head_ready example_env ghost_fc"
proof -
  have place: "current_place ghost_store example_vote = Some (AtPayload 3)"
    by (simp add: current_place_def vote_place_def example_vote_def ZeroHash_def resolveVoteNode_def
        target_place_def ghost_fields)
  have four: "p < 4 \<longleftrightarrow> p = 0 \<or> p = 1 \<or> p = 2 \<or> p = 3" and two: "p < 2 \<longleftrightarrow> p = 0 \<or> p = 1" for p :: nat by auto
  have "ledger_ok (boost_extra ghost_store) ghost_fc"
    by (auto simp: ledger_ok_def ghost_fields place_ok_def place_balance_def voted_def slashed_def share_def ghost_boost
        place balance_of_def four two ghost_store_fields split: place.splits)
  moreover have "funds_ok (boost_extra ghost_store) ghost_fc"
    by (simp add: funds_ok_def ghost_boost ghost_fields balance_of_def)
  moreover have "boost_ok ghost_store" by (simp add: boost_ok_def ghost_store_fields ghost_fields)
  moreover have "settled example_vote" by (simp add: settled_def example_vote_def)
  moreover have "SlotDuration (fc_cfg example_env) \<noteq> 0" "SlotsPerEpoch (fc_cfg example_env) \<noteq> 0" "\<not> fc_ctxErr example_env"
    by (simp_all add: example_env_def mainnet_SlotDuration) (simp add: mainnetBeaconConfig_def)
  ultimately show ?thesis
    by (simp add: head_ready_def ghost_fields ghost_tree_ok ZeroHash_def balance_of_def ghost_boost)
qed


text \<open>C9: Applying the proposer boost score takes the recorded score away from the block that had it, gives
  the amount that is due to the block at \<open>proposerBoostRoot\<close>, and moves no other balance. The amount is
  \<open>ProposerScoreBoost\<close> percent of the committee weight when the block is known and
  \<open>shouldApplyProposerBoost\<close> holds, and zero otherwise. The root and the amount are recorded as the
  previous boost, nothing else in the store changes, and the ledger of votes and boost still
  balances. It assumes a ledger that balances with the recorded boost, non-zero slot and epoch
  lengths, and balances whose sum with the boost fits in 64 bits.\<close>

theorem applyProposerBoostScore_ledger:
  assumes "maps_ok (fc_store f)" "ledger_ok (boost_extra (fc_store f)) f"
    and "SlotDuration (fc_cfg E) \<noteq> 0" "SlotsPerEpoch (fc_cfg E) \<noteq> 0"
    and "(\<Sum>i < length (fc_votes f). unat (balance_of (fc_balances f) i)) + unat (boost_score E (fc_store f)) < 2 ^ 64"
  shows "\<exists>t. applyProposerBoostScore E f = (Ok (), f\<lparr>fc_store := t\<rparr>) \<and>
    erase_balances t = erase_balances ((fc_store f)
      \<lparr>previousProposerBoostRoot := proposerBoostRoot (fc_store f),
       previousProposerBoostScore := boost_amount E (fc_store f)\<rparr>) \<and>
    (\<forall>l. place_ok (fc_store f) l \<longrightarrow> unat (place_balance t l) =
       unat (place_balance (fc_store f) l) - boost_extra (fc_store f) l + boost_due E (fc_store f) l) \<and>
    boost_extra t = boost_due E (fc_store f) \<and> ledger_ok (boost_extra t) (f\<lparr>fc_store := t\<rparr>)"
  using applyProposerBoostScore_run[OF assms] unfolding record_boost_def by auto

theorem applyProposerBoostScore_witness:
  "\<exists>t. applyProposerBoostScore example_env ghost_fc = (Ok (), ghost_fc\<lparr>fc_store := t\<rparr>) \<and>
    unat (place_balance t (AtNode 0)) = 0 \<and> unat (place_balance t (AtNode 1)) = 40 \<and>
    unat (place_balance t (AtPayload 3)) = 4 \<and> ledger_ok (boost_extra t) (ghost_fc\<lparr>fc_store := t\<rparr>)"
proof -
  have "place_ok ghost_store (AtNode 0)" "place_ok ghost_store (AtNode 1)" "place_ok ghost_store (AtPayload 3)"
    by (simp_all add: place_ok_def ghost_fields)
  moreover have "place_balance ghost_store (AtNode 0) = 3" "place_balance ghost_store (AtNode 1) = 0"
    "place_balance ghost_store (AtPayload 3) = 4"
    by (simp_all add: place_balance_def ghost_fields)
  ultimately show ?thesis
    using applyProposerBoostScore_ledger[of ghost_fc example_env] ghost_ready
    by (fastforce simp: head_ready_def tree_ok_def ghost_fields balance_of_def ghost_boost)
qed

end
