(* ===== verification/Forkchoice_Insert.thy ===== *)
theory Forkchoice_Insert
  imports Forkchoice_Example
begin

text \<open>
  Growing the tree. \<open>store.insert\<close>, \<open>MarkFullNode\<close> and \<open>InsertPayload\<close> keep the tree invariant on every
  path, also on the error paths that leave a partial insertion behind, and a successful insertion
  makes the block a child of the payload node it builds on.
\<close>

section \<open>Procedures that do not touch the tree\<close>

lemma skeleton_upd_node [simp]:
  "(\<And>x. n_root (g x) = n_root x \<and> n_parent (g x) = n_parent x) \<Longrightarrow> skeleton (upd_node n g s) = skeleton s"
  by (cases "n < length (nodes s)")
    (simp_all add: skeleton_def upd_node_def map_update list_update_beyond list_update_same_conv)

lemma skeleton_upd_pnode [simp]:
  "(\<And>x. p_full (g x) = p_full x \<and> p_node (g x) = p_node x \<and> p_children (g x) = p_children x) \<Longrightarrow>
     skeleton (upd_pnode p g s) = skeleton s"
  by (cases "p < length (pnodes s)")
    (simp_all add: skeleton_def upd_pnode_def map_update list_update_beyond list_update_same_conv)

lemma keeps_deref [keeps_rules]: "keeps obs (deref x)"
  by (simp add: deref_def keeps_rules split: option.split)

lemma keeps_slots_op [keeps_rules]: "keeps obs (slots_op r)" "keeps obs (check_ctx E)"
  by (simp_all add: slots_op_def check_ctx_def keeps_rules)

lemma best_payload_keeps:
  assumes "\<And>n. keeps skeleton (rec n)"
  shows "keeps skeleton (updateBestDescendantPayloadNode rec E je ce p)"
  unfolding updateBestDescendantPayloadNode_def by (intro keeps_rules assms) simp

lemma updateBestDescendant_keeps: "keeps skeleton (updateBestDescendantConsensusNode E je ce fuel n)"
proof (induction fuel arbitrary: n)
  case 0
  show ?case by (simp add: keeps_rules)
next
  case (Suc fuel)
  show ?case unfolding updateBestDescendantConsensusNode.simps(2)
    by (intro keeps_rules best_payload_keeps Suc.IH) simp_all
qed

lemma insert_boost_keeps: "keeps skeleton (insert_boost E b cur sss)"
  unfolding insert_boost_def by (intro keeps_rules) (simp add: skeleton_def)

lemma insert_finish_keeps: "keeps skeleton (insert_finish E b n)"
  unfolding insert_finish_def by (intro keeps_rules) (simp_all add: skeleton_def)

section \<open>Allocation\<close>

text \<open>The store after the allocation: new nodes at the end of the heap, and entries for the root.\<close>

lemma insert_alloc_fields:
  fixes E b je fe parent bh gl target s
  defines "t \<equiv> insert_alloc E b je fe parent bh gl target s"
  defines "n \<equiv> length (nodes s)" and "pn \<equiv> length (pnodes s)" and "pre \<equiv> rb_Version b < Gloas"
  shows "nodes t = nodes s @ [new_node E b je fe parent bh target]"
    "length (pnodes t) = pn + (if pre then 2 else 1)"
    "emptyNodeByRoot t = (emptyNodeByRoot s)(rb_Root b \<mapsto> pn)"
    "fullNodeByRoot t = (if pre then (fullNodeByRoot s)(rb_Root b \<mapsto> Suc pn) else fullNodeByRoot s)"
    "treeRootNode t = treeRootNode s" "genesisTime t = genesisTime s"
    "p < pn \<Longrightarrow> pnode_at t p = pnode_at s p"
    "p_node (pnode_at t pn) = n" "\<not> p_full (pnode_at t pn)" "p_children (pnode_at t pn) = []"
    "pre \<Longrightarrow> p_node (pnode_at t (Suc pn)) = n" "pre \<Longrightarrow> p_full (pnode_at t (Suc pn))"
    "pre \<Longrightarrow> p_children (pnode_at t (Suc pn)) = []"
  by (auto simp: assms insert_alloc_def Let_def new_pnode_def pnode_at_def nth_append)

lemma node_at_alloc:
  "m < length (nodes s) \<Longrightarrow> node_at (insert_alloc E b je fe parent bh gl target s) m = node_at s m"
  "node_at (insert_alloc E b je fe parent bh gl target s) (length (nodes s)) = new_node E b je fe parent bh target"
  by (simp_all add: node_at_def insert_alloc_fields nth_append)

lemma alloc_maps:
  assumes "maps_ok s" "emptyNodeByRoot s (rb_Root b) = None"
  shows "emptyNodeByRoot (insert_alloc E b je fe parent bh gl target s) r = Some q \<longleftrightarrow>
      emptyNodeByRoot s r = Some q \<or> r = rb_Root b \<and> q = length (pnodes s)"
    and "fullNodeByRoot (insert_alloc E b je fe parent bh gl target s) r = Some q \<longleftrightarrow>
      fullNodeByRoot s r = Some q \<or> rb_Version b < Gloas \<and> r = rb_Root b \<and> q = Suc (length (pnodes s))"
proof -
  have "fullNodeByRoot s (rb_Root b) = None" 
    using maps_ok_fullD(3)[OF assms(1), of "rb_Root b"] assms(2) by (cases "fullNodeByRoot s (rb_Root b)") auto
  then show "emptyNodeByRoot (insert_alloc E b je fe parent bh gl target s) r = Some q \<longleftrightarrow>
      emptyNodeByRoot s r = Some q \<or> r = rb_Root b \<and> q = length (pnodes s)"
    "fullNodeByRoot (insert_alloc E b je fe parent bh gl target s) r = Some q \<longleftrightarrow>
      fullNodeByRoot s r = Some q \<or> rb_Version b < Gloas \<and> r = rb_Root b \<and> q = Suc (length (pnodes s))"
    using assms(2) by (auto simp: insert_alloc_fields)
qed

lemma alloc_live:
  assumes "maps_ok s" "emptyNodeByRoot s (rb_Root b) = None"
  shows "live (insert_alloc E b je fe parent bh gl target s) q \<longleftrightarrow>
    live s q \<or> q = length (pnodes s) \<or> rb_Version b < Gloas \<and> q = Suc (length (pnodes s))"
  by (auto simp: live_def alloc_maps[OF assms])

lemma alloc_maps_ok:
  assumes "maps_ok s" "emptyNodeByRoot s (rb_Root b) = None"
  shows "maps_ok (insert_alloc E b je fe parent bh gl target s)"
proof -
  let ?t = "insert_alloc E b je fe parent bh gl target s" and ?n = "length (nodes s)" and ?pn = "length (pnodes s)"
  note f = insert_alloc_fields[where E = E and b = b and je = je and fe = fe and parent = parent and bh = bh and gl = gl
      and target = target and s = s]
  note old = maps_okD[OF assms(1)] and oldf = maps_ok_fullD[OF assms(1)]
  have "q < length (pnodes ?t) \<and> \<not> p_full (pnode_at ?t q) \<and> p_node (pnode_at ?t q) < length (nodes ?t) \<and>
      n_root (cnode ?t q) = r" if "emptyNodeByRoot ?t r = Some q" for r q
    using that old[of r q] f(1,2,8,9) f(7)[of q] unfolding alloc_maps(1)[OF assms]
    by (auto simp: node_at_alloc new_node_def)
  moreover have "q < length (pnodes ?t) \<and> p_full (pnode_at ?t q) \<and>
      (\<exists>e. emptyNodeByRoot ?t r = Some e \<and> p_node (pnode_at ?t e) = p_node (pnode_at ?t q))"
    if q: "fullNodeByRoot ?t r = Some q" for r q
  proof -
    from q consider (old) "fullNodeByRoot s r = Some q" | (new) "rb_Version b < Gloas" "r = rb_Root b" "q = Suc ?pn"
      unfolding alloc_maps(2)[OF assms] by blast
    then show ?thesis
    proof cases
      case old': old
      obtain e where e: "emptyNodeByRoot s r = Some e" "p_node (pnode_at s e) = p_node (pnode_at s q)"
        using oldf(3)[OF old'] by blast
      then show ?thesis using oldf(1,2)[OF old'] old(1)[OF e(1)] f(2) f(7)[of q] f(7)[of e]
        by (auto simp: alloc_maps(1)[OF assms])
    next
      case new
      then show ?thesis using f(2,8,11,12) by (auto simp: alloc_maps(1)[OF assms])
    qed
  qed
  ultimately show ?thesis by (simp add: maps_ok_def)
qed

lemma alloc_in_tree:
  assumes "maps_ok s" "emptyNodeByRoot s (rb_Root b) = None"
  shows "in_tree (insert_alloc E b je fe parent bh gl target s) m \<longleftrightarrow> in_tree s m \<or> m = length (nodes s)"
proof -
  let ?t = "insert_alloc E b je fe parent bh gl target s" and ?n = "length (nodes s)" and ?pn = "length (pnodes s)"
  note f = insert_alloc_fields[where E = E and b = b and je = je and fe = fe and parent = parent and bh = bh and gl = gl
      and target = target and s = s]
  consider "m < ?n" | "m = ?n" | "?n < m" by linarith
  then show ?thesis
  proof cases
    case 1
    have "p_node (pnode_at ?t e) = p_node (pnode_at s e)" if "emptyNode s m = Some e" for e
      using maps_okD(1)[OF assms(1)] that f(7)[of e] by (simp add: emptyNode_def)
    then show ?thesis using 1 f(1,8) alloc_maps(1)[OF assms, where r = "n_root (node_at s m)"]
      by (auto simp: in_tree_def emptyNode_def node_at_alloc)
  next
    case 2
    then show ?thesis using f(1,3,8) by (simp add: in_tree_def emptyNode_def node_at_alloc new_node_def)
  next
    case 3
    then show ?thesis using f(1) by (simp add: in_tree_def)
  qed
qed

section \<open>The three ways an insertion goes on\<close>

lemma in_tree_less: "in_tree s m \<Longrightarrow> m < length (nodes s)"
  by (simp add: in_tree_def)

text \<open>The block has a parent: the new node is appended to the children of the parent payload node.\<close>

lemma linked_tree_ok:
  fixes E b je fe p bh gl target s
  assumes "tree_ok s" "emptyNodeByRoot s (rb_Root b) = None" "live s p"
  defines "t \<equiv> upd_pnode p (\<lambda>x. x\<lparr>p_children := p_children x @ [length (nodes s)]\<rparr>)
    (insert_alloc E b je fe (Some p) bh gl target s)"
  shows "tree_ok t"
proof -
  let ?a = "insert_alloc E b je fe (Some p) bh gl target s" and ?n = "length (nodes s)" and ?pn = "length (pnodes s)"
  have ok: "maps_ok s" "children_ok s" "parents_ok s" "root_ok s" using assms(1) by (simp_all add: tree_ok_def)
  note f = insert_alloc_fields[where E = E and b = b and je = je and fe = fe and parent = "Some p" and bh = bh
      and gl = gl and target = target and s = s]
  have p: "p < ?pn" "p_node (pnode_at s p) < ?n" using live_range(1,2)[OF ok(1) assms(3)] .
  have pa: "p < length (pnodes ?a)" using p(1) f(2) by simp
  have at: "pnode_at t q = (if q = p then (pnode_at s p)\<lparr>p_children := p_children (pnode_at s p) @ [?n]\<rparr> else pnode_at ?a q)" for q
    using pnode_at_upd_pnode[OF pa] f(7)[OF p(1)] by (simp add: t_def)
  have node: "node_at t m = node_at ?a m" for m by (simp add: t_def)
  have fields: "p_full (pnode_at t q) = p_full (pnode_at ?a q)" "p_node (pnode_at t q) = p_node (pnode_at ?a q)" for q
    using at f(7)[OF p(1)] by simp_all
  have maps: "maps_ok t" using alloc_maps_ok[OF ok(1) assms(2)] fields by (simp add: maps_ok_def t_def)
  have live: "live t q \<longleftrightarrow> live s q \<or> q = ?pn \<or> rb_Version b < Gloas \<and> q = Suc ?pn" for q
    using alloc_live[OF ok(1) assms(2)] by (simp add: live_def t_def)
  have tree: "in_tree t m \<longleftrightarrow> in_tree s m \<or> m = ?n" for m
    using alloc_in_tree[OF ok(1) assms(2)] fields by (simp add: in_tree_def t_def emptyNode_def)
  have old: "pnode_at ?a q = pnode_at s q" if "live s q" for q using f(7)[OF live_range(1)[OF ok(1) that]] .
  have npar: "n_parent (node_at t m) = n_parent (node_at s m)" if "in_tree s m" for m
    using node_at_alloc(1)[OF in_tree_less[OF that]] by (simp add: node)
  have nnew: "n_parent (node_at t ?n) = Some p" by (simp add: node node_at_alloc new_node_def)
  have kids: "p_children (pnode_at t q) = (if live s q then p_children (pnode_at s q) @ (if q = p then [?n] else []) else [])"
    if "live t q" for q
    using that at old f(10,13) assms(3) live live_range(1)[OF ok(1), of ?pn] live_range(1)[OF ok(1), of "Suc ?pn"]
    by (auto simp: live)
  have "children_ok t"
    unfolding children_ok_def
  proof (intro allI impI)
    fix q assume q: "live t q"
    show "distinct (p_children (pnode_at t q)) \<and> (\<forall>c \<in> set (p_children (pnode_at t q)).
        p_node (pnode_at t q) < c \<and> in_tree t c \<and> n_parent (node_at t c) = Some q)"
    proof (cases "live s q")
      case True
      have d: "distinct (p_children (pnode_at s q))" and
        c: "\<forall>c \<in> set (p_children (pnode_at s q)). p_node (pnode_at s q) < c \<and> in_tree s c \<and> n_parent (node_at s c) = Some q"
        using ok(2) True by (auto simp: children_ok_def)
      have "?n \<notin> set (p_children (pnode_at s q))" using c in_tree_less by blast
      then show ?thesis using d c p kids[OF q] True nnew npar fields(2) old[OF True]
        by (auto simp: tree)
    qed (simp add: kids[OF q])
  qed
  moreover have root: "treeRootNode t = treeRootNode s" by (simp add: t_def f(5))
  have "parents_ok t"
    unfolding parents_ok_def
  proof (intro allI impI)
    fix m assume m: "in_tree t m"
    show "case n_parent (node_at t m) of Some q \<Rightarrow> live t q \<and> m \<in> set (p_children (pnode_at t q))
        | None \<Rightarrow> treeRootNode t = Some m"
    proof (cases "m = ?n")
      case True
      have "live t p" using assms(3) live by blast
      then show ?thesis using True nnew kids[of p] assms(3) by simp
    next
      case False
      then have "in_tree s m" using m tree by blast
      then have par: "case n_parent (node_at s m) of Some q \<Rightarrow> live s q \<and> m \<in> set (p_children (pnode_at s q))
          | None \<Rightarrow> treeRootNode s = Some m" using ok(3) unfolding parents_ok_def by blast
      show ?thesis
      proof (cases "n_parent (node_at s m)")
        case (Some q)
        then have "live s q" "m \<in> set (p_children (pnode_at s q))" using par by simp_all
        moreover from this have "live t q" using live by blast
        ultimately show ?thesis using npar[OF \<open>in_tree s m\<close>] Some kids[of q] by simp
      qed (use par npar[OF \<open>in_tree s m\<close>] root in simp)
    qed
  qed
  moreover have "root_ok t" using ok(4) npar root by (auto simp: root_ok_def tree)
  ultimately show ?thesis using maps by (simp add: tree_ok_def)
qed

text \<open>The block becomes the root of an empty tree.\<close>

lemma rooted_tree_ok:
  assumes "tree_ok s" "emptyNodeByRoot s (rb_Root b) = None" "treeRootNode s = None"
  shows "tree_ok ((insert_alloc E b je fe None bh gl target s)
    \<lparr>treeRootNode := Some (length (nodes s)), headNode := h, highestReceivedNode := r\<rparr>)" (is "tree_ok ?t")
proof -
  let ?a = "insert_alloc E b je fe None bh gl target s" and ?n = "length (nodes s)" and ?pn = "length (pnodes s)"
  have ok: "maps_ok s" "parents_ok s" using assms(1) by (simp_all add: tree_ok_def)
  have empty: "\<not> in_tree s m" for m
  proof (induction m rule: less_induct)
    case (less m)
    show ?case
    proof
      assume m: "in_tree s m"
      then obtain q where "n_parent (node_at s m) = Some q"
        using ok(2) assms(3) by (force simp: parents_ok_def split: option.splits)
      then show False using parent_in_tree(2,3)[OF assms(1) m] less by blast
    qed
  qed
  then have dead: "\<not> live s q" for q using live_range(3)[OF ok(1)] by blast
  note f = insert_alloc_fields[where E = E and b = b and je = je and fe = fe and parent = None and bh = bh
      and gl = gl and target = target and s = s]
  have live: "live ?t q \<longleftrightarrow> q = ?pn \<or> rb_Version b < Gloas \<and> q = Suc ?pn" for q
    using alloc_live[OF ok(1) assms(2), where q = q and parent = None] dead by (simp add: live_def)
  have at: "pnode_at ?t q = pnode_at ?a q" "node_at ?t m = node_at ?a m" for q m
    by (simp_all add: node_at_def pnode_at_def)
  have "in_tree ?t m = in_tree ?a m" for m by (simp add: in_tree_def emptyNode_def at)
  then have tree: "in_tree ?t m \<longleftrightarrow> m = ?n" for m using alloc_in_tree[OF ok(1) assms(2)] empty by simp
  have "maps_ok ?t" using alloc_maps_ok[OF ok(1) assms(2), where parent = None] by (simp add: maps_ok_def at)
  moreover have "children_ok ?t" using f(10,13) by (auto simp: children_ok_def live at)
  moreover have "parents_ok ?t" "root_ok ?t"
    by (simp_all add: parents_ok_def root_ok_def tree at node_at_alloc new_node_def)
  ultimately show ?thesis by (simp add: tree_ok_def)
qed

text \<open>Nodes that no map knows do not matter.\<close>

lemma garbage_tree_ok:
  assumes "tree_ok s" "nodes t = nodes s @ ns" "pnodes t = pnodes s @ ps" "emptyNodeByRoot t = emptyNodeByRoot s"
    and "fullNodeByRoot t = fullNodeByRoot s" "treeRootNode t = treeRootNode s"
    and "\<And>x. x \<in> set ns \<Longrightarrow> emptyNodeByRoot s (n_root x) = None"
  shows "tree_ok t"
proof -
  have ok: "maps_ok s" "children_ok s" "parents_ok s" "root_ok s" using assms(1) by (simp_all add: tree_ok_def)
  have node: "node_at t m = node_at s m" if "m < length (nodes s)" for m using that assms(2) by (simp add: node_at_def nth_append)
  have pnode: "pnode_at t q = pnode_at s q" if "q < length (pnodes s)" for q using that assms(3) by (simp add: pnode_at_def nth_append)
  have live: "live t q = live s q" for q using assms(4,5) by (simp add: live_def)
  have lp: "pnode_at t q = pnode_at s q" if "live s q" for q using pnode[OF live_range(1)[OF ok(1) that]] .
  have tree: "in_tree t m = in_tree s m" for m
  proof (cases "m < length (nodes s)")
    case True
    have "pnode_at t e = pnode_at s e" if "emptyNode s m = Some e" for e using lp[OF empty_live[OF that]] .
    then show ?thesis using True node[OF True] assms(2,4) by (auto simp: in_tree_def emptyNode_def)
  next
    case False
    have "emptyNode t m = None" if "m < length (nodes t)"
    proof -
      have "node_at t m \<in> set ns" using False that assms(2) by (simp add: node_at_def nth_append)
      then show ?thesis using assms(4,7) by (simp add: emptyNode_def)
    qed
    then show ?thesis using False by (auto simp: in_tree_def)
  qed
  have tn: "node_at t m = node_at s m" if "in_tree s m" for m using node[OF in_tree_less[OF that]] .
  have "maps_ok t"
  proof -
    have "q < length (pnodes t) \<and> \<not> p_full (pnode_at t q) \<and> p_node (pnode_at t q) < length (nodes t) \<and>
        n_root (cnode t q) = r" if "emptyNodeByRoot s r = Some q" for r q
      using maps_okD[OF ok(1) that] pnode[of q] node[of "p_node (pnode_at s q)"] assms(2,3) by simp
    moreover have "q < length (pnodes t) \<and> p_full (pnode_at t q) \<and>
        (\<exists>e. emptyNodeByRoot s r = Some e \<and> p_node (pnode_at t e) = p_node (pnode_at t q))"
      if q: "fullNodeByRoot s r = Some q" for r q
    proof -
      obtain e where "emptyNodeByRoot s r = Some e" "p_node (pnode_at s e) = p_node (pnode_at s q)"
        using maps_ok_fullD(3)[OF ok(1) q] by blast
      then show ?thesis using maps_ok_fullD(1,2)[OF ok(1) q] maps_okD(1)[OF ok(1), of r e] pnode assms(3) by simp
    qed
    ultimately show ?thesis by (simp add: maps_ok_def assms(4,5))
  qed
  moreover have "children_ok t" using ok(2) lp tn by (auto simp: children_ok_def live tree)
  moreover have "parents_ok t" using ok(3) lp tn assms(6)
    by (fastforce simp: parents_ok_def live tree split: option.splits)
  moreover have "root_ok t" using ok(4) tn assms(6) by (auto simp: root_ok_def tree)
  ultimately show ?thesis by (simp add: tree_ok_def)
qed

lemma rejected_tree_ok:
  assumes "tree_ok s" "emptyNodeByRoot s (rb_Root b) = None"
  shows "tree_ok (delete_full (rb_Root b) (delete_empty (rb_Root b) (insert_alloc E b je fe parent bh gl target s)))"
proof -
  have maps: "maps_ok s" using assms(1) by (simp add: tree_ok_def)
  have "fullNodeByRoot s (rb_Root b) = None"
    using maps_ok_fullD(3)[OF maps, of "rb_Root b"] assms(2) by (cases "fullNodeByRoot s (rb_Root b)") auto
  moreover have "\<exists>ps. pnodes (insert_alloc E b je fe parent bh gl target s) = pnodes s @ ps"
    by (simp add: insert_alloc_def Let_def)
  then obtain ps where "pnodes (insert_alloc E b je fe parent bh gl target s) = pnodes s @ ps" by blast
  ultimately show ?thesis using assms(2)
    by (intro garbage_tree_ok[OF assms(1), where ns = "[new_node E b je fe parent bh target]" and ps = ps])
      (simp_all add: delete_full_def delete_empty_def insert_alloc_fields new_node_def fun_upd_idem)
qed

section \<open>Insertion\<close>

lemma insert_resolve_live:
  assumes "insert_resolve s b = Ok (Some p, bh, gl)"
  shows "live s p"
  using assms
  by (auto simp: insert_resolve_def resolveParentPayloadStatus_def outcome_iff live_def
      split: if_splits option.splits prod.splits)

lemma insert_link_skeleton:
  "skeleton (snd (insert_link E b n p retn s)) = skeleton (upd_pnode p (\<lambda>x. x\<lparr>p_children := p_children x @ [n]\<rparr>) s)"
proof -
  let ?m = "upd_pnode p (\<lambda>x. x\<lparr>p_children := p_children x @ [n]\<rparr>)"
  obtain k where k: "insert_link E b n p retn = seq (modify ?m) k" and "keeps skeleton k"
    by (rule that[OF insert_link_def]) (intro keeps_rules insert_boost_keeps updateBestDescendant_keeps insert_finish_keeps)
  then show ?thesis using keepsD[of skeleton k "?m s"] by (simp add: proc_simps)
qed

text \<open>The run of \<open>insert\<close> for a new block whose parent and target are found.\<close>

lemma store_insert_new:
  fixes E b je fe s parent bh gl target
  assumes "emptyNodeByRoot s (rb_Root b) = None" "insert_resolve s b = Ok (parent, bh, gl)"
    and "insert_target E s (rb_Slot b) parent = Ok target"
  defines "a \<equiv> insert_alloc E b je fe parent bh gl target s"
    and "retn \<equiv> (if rb_Version b < Gloas then Suc (length (pnodes s)) else length (pnodes s))"
  shows "parent = Some p \<Longrightarrow> store_insert E b je fe s = insert_link E b (length (nodes s)) p retn a"
    and "parent = None \<Longrightarrow> treeRootNode s = Some r \<Longrightarrow>
      store_insert E b je fe s = (Fail ErrInvalidParentRoot, delete_full (rb_Root b) (delete_empty (rb_Root b) a))"
    and "parent = None \<Longrightarrow> treeRootNode s = None \<Longrightarrow>
      store_insert E b je fe s = seq (insert_finish E b (length (nodes s))) (ret retn)
        (a\<lparr>treeRootNode := Some (length (nodes s)), headNode := Some (length (nodes s)),
           highestReceivedNode := Some (length (nodes s))\<rparr>)"
  using assms(1-3) by (auto simp: store_insert_def proc_simps Let_def a_def retn_def insert_alloc_fields)

lemma finish_skeleton: "skeleton (snd (seq (insert_finish E b n) (ret r) s)) = skeleton s"
  by (rule keepsD) (intro keeps_rules insert_finish_keeps)

lemma store_insert_cases:
  obtains (early) "snd (store_insert E b je fe s) = s"
      "emptyNodeByRoot s (rb_Root b) \<noteq> None \<or> \<not> is_Ok (fst (store_insert E b je fe s))"
  | (new) parent bh gl target where "emptyNodeByRoot s (rb_Root b) = None" "insert_resolve s b = Ok (parent, bh, gl)"
      "insert_target E s (rb_Slot b) parent = Ok target"
proof (cases "emptyNodeByRoot s (rb_Root b)")
  case (Some n)
  then show ?thesis by (intro early) (simp_all add: store_insert_def proc_simps)
next
  case None
  show ?thesis
  proof (cases "insert_resolve s b")
    case (Ok x)
    obtain parent bh gl where x: "x = (parent, bh, gl)" by (cases x)
    then show ?thesis using new[OF None] Ok early None
      by (cases "insert_target E s (rb_Slot b) parent") (auto simp: store_insert_def proc_simps)
  qed (use None in \<open>auto intro!: early simp: store_insert_def proc_simps\<close>)
qed

lemma store_insert_keeps_tree:
  assumes "tree_ok s"
  shows "tree_ok (snd (store_insert E b je fe s))"
proof (cases rule: store_insert_cases[of E b je fe s])
  case early
  then show ?thesis using assms by simp
next
  case (new parent bh gl target)
  note run = store_insert_new[OF new, where je = je and fe = fe]
  consider (link) p where "parent = Some p" | (reject) r where "parent = None" "treeRootNode s = Some r"
    | (root) "parent = None" "treeRootNode s = None" by (cases parent; cases "treeRootNode s") auto
  then show ?thesis
  proof cases
    case link
    then have p: "live s p" using insert_resolve_live new(2) by blast
    show ?thesis unfolding run(1)[OF link] unfolding link
      by (rule skeleton_tree_ok[OF insert_link_skeleton linked_tree_ok[OF assms new(1) p]])
  next
    case reject
    then show ?thesis unfolding run(2)[OF reject] using rejected_tree_ok[OF assms new(1)] by simp
  next
    case root
    show ?thesis unfolding run(3)[OF root] root(1)
      by (rule skeleton_tree_ok[OF finish_skeleton rooted_tree_ok[OF assms new(1) root(2)]])
  qed
qed

text \<open>C4: \<open>insert\<close> keeps the tree invariant whatever it returns: for a known block, for a block whose parent is
  unknown, for the first block, for a block linked to its parent, and also when one of the later
  steps fails after the block has been linked.\<close>

theorem store_insert_tree_ok:
  assumes "tree_ok s"
  shows "tree_ok (snd (store_insert E b je fe s))"
  using assms by (rule store_insert_keeps_tree)

theorem store_insert_witness:
  "tree_ok (snd (store_insert example_env \<lparr>rb_Root = 3, rb_Slot = 2, rb_ProposerIndex = 1, rb_ParentRoot = 2,
     rb_Version = Fulu, rb_Execution = Ok ([], 0), rb_Bid = Fail ErrExternal\<rparr> 0 0 example_store))"
  using store_insert_tree_ok[OF example_tree_ok] by blast

lemma insert_resolve_parent:
  assumes "maps_ok s" "insert_resolve s b = Ok (Some p, bh, gl)"
  shows "n_root (cnode s p) = rb_ParentRoot b"
proof -
  have e: "n_root (cnode s q) = r" if "emptyNodeByRoot s r = Some q" for q r using maps_okD(4)[OF assms(1) that] .
  moreover have "n_root (cnode s q) = r" if "fullNodeByRoot s r = Some q" for q r
    using maps_ok_fullD(3)[OF assms(1) that] e by metis
  ultimately show ?thesis using assms(2)
    by (auto simp: insert_resolve_def resolveParentPayloadStatus_def outcome_iff split: if_splits option.splits prod.splits)
qed

text \<open>The tree after an insertion that does not reject the block.\<close>

lemma p_node_upd: "(\<And>x. p_node (g x) = p_node x) \<Longrightarrow> p_node (pnode_at (upd_pnode p g s) q) = p_node (pnode_at s q)"
  by (cases "p < length (pnodes s)"; cases "q = p") (simp_all add: pnode_at_def upd_pnode_def list_update_beyond)

lemma store_insert_skeleton:
  assumes "emptyNodeByRoot s (rb_Root b) = None" "store_insert E b je fe s = (Ok x, t)"
  obtains parent bh gl target u where "insert_resolve s b = Ok (parent, bh, gl)"
    "parent = None \<longrightarrow> treeRootNode s = None" "skeleton t = skeleton u"
    "nodes u = nodes s @ [new_node E b je fe parent bh target]"
    "emptyNodeByRoot u = (emptyNodeByRoot s)(rb_Root b \<mapsto> length (pnodes s))"
    "length (pnodes s) < length (pnodes u)"
    "\<And>q. p_node (pnode_at u q) = p_node (pnode_at (insert_alloc E b je fe parent bh gl target s) q)"
proof (cases rule: store_insert_cases[of E b je fe s])
  case early
  then show ?thesis using assms by simp
next
  case (new parent bh gl target)
  note run = store_insert_new[OF new, where je = je and fe = fe]
  let ?a = "insert_alloc E b je fe parent bh gl target s" and ?n = "length (nodes s)"
  have t: "t = snd (store_insert E b je fe s)" using assms(2) by simp
  consider (link) p where "parent = Some p" | (reject) r where "parent = None" "treeRootNode s = Some r"
    | (root) "parent = None" "treeRootNode s = None" by (cases parent; cases "treeRootNode s") auto
  then show ?thesis
  proof cases
    case link
    let ?u = "upd_pnode p (\<lambda>x. x\<lparr>p_children := p_children x @ [?n]\<rparr>) ?a"
    have "skeleton t = skeleton ?u"
      unfolding t run(1)[OF link] by (rule insert_link_skeleton)
    then show ?thesis
      by (rule that[of parent bh gl ?u target, OF new(2), rotated])
        (simp_all add: insert_alloc_fields p_node_upd link)
  next
    case reject
    then show ?thesis using run(2) assms(2) by simp
  next
    case root
    let ?u = "?a\<lparr>treeRootNode := Some ?n, headNode := Some ?n, highestReceivedNode := Some ?n\<rparr>"
    have "skeleton t = skeleton ?u" unfolding t run(3)[OF root] by (rule finish_skeleton)
    then show ?thesis
      by (rule that[of parent bh gl ?u target, OF new(2), rotated])
        (simp_all add: insert_alloc_fields pnode_at_def root)
  qed
qed

text \<open>C5: When \<open>insert\<close> of a new block succeeds, the block is in the tree under its root, no other entry of
  the map changes, and it hangs below a payload node of the block that its parent root names, unless
  it is the first block of the tree.\<close>

theorem store_insert_adds_block:
  assumes "tree_ok s" "emptyNodeByRoot s (rb_Root b) = None" "store_insert E b je fe s = (Ok x, t)"
  shows "\<exists>e. emptyNodeByRoot t = (emptyNodeByRoot s)(rb_Root b \<mapsto> e) \<and>
    in_tree t (p_node (pnode_at t e)) \<and> n_root (cnode t e) = rb_Root b \<and>
    (case n_parent (cnode t e) of
       None \<Rightarrow> treeRootNode s = None
     | Some p \<Rightarrow> live s p \<and> n_root (cnode s p) = rb_ParentRoot b)"
proof -
  have maps: "maps_ok s" using assms(1) by (simp add: tree_ok_def)
  obtain parent bh gl target u where r: "insert_resolve s b = Ok (parent, bh, gl)"
    "parent = None \<longrightarrow> treeRootNode s = None" and sk: "skeleton t = skeleton u"
    and u: "nodes u = nodes s @ [new_node E b je fe parent bh target]"
    "emptyNodeByRoot u = (emptyNodeByRoot s)(rb_Root b \<mapsto> length (pnodes s))"
    "length (pnodes s) < length (pnodes u)"
    "\<And>q. p_node (pnode_at u q) = p_node (pnode_at (insert_alloc E b je fe parent bh gl target s) q)"
    by (rule store_insert_skeleton[OF assms(2,3)]) blast
  let ?e = "length (pnodes s)" and ?n = "length (nodes s)"
  have e: "emptyNodeByRoot t = (emptyNodeByRoot s)(rb_Root b \<mapsto> ?e)" using skeletonD(3)[OF sk] u(2) by simp
  have n: "p_node (pnode_at t ?e) = ?n" using skeletonD(7)[OF sk u(3)] u(4) by (simp add: insert_alloc_fields)
  have "node_at u ?n = new_node E b je fe parent bh target" using u(1) by (simp add: node_at_def)
  then have c: "n_root (cnode t ?e) = rb_Root b" "n_parent (cnode t ?e) = parent"
    using skeletonD(6)[OF sk, of ?n] u(1) by (simp_all add: n new_node_def)
  have "in_tree t ?n" using e n c(1) skeletonD(1)[OF sk] u(1) by (simp add: in_tree_def emptyNode_def)
  then show ?thesis using e n c r insert_resolve_live insert_resolve_parent[OF maps]
    by (intro exI[of _ ?e]) (auto split: option.splits)
qed

definition example_block :: ro_block where
  "example_block = \<lparr>rb_Root = 3, rb_Slot = 2, rb_ProposerIndex = 1, rb_ParentRoot = 2,
     rb_Version = Fulu, rb_Execution = Ok ([], 0), rb_Bid = Fail ErrExternal\<rparr>"

theorem store_insert_adds_block_witness:
  "\<exists>x t e. store_insert (example_env\<lparr>fc_now := - 1\<rparr>) example_block 0 0 example_store = (Ok x, t) \<and>
    emptyNodeByRoot t = [1 \<mapsto> 0, 2 \<mapsto> 2, 3 \<mapsto> e] \<and> in_tree t (p_node (pnode_at t e)) \<and> n_root (cnode t e) = 3"
proof -
  let ?E = "example_env\<lparr>fc_now := - 1\<rparr>"
  have cfg: "fc_cfg ?E = mainnetBeaconConfig" "SlotsPerEpoch mainnetBeaconConfig = 32"
    by (simp_all add: example_env_def mainnetBeaconConfig_def)
  have gen: "genesisTime example_store = 0" by (simp add: example_store_def new_store_def)
  have none: "emptyNodeByRoot example_store (rb_Root example_block) = None" by (simp add: example_block_def)
  have res: "insert_resolve example_store example_block = Ok (Some 3, array32 (ToBytes32 []), 0)"
    by (simp add: insert_resolve_def example_block_def less_eq_fork_version_def)
  have tgt: "insert_target ?E example_store (rb_Slot example_block) (Some 3) = Ok None"
    by (simp add: insert_target_def example_block_def IsEpochStart_def u64_divmod_eq epoch_of_def ToEpoch_eq cfg)
      (simp add: example_node_def)
  obtain x t where run: "store_insert ?E example_block 0 0 example_store = (Ok x, t)"
    using store_insert_new(1)[OF none res tgt refl, of 0 0]
    by (simp add: insert_link_def proc_simps insert_alloc_fields gen)
  show ?thesis using store_insert_adds_block[OF example_tree_ok none run] run
    by (auto simp: example_block_def)
qed

section \<open>Payloads\<close>

lemma mark_full_tree_ok:
  assumes "tree_ok s" "emptyNodeByRoot s r = Some en" "fullNodeByRoot s r = None"
  shows "tree_ok (mark_full E r en gl s)" (is "tree_ok ?t")
proof -
  have ok: "maps_ok s" "children_ok s" "parents_ok s" "root_ok s" using assms(1) by (simp_all add: tree_ok_def)
  let ?q = "length (pnodes s)"
  have pn: "pnode_at ?t p = pnode_at s p" if "p < ?q" for p using that by (simp add: mark_full_def pnode_at_def nth_append)
  have new: "p_node (pnode_at ?t ?q) = p_node (pnode_at s en)" "p_full (pnode_at ?t ?q)" "p_children (pnode_at ?t ?q) = []"
    by (simp_all add: mark_full_def pnode_at_def new_pnode_def)
  have node: "node_at ?t m = node_at s m" for m by (simp add: mark_full_def node_at_def)
  have maps: "emptyNodeByRoot ?t = emptyNodeByRoot s"
    "fullNodeByRoot ?t x = Some p \<longleftrightarrow> fullNodeByRoot s x = Some p \<or> x = r \<and> p = ?q" for x p
    using assms(3) by (auto simp: mark_full_def)
  have live: "live ?t p \<longleftrightarrow> live s p \<or> p = ?q" for p by (auto simp: live_def maps)
  have lp: "pnode_at ?t p = pnode_at s p" if "live s p" for p using pn[OF live_range(1)[OF ok(1) that]] .
  have tree: "in_tree ?t m = in_tree s m" for m
  proof -
    have "pnode_at ?t e = pnode_at s e" if "emptyNode s m = Some e" for e using lp[OF empty_live[OF that]] .
    then show ?thesis by (auto simp: in_tree_def emptyNode_def maps node) (simp_all add: mark_full_def)
  qed
  have "maps_ok ?t"
  proof -
    have "p < length (pnodes ?t) \<and> \<not> p_full (pnode_at ?t p) \<and> p_node (pnode_at ?t p) < length (nodes ?t) \<and>
        n_root (cnode ?t p) = x" if "emptyNodeByRoot s x = Some p" for x p
      using maps_okD[OF ok(1) that] pn[of p] by (simp add: node) (simp add: mark_full_def)
    moreover have "p < length (pnodes ?t) \<and> p_full (pnode_at ?t p) \<and>
        (\<exists>e. emptyNodeByRoot s x = Some e \<and> p_node (pnode_at ?t e) = p_node (pnode_at ?t p))"
      if "fullNodeByRoot s x = Some p \<or> x = r \<and> p = ?q" for x p
      using that
    proof
      assume p: "fullNodeByRoot s x = Some p"
      obtain e where e: "emptyNodeByRoot s x = Some e" "p_node (pnode_at s e) = p_node (pnode_at s p)"
        using maps_ok_fullD(3)[OF ok(1) p] by blast
      then show ?thesis using maps_ok_fullD(1,2)[OF ok(1) p] maps_okD(1)[OF ok(1) e(1)] pn by (auto simp: mark_full_def)
    next
      assume "x = r \<and> p = ?q"
      then show ?thesis using new assms(2) pn[OF maps_okD(1)[OF ok(1) assms(2)]] by (auto simp: mark_full_def)
    qed
    ultimately show ?thesis by (simp add: maps_ok_def maps)
  qed
  moreover have "children_ok ?t" using ok(2) lp new(3) by (auto simp: children_ok_def live tree node)
  moreover have "parents_ok ?t"
    by (rule parents_ok_transfer[OF ok(3)]) (use lp in \<open>simp_all add: live tree node, simp add: mark_full_def\<close>)
  moreover have "treeRootNode ?t = treeRootNode s" by (simp add: mark_full_def)
  then have "root_ok ?t" using ok(4) by (simp add: root_ok_def tree node)
  ultimately show ?thesis by (simp add: tree_ok_def)
qed

text \<open>C10: Adding a payload keeps the tree invariant: \<open>InsertPayload\<close> whatever it returns, and \<open>MarkFullNode\<close>.\<close>

theorem payload_tree_ok:
  assumes "tree_ok (fc_store f)"
  shows "tree_ok (fc_store (snd (InsertPayload E pe f))) \<and> tree_ok (fc_store (MarkFullNode E r f))"
proof -
  have full: "tree_ok (fc_store (upd_store (mark_full E r en gl) f))"
    if "emptyNodeByRoot (fc_store f) r = Some en" "fullNodeByRoot (fc_store f) r = None" for r en gl
    using mark_full_tree_ok[OF assms that] by (simp add: upd_store_def)
  have "skeleton (fc_store (updateNewFullNodeWeight fn g)) = skeleton (fc_store g)" for fn g
    by (simp add: updateNewFullNodeWeight_def upd_store_def Let_def)
  note weight = skeleton_tree_ok[OF this]
  have "tree_ok (fc_store (snd (InsertPayload E pe f)))"
    using assms weight[OF full]
    by (auto simp: InsertPayload_def bind_def seq_def proc_eval split: option.splits outcome.splits)
  then show ?thesis using assms full by (auto simp: MarkFullNode_def split: option.split)
qed

text \<open>The example store before the payload of block 2 arrives.\<close>

definition awaiting_store :: store where
  "awaiting_store = example_store\<lparr>fullNodeByRoot := [1 \<mapsto> 1]\<rparr>"

lemma awaiting_fields [simp]:
  "nodes awaiting_store = nodes example_store" "pnodes awaiting_store = pnodes example_store"
  "emptyNodeByRoot awaiting_store = [1 \<mapsto> 0, 2 \<mapsto> 2]" "fullNodeByRoot awaiting_store = [1 \<mapsto> 1]"
  "node_at awaiting_store n = node_at example_store n" "pnode_at awaiting_store p = pnode_at example_store p"
  "treeRootNode awaiting_store = Some 0"
  by (simp_all add: awaiting_store_def node_at_def pnode_at_def)

lemma awaiting_in_tree: "in_tree awaiting_store n \<longleftrightarrow> n = 0 \<or> n = 1"
  by (cases "n = 0"; cases "n = 1") (auto simp: in_tree_def emptyNode_def)

lemma awaiting_tree_ok: "tree_ok awaiting_store"
proof -
  have live: "live awaiting_store p \<longleftrightarrow> p \<in> {0, 1, 2}" for p
    by (auto simp: live_def intro: exI[of _ 1] exI[of _ 2])
  have "maps_ok awaiting_store" by (auto simp: maps_ok_def split: if_splits)
  moreover have "children_ok awaiting_store" by (auto simp: children_ok_def live awaiting_in_tree)
  moreover have "parents_ok awaiting_store" by (auto simp: parents_ok_def live awaiting_in_tree)
  moreover have "root_ok awaiting_store" by (auto simp: root_ok_def awaiting_in_tree)
  ultimately show ?thesis by (simp add: tree_ok_def)
qed

theorem payload_witness:
  "let f = New\<lparr>fc_store := awaiting_store\<rparr>; g = snd (InsertPayload example_env (Some (2, Ok 5)) f)
   in tree_ok (fc_store g) \<and> fullNodeByRoot (fc_store g) 2 = Some 4 \<and>
      tree_ok (fc_store (MarkFullNode example_env 2 f)) \<and> fullNodeByRoot (fc_store (MarkFullNode example_env 2 f)) 2 = Some 4"
proof -
  let ?f = "New\<lparr>fc_store := awaiting_store\<rparr>"
  have "fullNodeByRoot (fc_store (snd (InsertPayload example_env (Some (2, Ok 5)) ?f))) 2 = Some 4"
    by (simp add: InsertPayload_def proc_simps upd_store_def mark_full_def updateNewFullNodeWeight_def Let_def)
  moreover have "fullNodeByRoot (fc_store (MarkFullNode example_env 2 ?f)) 2 = Some 4"
    by (simp add: MarkFullNode_def upd_store_def mark_full_def)
  ultimately show ?thesis
    using payload_tree_ok[of ?f example_env "Some (2, Ok 5)" 2] awaiting_tree_ok by (simp add: Let_def)
qed

end
