(* ===== verification/Slasher_Params.thy ===== *)
theory Slasher_Params
  imports Bytes
begin

text \<open>
  The parameters of the slasher (\<open>beacon-chain/slasher/params.go\<close>): how the spans of all validators
  are cut into two-dimensional chunks. Every chunk holds \<open>chunkSize\<close> epochs for each of
  \<open>validatorChunkSize\<close> validators in one flat slice, and is stored under the disk key
  \<open>flatSliceID\<close>. The SSZ encoding of an integer, a library function, is the argument
  \<open>MarshalUint64\<close>. The lemmas give the exact addresses as natural numbers and show that within a
  window of \<open>historyLength\<close> epochs no two cells share an address.
\<close>

record slasher_params =
  chunkSize :: u64
  validatorChunkSize :: u64
  historyLength :: epoch

definition DefaultParams :: slasher_params where
  "DefaultParams = \<lparr>chunkSize = 16, validatorChunkSize = 256, historyLength = 4096\<rparr>"

definition NewParams :: "u64 \<Rightarrow> u64 \<Rightarrow> epoch \<Rightarrow> slasher_params" where
  "NewParams c k h = \<lparr>chunkSize = c, validatorChunkSize = k, historyLength = h\<rparr>"

definition chunkIndex :: "slasher_params \<Rightarrow> epoch \<Rightarrow> ('e, u64) outcome" where
  "chunkIndex p e =
     obind (opanic (Epoch_Mod e (historyLength p))) (\<lambda>m. opanic (Epoch_Div m (chunkSize p)))"

definition validatorChunkIndex :: "slasher_params \<Rightarrow> validator_index \<Rightarrow> ('e, u64) outcome" where
  "validatorChunkIndex p v = opanic (ValidatorIndex_Div v (validatorChunkSize p))"

definition firstEpoch :: "slasher_params \<Rightarrow> u64 \<Rightarrow> epoch" where
  "firstEpoch p i = i * chunkSize p"

definition lastEpoch :: "slasher_params \<Rightarrow> u64 \<Rightarrow> ('e, epoch) outcome" where
  "lastEpoch p i = opanic (Epoch_Add (firstEpoch p i) (chunkSize p - 1))"

definition chunkOffset :: "slasher_params \<Rightarrow> epoch \<Rightarrow> ('e, u64) outcome" where
  "chunkOffset p e = opanic (Epoch_Mod e (chunkSize p))"

definition validatorOffset :: "slasher_params \<Rightarrow> validator_index \<Rightarrow> ('e, u64) outcome" where
  "validatorOffset p v = opanic (ValidatorIndex_Mod v (validatorChunkSize p))"

definition cellIndex :: "slasher_params \<Rightarrow> validator_index \<Rightarrow> epoch \<Rightarrow> ('e, u64) outcome" where
  "cellIndex p v e =
     obind (validatorOffset p v) (\<lambda>vo.
     obind (chunkOffset p e) (\<lambda>co. Ok (vo * chunkSize p + co)))"

definition flatSliceID :: "(u64 \<Rightarrow> bytes) \<Rightarrow> slasher_params \<Rightarrow> u64 \<Rightarrow> u64 \<Rightarrow> ('e, bytes) outcome" where
  "flatSliceID MarshalUint64 p vc c =
     obind (opanic (Epoch_Div (historyLength p) (chunkSize p))) (\<lambda>width.
     obind (opanic (Epoch_Mul width vc)) (\<lambda>m.
     obind (opanic (Epoch_Add m c)) (\<lambda>k. Ok (MarshalUint64 k))))"

text \<open>The loop \<open>for i := low; i < high; i++\<close> never wraps, since \<open>i < high\<close> before every increment.\<close>

definition ValidatorIndexesInChunk :: "slasher_params \<Rightarrow> u64 \<Rightarrow> validator_index list" where
  "ValidatorIndexesInChunk p vc =
     (let low = vc * validatorChunkSize p; high = (vc + 1) * validatorChunkSize p
      in map of_nat [unat low ..< unat high])"

section \<open>Well-formed parameters\<close>

definition params_ok :: "slasher_params \<Rightarrow> bool" where
  "params_ok p \<longleftrightarrow> chunkSize p \<noteq> 0 \<and> validatorChunkSize p \<noteq> 0 \<and> chunkSize p \<le> historyLength p \<and>
     unat (chunkSize p) * unat (validatorChunkSize p) < 2 ^ 64"

lemma DefaultParams_ok: "params_ok DefaultParams"
  by (simp add: params_ok_def DefaultParams_def)

lemma params_okD:
  assumes "params_ok p"
  shows "chunkSize p \<noteq> 0" "validatorChunkSize p \<noteq> 0" "historyLength p \<noteq> 0"
    "0 < unat (chunkSize p)" "0 < unat (validatorChunkSize p)" "0 < unat (historyLength p)"
    "unat (chunkSize p) \<le> unat (historyLength p)"
proof -
  show c: "chunkSize p \<noteq> 0" and k: "validatorChunkSize p \<noteq> 0"
    and le: "unat (chunkSize p) \<le> unat (historyLength p)"
    using assms by (simp_all add: params_ok_def word_le_nat_alt)
  show c0: "0 < unat (chunkSize p)" using c by (simp add: unat_gt_0)
  show "0 < unat (validatorChunkSize p)" using k by (simp add: unat_gt_0)
  show h: "0 < unat (historyLength p)" using c0 le by linarith
  then show "historyLength p \<noteq> 0" by (simp add: unat_gt_0)
qed

section \<open>Addresses as natural numbers\<close>

definition chunk_no :: "slasher_params \<Rightarrow> nat \<Rightarrow> nat" where
  "chunk_no p e = e mod unat (historyLength p) div unat (chunkSize p)"

definition cell_no :: "slasher_params \<Rightarrow> validator_index \<Rightarrow> nat \<Rightarrow> nat" where
  "cell_no p v e = unat v mod unat (validatorChunkSize p) * unat (chunkSize p) + e mod unat (chunkSize p)"

lemma row_major_bound:
  fixes a b m n :: nat
  assumes "a < m" and "b < n"
  shows "a * n + b < n * m"
proof -
  from assms(1) have "Suc a * n \<le> m * n" by (intro mult_le_mono1) simp
  with assms(2) show ?thesis by (simp add: algebra_simps)
qed

lemma row_major_inj:
  fixes a b a' b' n :: nat
  assumes "a * n + b = a' * n + b'" and "b < n" and "b' < n"
  shows "a = a' \<and> b = b'"
proof -
  have "(a * n + b) div n = a" "(a * n + b) mod n = b" using assms(2) by simp_all
  moreover have "(a' * n + b') div n = a'" "(a' * n + b') mod n = b'" using assms(3) by simp_all
  ultimately show ?thesis using assms(1) by metis
qed

lemma cell_no_bound:
  "params_ok p \<Longrightarrow> cell_no p v e < unat (chunkSize p) * unat (validatorChunkSize p)"
  unfolding cell_no_def by (rule row_major_bound) (simp_all add: params_okD)

lemma chunkIndex_eq:
  assumes "params_ok p"
  shows "chunkIndex p e = Ok (e mod historyLength p div chunkSize p)"
    and "unat (e mod historyLength p div chunkSize p) = chunk_no p (unat e)"
  by (simp_all add: chunkIndex_def epoch_arith.panicking_eq params_okD[OF assms] chunk_no_def unat_div unat_mod)

lemma cellIndex_eq:
  assumes "params_ok p"
  shows "\<exists>c. cellIndex p v e = Ok c \<and> unat c = cell_no p v (unat e)"
proof -
  let ?C = "unat (chunkSize p)" and ?K = "unat (validatorChunkSize p)"
  have b: "cell_no p v (unat e) < 2 ^ 64"
    using cell_no_bound[OF assms, of v "unat e"] assms by (simp add: params_ok_def)
  then have m: "unat (v mod validatorChunkSize p) * ?C < 2 ^ 64"
    by (simp add: cell_no_def unat_mod)
  have "unat (v mod validatorChunkSize p * chunkSize p + e mod chunkSize p) = cell_no p v (unat e)"
    using b by (simp add: cell_no_def unat_mod unat_word_ariths mod_mod_trivial)
  then show ?thesis
    by (simp add: cellIndex_def validatorOffset_def chunkOffset_def ValidatorIndex_Mod_def
        epoch_arith.panicking_eq params_okD[OF assms])
qed

lemma cellIndex_Ok:
  assumes "params_ok p" and "cellIndex p v e = (Ok c :: ('e, u64) outcome)"
  shows "unat c = cell_no p v (unat e)"
proof -
  obtain c' where "cellIndex p v e = (Ok c' :: ('e, u64) outcome)" "unat c' = cell_no p v (unat e)"
    using cellIndex_eq[OF assms(1)] by blast
  then show ?thesis using assms(2) by simp
qed

lemma validatorChunkIndex_eq:
  "params_ok p \<Longrightarrow> validatorChunkIndex p v = Ok (v div validatorChunkSize p)"
  by (simp add: validatorChunkIndex_def ValidatorIndex_Div_def params_okD)

text \<open>Two epochs of one history window that fall into the same chunk at the same offset are equal.\<close>

lemma window_position_inj:
  fixes a b h c :: nat
  assumes "c dvd h" and "0 < c" and "0 < h" and "a \<le> b" and "b < a + h"
    and "a mod h div c = b mod h div c" and "a mod c = b mod c"
  shows "a = b"
proof -
  have "(a mod h) mod c = (b mod h) mod c" using assms(1,7) by (simp add: mod_mod_cancel)
  then have "a mod h = b mod h" using assms(6) by (metis div_mult_mod_eq)
  then have "h dvd b - a" using mod_eq_dvd_iff_nat[OF assms(4), of h] by simp
  moreover have "b - a < h" using assms(4,5) by linarith
  ultimately show "a = b" using assms(4) by (auto dest: dvd_imp_le)
qed

lemma flatSliceID_eq:
  assumes "params_ok p" and "unat vc * (unat (historyLength p) div unat (chunkSize p)) + unat c < 2 ^ 64"
  shows "\<exists>k. flatSliceID ms p vc c = Ok (ms k) \<and>
    unat k = unat vc * (unat (historyLength p) div unat (chunkSize p)) + unat c"
proof -
  let ?w = "historyLength p div chunkSize p"
  have w: "unat ?w = unat (historyLength p) div unat (chunkSize p)" by (simp add: unat_div)
  with assms(2) have m: "unat (?w * vc) = unat vc * (unat (historyLength p) div unat (chunkSize p))"
    by (subst unat_mult_u64) (simp_all add: mult.commute)
  have "unat (?w * vc + c) = unat vc * (unat (historyLength p) div unat (chunkSize p)) + unat c"
    using assms(2) m by (subst unat_add_u64) simp_all
  moreover have "flatSliceID ms p vc c = Ok (ms (?w * vc + c))" using assms m w
    by (simp add: flatSliceID_def epoch_arith.panicking_eq params_okD mult.commute)
  ultimately show ?thesis by blast
qed

lemma flatSliceID_number:
  assumes "params_ok p" and "flatSliceID ms p vc c = Ok key"
  shows "\<exists>k. key = ms k \<and> unat k = unat vc * (unat (historyLength p) div unat (chunkSize p)) + unat c"
proof -
  let ?w = "historyLength p div chunkSize p"
  have b: "unat ?w * unat vc < 2 ^ 64" "unat (?w * vc) + unat c < 2 ^ 64" and key: "key = ms (?w * vc + c)"
    using assms by (auto simp: flatSliceID_def epoch_arith.panicking_eq params_okD split: if_splits)
  have "unat (?w * vc + c) = unat ?w * unat vc + unat c"
    using unat_add_u64[OF b(2)] unat_mult_u64[OF b(1)] by simp
  then show ?thesis using key by (auto simp: unat_div mult.commute)
qed

lemma cell_no_eq_iff:
  assumes "params_ok p"
  shows "cell_no p v a = cell_no p v' b \<longleftrightarrow>
    v mod validatorChunkSize p = v' mod validatorChunkSize p \<and> a mod unat (chunkSize p) = b mod unat (chunkSize p)"
  unfolding cell_no_def
  using row_major_inj[of "unat v mod unat (validatorChunkSize p)" "unat (chunkSize p)" "a mod unat (chunkSize p)"
      "unat v' mod unat (validatorChunkSize p)" "b mod unat (chunkSize p)"]
  by (auto simp: params_okD[OF assms] word_unat_eq_iff unat_mod)

lemma same_cell:
  fixes a b c :: nat
  assumes "a div c = b div c" and "a mod c = b mod c"
  shows "a = b"
  using assms by (metis div_mult_mod_eq)

text \<open>C24: Within any window of \<open>historyLength\<close> epochs no two cells share a place on disk: if the chunk size
  divides the history and two validators and epochs of the window have the same disk key and the same
  cell, they are the same validator and the same epoch.\<close>

theorem chunk_address_injective:
  assumes "params_ok p" and "unat (chunkSize p) dvd unat (historyLength p)" and "\<forall>x y. ms x = ms y \<longrightarrow> x = y"
    and "validatorChunkIndex p v = Ok vc" and "validatorChunkIndex p v' = Ok vc'"
    and "chunkIndex p e = Ok c" and "chunkIndex p e' = Ok c'"
    and "flatSliceID ms p vc c = Ok key" and "flatSliceID ms p vc' c' = Ok key"
    and "cellIndex p v e = Ok cell" and "cellIndex p v' e' = Ok cell"
    and "unat e \<le> unat e'" and "unat e' < unat e + unat (historyLength p)"
  shows "v = v' \<and> e = e'"
proof -
  let ?C = "unat (chunkSize p)" and ?H = "unat (historyLength p)" and ?K = "unat (validatorChunkSize p)"
  note pos = params_okD[OF assms(1)]
  have vc: "unat vc = unat v div ?K" "unat vc' = unat v' div ?K"
    using assms(4,5) by (auto simp: validatorChunkIndex_eq[OF assms(1)] unat_div)
  have c: "unat c = unat e mod ?H div ?C" "unat c' = unat e' mod ?H div ?C"
    using assms(6,7) by (auto simp: chunkIndex_eq[OF assms(1)] unat_div unat_mod)
  have bound: "n mod ?H div ?C < ?H div ?C" for n
    using assms(2) pos(4,6) by (auto simp: div_less_iff_less_mult)
  obtain k k' where k: "key = ms k" "unat k = unat vc * (?H div ?C) + unat c"
    and k': "key = ms k'" "unat k' = unat vc' * (?H div ?C) + unat c'"
    using flatSliceID_number[OF assms(1,8)] flatSliceID_number[OF assms(1,9)] by blast
  have "ms k = ms k'" using k(1) k'(1) by simp
  with assms(3) have "k = k'" by blast
  then have "unat vc * (?H div ?C) + unat c = unat vc' * (?H div ?C) + unat c'" using k(2) k'(2) by simp
  then have eq: "unat vc = unat vc' \<and> unat c = unat c'"
    by (rule row_major_inj) (simp_all add: c bound)
  have "cell_no p v (unat e) = cell_no p v' (unat e')"
    using cellIndex_Ok[OF assms(1,10)] cellIndex_Ok[OF assms(1,11)] by simp
  then have cell: "v mod validatorChunkSize p = v' mod validatorChunkSize p" "unat e mod ?C = unat e' mod ?C"
    by (simp_all add: cell_no_eq_iff[OF assms(1)])
  have "unat v mod ?K = unat v' mod ?K" using arg_cong[OF cell(1), of unat] by (simp add: unat_mod)
  moreover have "unat v div ?K = unat v' div ?K" using eq by (simp add: vc)
  ultimately have "unat v = unat v'" by (rule same_cell[rotated])
  moreover have "unat e = unat e'"
    by (rule window_position_inj[OF assms(2) pos(4,6) assms(12,13)]) (use eq c cell(2) in simp_all)
  ultimately show ?thesis by (simp add: word_unat_eq_iff)
qed

theorem chunk_address_witness:
  "(6 :: validator_index) = 6 \<and> (6 :: epoch) = 6 \<and>
   flatSliceID (put_le 8) (NewParams 3 3 12) 2 2 = (Ok (put_le 8 10) :: (math_error, bytes) outcome)"
proof -
  have inj: "\<forall>x y. put_le 8 x = put_le 8 y \<longrightarrow> x = y" by (metis get_le_put_le)
  have key: "flatSliceID (put_le 8) (NewParams 3 3 12) 2 2 = Ok (put_le 8 10)"
    by (simp add: flatSliceID_def NewParams_def epoch_arith.panicking_eq)
  have "(6 :: validator_index) = 6 \<and> (6 :: epoch) = 6"
    by (rule chunk_address_injective[OF _ _ inj _ _ _ _ key key, where cell = 0])
      (simp_all add: params_ok_def NewParams_def validatorChunkIndex_def ValidatorIndex_Div_def chunkIndex_def
        cellIndex_def validatorOffset_def chunkOffset_def ValidatorIndex_Mod_def epoch_arith.panicking_eq)
  then show ?thesis using key by simp
qed

end
