(* ===== verification/Slasher_Types.thy ===== *)
theory Slasher_Types
  imports Slots Slasher_Params
begin

text \<open>
  The data of the slasher: attestations and block headers as the protocol messages have them
  (\<open>proto/prysm/v1alpha1\<close>), the wrappers of \<open>beacon-chain/slasher/types/types.go\<close>, the work queues
  of \<open>queue.go\<close> and the integrity checks of \<open>helpers.go\<close>. An optional pointer is an \<open>option\<close>;
  following a nil pointer panics. The two indexed attestation messages differ in their version
  only, so both carry the same record.

  A slashing is built in the same way in four places of the code: the two attestations are brought
  to one version, and the one with the lower data root comes first. \<open>build_slashing\<close> is that
  common part; it returns the wrappers too, since the code updates them in place.
\<close>

section \<open>Messages\<close>

record att_checkpoint =
  c_Epoch :: epoch
  c_Root :: bytes

record attestation_data =
  d_Slot :: slot
  d_CommitteeIndex :: u64
  d_BeaconBlockRoot :: bytes
  d_Source :: "att_checkpoint option"
  d_Target :: "att_checkpoint option"

record indexed_attestation =
  AttestingIndices :: "validator_index list"
  Data :: "attestation_data option"
  Signature :: bytes

datatype indexed_att =
    IndexedAttestation indexed_attestation
  | IndexedAttestationElectra indexed_attestation

datatype att_slashing =
    AttesterSlashing indexed_attestation indexed_attestation
  | AttesterSlashingElectra indexed_attestation indexed_attestation

record beacon_block_header =
  h_Slot :: slot
  h_ProposerIndex :: validator_index
  h_ParentRoot :: bytes
  h_StateRoot :: bytes
  h_BodyRoot :: bytes

record signed_block_header =
  sh_Header :: "beacon_block_header option"
  sh_Signature :: bytes

record proposer_slashing =
  Header_1 :: signed_block_header
  Header_2 :: signed_block_header

fun att_body :: "indexed_att \<Rightarrow> indexed_attestation" where
  "att_body (IndexedAttestation a) = a"
| "att_body (IndexedAttestationElectra a) = a"

fun att_Version :: "indexed_att \<Rightarrow> fork_version" where
  "att_Version (IndexedAttestation _) = Phase0"
| "att_Version (IndexedAttestationElectra _) = Electra"

definition att_IsNil :: "indexed_att \<Rightarrow> bool" where
  "att_IsNil a \<longleftrightarrow> Data (att_body a) = None"

fun slashing_atts :: "att_slashing \<Rightarrow> indexed_attestation \<times> indexed_attestation" where
  "slashing_atts (AttesterSlashing a b) = (a, b)"
| "slashing_atts (AttesterSlashingElectra a b) = (a, b)"

section \<open>Wrappers, chunk kinds and errors\<close>

datatype ChunkKind = MinSpan | MaxSpan

record indexed_attestation_wrapper =
  w_IndexedAttestation :: "indexed_att option"
  w_DataRoot :: root

record signed_block_header_wrapper =
  SignedBeaconBlockHeader :: "signed_block_header option"
  HeaderRoot :: root

record attester_double_vote =
  dv_Target :: epoch
  dv_ValidatorIndex :: validator_index
  Wrapper_1 :: indexed_attestation_wrapper
  Wrapper_2 :: indexed_attestation_wrapper

record attested_epoch_for_validator =
  ae_ValidatorIndex :: validator_index
  ae_Epoch :: epoch

text \<open>
  An error keeps its innermost cause; the texts that \<open>errors.Wrap\<close> adds on the way are left out.
  \<open>Diverges\<close> stands for a loop that has used up its fuel, \<open>StoreError\<close> for an error of the database,
  \<open>TimedOut\<close> for a context that has expired.
\<close>

datatype slasher_error =
    ChunkWrongLength nat u64
  | CellOutOfBounds u64 nat
  | BaseAfterEpoch epoch epoch
  | WrongAttestationType
  | ChunkMissing u64
  | WrongCount nat nat
  | EpochOverflow
  | EpochAfterCurrent epoch epoch
  | HashError
  | NilRecord
  | EmptyChunk
  | OddLength nat
  | ShortRecord nat
  | DecodeError
  | StoreError
  | TimedOut
  | SlotsError slot_error
  | Diverges

section \<open>Reading a wrapped attestation\<close>

fun deref_ptr :: "'a option \<Rightarrow> ('e, 'a) outcome" where
  "deref_ptr None = Panic"
| "deref_ptr (Some a) = Ok a"

definition w_data :: "indexed_attestation_wrapper \<Rightarrow> ('e, attestation_data) outcome" where
  "w_data w = obind (deref_ptr (w_IndexedAttestation w)) (\<lambda>a. deref_ptr (Data (att_body a)))"

definition source_of :: "indexed_attestation_wrapper \<Rightarrow> ('e, epoch) outcome" where
  "source_of w = obind (w_data w) (\<lambda>d. obind (deref_ptr (d_Source d)) (\<lambda>c. Ok (c_Epoch c)))"

definition target_of :: "indexed_attestation_wrapper \<Rightarrow> ('e, epoch) outcome" where
  "target_of w = obind (w_data w) (\<lambda>d. obind (deref_ptr (d_Target d)) (\<lambda>c. Ok (c_Epoch c)))"

definition indices_of :: "indexed_attestation_wrapper \<Rightarrow> ('e, validator_index list) outcome" where
  "indices_of w = obind (deref_ptr (w_IndexedAttestation w)) (\<lambda>a. Ok (AttestingIndices (att_body a)))"

section \<open>Building a slashing\<close>

definition to_electra :: "indexed_attestation_wrapper \<Rightarrow> indexed_attestation_wrapper" where
  "to_electra w =
     w\<lparr>w_IndexedAttestation :=
        map_option (\<lambda>a. IndexedAttestationElectra (att_body a)) (w_IndexedAttestation w)\<rparr>"

definition unifyAttWrapperVersion ::
  "indexed_attestation_wrapper \<Rightarrow> indexed_attestation_wrapper \<Rightarrow>
   ('e, indexed_attestation_wrapper \<times> indexed_attestation_wrapper) outcome" where
  "unifyAttWrapperVersion w1 w2 =
     obind (deref_ptr (w_IndexedAttestation w1)) (\<lambda>a1.
     obind (deref_ptr (w_IndexedAttestation w2)) (\<lambda>a2.
       if att_Version a1 = att_Version a2 then Ok (w1, w2)
       else if att_Version a1 \<noteq> Electra then Ok (to_electra w1, w2)
       else Ok (w1, to_electra w2)))"

fun as_electra :: "indexed_att \<Rightarrow> (slasher_error, indexed_attestation) outcome" where
  "as_electra (IndexedAttestationElectra a) = Ok a"
| "as_electra (IndexedAttestation a) = Fail WrongAttestationType"

fun as_phase0 :: "indexed_att \<Rightarrow> (slasher_error, indexed_attestation) outcome" where
  "as_phase0 (IndexedAttestation a) = Ok a"
| "as_phase0 (IndexedAttestationElectra a) = Fail WrongAttestationType"

definition build_slashing ::
  "indexed_attestation_wrapper \<Rightarrow> indexed_attestation_wrapper \<Rightarrow>
   (slasher_error, att_slashing \<times> indexed_attestation_wrapper \<times> indexed_attestation_wrapper) outcome" where
  "build_slashing w1 w2 =
     obind (unifyAttWrapperVersion w1 w2) (\<lambda>(u1, u2).
     obind (deref_ptr (w_IndexedAttestation u1)) (\<lambda>a1.
     obind (deref_ptr (w_IndexedAttestation u2)) (\<lambda>a2.
       if att_Version a1 \<ge> Electra then
         obind (as_electra a1) (\<lambda>e1. obind (as_electra a2) (\<lambda>e2.
           Ok (if w_DataRoot u1 > w_DataRoot u2 then AttesterSlashingElectra e2 e1
               else AttesterSlashingElectra e1 e2, u1, u2)))
       else
         obind (as_phase0 a1) (\<lambda>e1. obind (as_phase0 a2) (\<lambda>e2.
           Ok (if w_DataRoot u1 > w_DataRoot u2 then AttesterSlashing e2 e1
               else AttesterSlashing e1 e2, u1, u2))))))"

section \<open>Work queues (\<open>queue.go\<close>)\<close>

text \<open>Both queues are slices behind a lock; each method runs as one critical section.\<close>

record 'a work_queue =
  q_items :: "'a list"

definition new_queue :: "'a work_queue" where
  "new_queue = \<lparr>q_items = []\<rparr>"

definition q_push :: "'a \<Rightarrow> 'a work_queue \<Rightarrow> 'a work_queue" where
  "q_push x q = q\<lparr>q_items := q_items q @ [x]\<rparr>"

definition q_dequeue :: "'a work_queue \<Rightarrow> 'a list \<times> 'a work_queue" where
  "q_dequeue q = (q_items q, q\<lparr>q_items := []\<rparr>)"

definition q_size :: "'a work_queue \<Rightarrow> nat" where
  "q_size q = length (q_items q)"

definition q_extend :: "'a list \<Rightarrow> 'a work_queue \<Rightarrow> 'a work_queue" where
  "q_extend xs q = q\<lparr>q_items := q_items q @ xs\<rparr>"

section \<open>Integrity checks (\<open>helpers.go\<close>)\<close>

definition BLSSignatureLength :: nat where
  "BLSSignatureLength = 96"

definition validateAttestationIntegrity :: "indexed_att option \<Rightarrow> bool" where
  "validateAttestationIntegrity ao =
     (case ao of None \<Rightarrow> False
      | Some a \<Rightarrow>
        (case Data (att_body a) of None \<Rightarrow> False
         | Some d \<Rightarrow>
           (case (d_Source d, d_Target d) of
              (Some s, Some t) \<Rightarrow> (c_Epoch s = 0 \<and> c_Epoch t = 0) \<or> c_Epoch s < c_Epoch t
            | _ \<Rightarrow> False)))"

definition validateBlockHeaderIntegrity :: "signed_block_header option \<Rightarrow> bool" where
  "validateBlockHeaderIntegrity ho =
     (case ho of None \<Rightarrow> False
      | Some h \<Rightarrow> sh_Header h \<noteq> None \<and> length (sh_Signature h) = BLSSignatureLength \<and>
          sh_Signature h \<noteq> replicate BLSSignatureLength 0)"

definition isDoubleProposal :: "root \<Rightarrow> root \<Rightarrow> bool" where
  "isDoubleProposal incoming existing = (if existing = 0 then False else incoming \<noteq> existing)"

section \<open>Well-formed wrappers\<close>

text \<open>\<open>votes w s t\<close>: the wrapper holds an attestation with source \<open>s\<close> and target \<open>t\<close>.\<close>

definition votes :: "indexed_attestation_wrapper \<Rightarrow> epoch \<Rightarrow> epoch \<Rightarrow> bool" where
  "votes w s t \<longleftrightarrow> (source_of w :: (slasher_error, epoch) outcome) = Ok s \<and>
     (target_of w :: (slasher_error, epoch) outcome) = Ok t"

lemma deref_ptr_Ok_iff [outcome_iff]: "deref_ptr x = Ok a \<longleftrightarrow> x = Some a"
  by (cases x) auto

lemma w_data_Ok_iff:
  "w_data w = Ok d \<longleftrightarrow> (\<exists>a. w_IndexedAttestation w = Some a \<and> Data (att_body a) = Some d)"
  by (auto simp: w_data_def outcome_iff)

lemma source_of_Ok_iff:
  "source_of w = Ok s \<longleftrightarrow> (\<exists>a d c. w_IndexedAttestation w = Some a \<and> Data (att_body a) = Some d \<and>
     d_Source d = Some c \<and> c_Epoch c = s)"
  by (auto simp: source_of_def w_data_Ok_iff outcome_iff)

lemma target_of_Ok_iff:
  "target_of w = Ok t \<longleftrightarrow> (\<exists>a d c. w_IndexedAttestation w = Some a \<and> Data (att_body a) = Some d \<and>
     d_Target d = Some c \<and> c_Epoch c = t)"
  by (auto simp: target_of_def w_data_Ok_iff outcome_iff)

lemma votesD:
  assumes "votes w s t"
  shows "source_of w = Ok s" "target_of w = Ok t" "\<exists>a. w_IndexedAttestation w = Some a"
  using assms by (auto simp: votes_def source_of_Ok_iff target_of_Ok_iff)

lemma att_body_to_electra:
  "w_IndexedAttestation w = Some a \<Longrightarrow>
   w_IndexedAttestation (to_electra w) = Some (IndexedAttestationElectra (att_body a))"
  by (simp add: to_electra_def)

text \<open>
  Building a slashing from two well-formed wrappers always succeeds: bringing both to one version
  makes the type assertions of the code hold. The slashing holds the two attestations, lower data
  root first, and the wrappers keep their contents up to the version.
\<close>

definition same_att :: "indexed_attestation_wrapper \<Rightarrow> indexed_attestation_wrapper \<Rightarrow> bool" where
  "same_att w w' \<longleftrightarrow> w_DataRoot w = w_DataRoot w' \<and>
     map_option att_body (w_IndexedAttestation w) = map_option att_body (w_IndexedAttestation w')"

lemma same_att_refl [simp]: "same_att w w"
  by (simp add: same_att_def)

lemma same_att_trans: "same_att a b \<Longrightarrow> same_att b c \<Longrightarrow> same_att a c"
  by (simp add: same_att_def)

lemma same_att_to_electra [simp]: "same_att w (to_electra w)" "same_att (to_electra w) w"
  by (cases "w_IndexedAttestation w"; simp add: same_att_def to_electra_def)+

lemma same_att_votes: "same_att w w' \<Longrightarrow> votes w s t \<longleftrightarrow> votes w' s t"
  by (cases "w_IndexedAttestation w"; cases "w_IndexedAttestation w'")
    (simp_all add: same_att_def votes_def source_of_def target_of_def w_data_def)

lemma same_att_indices: "same_att w w' \<Longrightarrow> indices_of w = indices_of w'"
  by (cases "w_IndexedAttestation w"; cases "w_IndexedAttestation w'")
    (simp_all add: same_att_def indices_of_def)

definition holds_pair :: "att_slashing \<Rightarrow> indexed_attestation_wrapper \<Rightarrow> indexed_attestation_wrapper \<Rightarrow> bool" where
  "holds_pair sl w1 w2 \<longleftrightarrow>
     (\<exists>a1 a2. w_IndexedAttestation w1 = Some a1 \<and> w_IndexedAttestation w2 = Some a2 \<and>
        slashing_atts sl = (if w_DataRoot w1 > w_DataRoot w2 then (att_body a2, att_body a1)
                            else (att_body a1, att_body a2)))"

lemma build_slashing_total:
  assumes "w_IndexedAttestation w1 = Some a1" and "w_IndexedAttestation w2 = Some a2"
  shows "\<exists>sl u1 u2. build_slashing w1 w2 = Ok (sl, u1, u2) \<and> holds_pair sl w1 w2 \<and>
    same_att w1 u1 \<and> same_att w2 u2"
  using assms
  by (cases a1; cases a2)
    (auto simp: build_slashing_def unifyAttWrapperVersion_def att_body_to_electra holds_pair_def
      same_att_def less_eq_fork_version_def to_electra_def)

end
