(* ===== verification/Slasher_Chunks.thy ===== *)
theory Slasher_Chunks
  imports Slasher_Types
begin

text \<open>
  Min and max span chunks (\<open>beacon-chain/slasher/chunks.go\<close>). A chunk is a flat slice of 16-bit
  distances; \<open>chunkDataAtEpoch\<close> reads the target epoch that a cell stands for. The two implementations of
  the interface \<open>Chunker\<close> are the constructors of a datatype, and an interface call is a function
  defined by cases on it. \<open>Update\<close> writes the slice in place; here it returns the new slice together with
  the flag \<open>keepGoing\<close>. Its callers drop the slice when it returns an error, so an error carries none.

  The update loops take a fuel argument: the min loop visits every epoch from the start down to zero
  and once more at zero, the max loop every epoch from the start up to the current one.
\<close>

section \<open>Slices\<close>

record span_slice =
  sl_params :: slasher_params
  sl_data :: "u16 list"

datatype chunker = MinSpanChunksSlice span_slice | MaxSpanChunksSlice span_slice

definition Min_NeutralElement :: u16 where
  "Min_NeutralElement = 65535"

definition Max_NeutralElement :: u16 where
  "Max_NeutralElement = 0"

text \<open>The neutral element is written over the whole slice by a loop over its indices.\<close>

definition EmptyMinSpanChunksSlice :: "slasher_params \<Rightarrow> chunker" where
  "EmptyMinSpanChunksSlice p = MinSpanChunksSlice
     \<lparr>sl_params = p, sl_data = replicate (unat (chunkSize p * validatorChunkSize p)) Min_NeutralElement\<rparr>"

definition EmptyMaxSpanChunksSlice :: "slasher_params \<Rightarrow> chunker" where
  "EmptyMaxSpanChunksSlice p = MaxSpanChunksSlice
     \<lparr>sl_params = p, sl_data = replicate (unat (chunkSize p * validatorChunkSize p)) Max_NeutralElement\<rparr>"

definition MinChunkSpansSliceFrom :: "slasher_params \<Rightarrow> u16 list \<Rightarrow> (slasher_error, chunker) outcome" where
  "MinChunkSpansSliceFrom p chunk =
     (let requiredLen = chunkSize p * validatorChunkSize p in
      if of_nat (length chunk) \<noteq> requiredLen then Fail (ChunkWrongLength (length chunk) requiredLen)
      else Ok (MinSpanChunksSlice \<lparr>sl_params = p, sl_data = chunk\<rparr>))"

definition MaxChunkSpansSliceFrom :: "slasher_params \<Rightarrow> u16 list \<Rightarrow> (slasher_error, chunker) outcome" where
  "MaxChunkSpansSliceFrom p chunk =
     (let requiredLen = chunkSize p * validatorChunkSize p in
      if of_nat (length chunk) \<noteq> requiredLen then Fail (ChunkWrongLength (length chunk) requiredLen)
      else Ok (MaxSpanChunksSlice \<lparr>sl_params = p, sl_data = chunk\<rparr>))"

section \<open>Cells\<close>

definition chunkDataAtEpoch ::
  "slasher_params \<Rightarrow> u16 list \<Rightarrow> validator_index \<Rightarrow> epoch \<Rightarrow> (slasher_error, epoch) outcome" where
  "chunkDataAtEpoch p chunk v e =
     (let requiredLen = chunkSize p * validatorChunkSize p in
      if of_nat (length chunk) \<noteq> requiredLen then Fail (ChunkWrongLength (length chunk) requiredLen)
      else obind (cellIndex p v e) (\<lambda>cellIdx.
        if cellIdx \<ge> of_nat (length chunk) then Fail (CellOutOfBounds cellIdx (length chunk))
        else opanic (Epoch_Add e (ucast (chunk ! unat cellIdx)))))"

definition setChunkRawDistance ::
  "slasher_params \<Rightarrow> u16 list \<Rightarrow> validator_index \<Rightarrow> epoch \<Rightarrow> u16 \<Rightarrow> (slasher_error, u16 list) outcome" where
  "setChunkRawDistance p chunk v e distance =
     obind (cellIndex p v e) (\<lambda>cellIdx.
       if cellIdx \<ge> of_nat (length chunk) then Fail (CellOutOfBounds cellIdx (length chunk))
       else Ok (chunk[unat cellIdx := distance]))"

definition epochDistance :: "epoch \<Rightarrow> epoch \<Rightarrow> (slasher_error, u16) outcome" where
  "epochDistance e baseEpoch =
     (if baseEpoch > e then Fail (BaseAfterEpoch baseEpoch e)
      else obind (opanic (Epoch_Sub e baseEpoch)) (\<lambda>d. Ok (ucast d)))"

definition setChunkDataAtEpoch ::
  "slasher_params \<Rightarrow> u16 list \<Rightarrow> validator_index \<Rightarrow> epoch \<Rightarrow> epoch \<Rightarrow> (slasher_error, u16 list) outcome" where
  "setChunkDataAtEpoch p chunk v epochInChunk targetEpoch =
     obind (epochDistance targetEpoch epochInChunk) (\<lambda>distance.
       setChunkRawDistance p chunk v epochInChunk distance)"

section \<open>Checking an attestation against a chunk\<close>

text \<open>
  The database is the argument \<open>AttestationRecordForValidator\<close>. The result is the slashing, if any, and
  the incoming wrapper, which may have been brought to a later version.
\<close>

definition Min_CheckSlashable ::
  "(validator_index \<Rightarrow> epoch \<Rightarrow> (slasher_error, indexed_attestation_wrapper option) outcome) \<Rightarrow>
   span_slice \<Rightarrow> validator_index \<Rightarrow> indexed_attestation_wrapper \<Rightarrow>
   (slasher_error, att_slashing option \<times> indexed_attestation_wrapper) outcome" where
  "Min_CheckSlashable AttestationRecordForValidator m v incoming =
     obind (source_of incoming) (\<lambda>sourceEpoch.
     obind (target_of incoming) (\<lambda>targetEpoch.
     obind (chunkDataAtEpoch (sl_params m) (sl_data m) v sourceEpoch) (\<lambda>minTarget.
       if targetEpoch \<le> minTarget then Ok (None, incoming)
       else obind (AttestationRecordForValidator v minTarget) (\<lambda>record.
         case record of
           None \<Rightarrow> Ok (None, incoming)
         | Some existing \<Rightarrow>
             obind (source_of existing) (\<lambda>existingSource.
               if existingSource \<le> sourceEpoch then Ok (None, incoming)
               else obind (build_slashing existing incoming) (\<lambda>(slashing, _, incoming').
                 Ok (Some slashing, incoming')))))))"

definition Max_CheckSlashable ::
  "(validator_index \<Rightarrow> epoch \<Rightarrow> (slasher_error, indexed_attestation_wrapper option) outcome) \<Rightarrow>
   span_slice \<Rightarrow> validator_index \<Rightarrow> indexed_attestation_wrapper \<Rightarrow>
   (slasher_error, att_slashing option \<times> indexed_attestation_wrapper) outcome" where
  "Max_CheckSlashable AttestationRecordForValidator m v incoming =
     obind (source_of incoming) (\<lambda>sourceEpoch.
     obind (target_of incoming) (\<lambda>targetEpoch.
     obind (chunkDataAtEpoch (sl_params m) (sl_data m) v sourceEpoch) (\<lambda>maxTarget.
       if targetEpoch \<ge> maxTarget then Ok (None, incoming)
       else obind (AttestationRecordForValidator v maxTarget) (\<lambda>record.
         case record of
           None \<Rightarrow> Ok (None, incoming)
         | Some existing \<Rightarrow>
             obind (source_of existing) (\<lambda>existingSource.
               if existingSource \<ge> sourceEpoch then Ok (None, incoming)
               else obind (build_slashing existing incoming) (\<lambda>(slashing, _, incoming').
                 Ok (Some slashing, incoming')))))))"

section \<open>Updating a chunk\<close>

fun min_update_loop ::
  "nat \<Rightarrow> slasher_params \<Rightarrow> u64 \<Rightarrow> epoch \<Rightarrow> validator_index \<Rightarrow> epoch \<Rightarrow> epoch \<Rightarrow> u16 list \<Rightarrow>
   (slasher_error, bool \<times> u16 list) outcome" where
  "min_update_loop 0 p ci minEpoch v newTarget e d = Fail Diverges"
| "min_update_loop (Suc n) p ci minEpoch v newTarget e d =
     obind (chunkIndex p e) (\<lambda>i.
       if i = ci \<and> e \<ge> minEpoch then
         obind (chunkDataAtEpoch p d v e) (\<lambda>chunkTarget.
           if newTarget < chunkTarget then
             obind (setChunkDataAtEpoch p d v e newTarget)
               (min_update_loop n p ci minEpoch v newTarget (if e > 0 then e - 1 else e))
           else Ok (False, d))
       else Ok (e \<ge> minEpoch, d))"

definition Min_Update ::
  "span_slice \<Rightarrow> u64 \<Rightarrow> epoch \<Rightarrow> validator_index \<Rightarrow> epoch \<Rightarrow> epoch \<Rightarrow>
   (slasher_error, bool \<times> span_slice) outcome" where
  "Min_Update m ci currentEpoch v startEpoch newTarget =
     (let p = sl_params m;
          minEpoch = (if currentEpoch > historyLength p - 1 then currentEpoch - (historyLength p - 1) else 0)
      in obind (min_update_loop (unat startEpoch + 2) p ci minEpoch v newTarget startEpoch (sl_data m))
           (\<lambda>(keepGoing, d). Ok (keepGoing, m\<lparr>sl_data := d\<rparr>)))"

fun max_update_loop ::
  "nat \<Rightarrow> slasher_params \<Rightarrow> u64 \<Rightarrow> epoch \<Rightarrow> validator_index \<Rightarrow> epoch \<Rightarrow> epoch \<Rightarrow> u16 list \<Rightarrow>
   (slasher_error, bool \<times> u16 list) outcome" where
  "max_update_loop 0 p ci currentEpoch v newTarget e d = Fail Diverges"
| "max_update_loop (Suc n) p ci currentEpoch v newTarget e d =
     obind (chunkIndex p e) (\<lambda>i.
       if i = ci \<and> e \<le> currentEpoch then
         obind (chunkDataAtEpoch p d v e) (\<lambda>chunkTarget.
           if newTarget > chunkTarget then
             obind (setChunkDataAtEpoch p d v e newTarget)
               (max_update_loop n p ci currentEpoch v newTarget (e + 1))
           else Ok (False, d))
       else Ok (e \<le> currentEpoch, d))"

definition Max_Update ::
  "span_slice \<Rightarrow> u64 \<Rightarrow> epoch \<Rightarrow> validator_index \<Rightarrow> epoch \<Rightarrow> epoch \<Rightarrow>
   (slasher_error, bool \<times> span_slice) outcome" where
  "Max_Update m ci currentEpoch v startEpoch newTarget =
     obind (max_update_loop (unat currentEpoch + 2) (sl_params m) ci currentEpoch v newTarget startEpoch (sl_data m))
       (\<lambda>(keepGoing, d). Ok (keepGoing, m\<lparr>sl_data := d\<rparr>))"

section \<open>Where an update starts and continues\<close>

definition Min_StartEpoch :: "span_slice \<Rightarrow> epoch \<Rightarrow> epoch \<Rightarrow> (slasher_error, epoch option) outcome" where
  "Min_StartEpoch m sourceEpoch currentEpoch =
     (if sourceEpoch = 0 then Ok None
      else
        let difference = (if currentEpoch > historyLength (sl_params m)
                          then currentEpoch - historyLength (sl_params m) else 0)
        in if sourceEpoch \<le> difference then Ok None
           else obind (opanic (Epoch_Sub sourceEpoch 1)) (\<lambda>e. Ok (Some e)))"

definition Max_StartEpoch :: "span_slice \<Rightarrow> epoch \<Rightarrow> epoch \<Rightarrow> (slasher_error, epoch option) outcome" where
  "Max_StartEpoch m sourceEpoch currentEpoch =
     (if sourceEpoch \<ge> currentEpoch then Ok None
      else obind (opanic (Epoch_Add sourceEpoch 1)) (\<lambda>e. Ok (Some e)))"

definition Min_NextChunkStartEpoch :: "span_slice \<Rightarrow> epoch \<Rightarrow> (slasher_error, epoch) outcome" where
  "Min_NextChunkStartEpoch m startEpoch =
     obind (chunkIndex (sl_params m) startEpoch) (\<lambda>i.
       lastEpoch (sl_params m) (if i > 0 then i - 1 else i))"

definition Max_NextChunkStartEpoch :: "span_slice \<Rightarrow> epoch \<Rightarrow> (slasher_error, epoch) outcome" where
  "Max_NextChunkStartEpoch m startEpoch =
     obind (chunkIndex (sl_params m) startEpoch) (\<lambda>i. Ok (firstEpoch (sl_params m) (i + 1)))"

section \<open>The interface \<open>Chunker\<close>\<close>

fun Chunk :: "chunker \<Rightarrow> u16 list" where
  "Chunk (MinSpanChunksSlice m) = sl_data m"
| "Chunk (MaxSpanChunksSlice m) = sl_data m"

fun NeutralElement :: "chunker \<Rightarrow> u16" where
  "NeutralElement (MinSpanChunksSlice m) = Min_NeutralElement"
| "NeutralElement (MaxSpanChunksSlice m) = Max_NeutralElement"

text \<open>Writing through the slice that \<open>Chunk\<close> returns.\<close>

fun put_Chunk :: "chunker \<Rightarrow> u16 list \<Rightarrow> chunker" where
  "put_Chunk (MinSpanChunksSlice m) d = MinSpanChunksSlice (m\<lparr>sl_data := d\<rparr>)"
| "put_Chunk (MaxSpanChunksSlice m) d = MaxSpanChunksSlice (m\<lparr>sl_data := d\<rparr>)"

fun CheckSlashable where
  "CheckSlashable db (MinSpanChunksSlice m) v w = Min_CheckSlashable db m v w"
| "CheckSlashable db (MaxSpanChunksSlice m) v w = Max_CheckSlashable db m v w"

fun Update ::
  "chunker \<Rightarrow> u64 \<Rightarrow> epoch \<Rightarrow> validator_index \<Rightarrow> epoch \<Rightarrow> epoch \<Rightarrow> (slasher_error, bool \<times> chunker) outcome" where
  "Update (MinSpanChunksSlice m) ci cur v start t =
     obind (Min_Update m ci cur v start t) (\<lambda>(k, m'). Ok (k, MinSpanChunksSlice m'))"
| "Update (MaxSpanChunksSlice m) ci cur v start t =
     obind (Max_Update m ci cur v start t) (\<lambda>(k, m'). Ok (k, MaxSpanChunksSlice m'))"

fun StartEpoch :: "chunker \<Rightarrow> epoch \<Rightarrow> epoch \<Rightarrow> (slasher_error, epoch option) outcome" where
  "StartEpoch (MinSpanChunksSlice m) s cur = Min_StartEpoch m s cur"
| "StartEpoch (MaxSpanChunksSlice m) s cur = Max_StartEpoch m s cur"

fun NextChunkStartEpoch :: "chunker \<Rightarrow> epoch \<Rightarrow> (slasher_error, epoch) outcome" where
  "NextChunkStartEpoch (MinSpanChunksSlice m) e = Min_NextChunkStartEpoch m e"
| "NextChunkStartEpoch (MaxSpanChunksSlice m) e = Max_NextChunkStartEpoch m e"

end
