(* ===== verification/Slasher_Detect.thy ===== *)
theory Slasher_Detect
  imports Slasher_Chunks Go_State "HOL-Library.AList"
begin

text \<open>
  The detection service of the slasher (\<open>beacon-chain/slasher\<close>: \<open>helpers.go\<close>, \<open>detect_attestations.go\<close>,
  \<open>detect_blocks.go\<close>, \<open>receive.go\<close>, \<open>process_slashings.go\<close>). The interface \<open>SlasherDatabase\<close> is a record of
  its methods over a database state \<open>'d\<close>; the record \<open>slasher_env\<close> adds what the service reads from
  other packages: the SSZ encoding and roots, signature checks and the operations pool.

  A Go map is an association list, and \<open>map_order\<close> gives the order in which a \<open>range\<close> loop visits its
  keys, which Go leaves open. Attestation wrappers are shared by pointers and can be updated in
  place (\<open>unifyAttWrapperVersion\<close>): a batch is a list of wrappers, and a pointer to one of them is its
  index. Chunks that a failing call has changed are dropped by every caller, so they are threaded as
  values; what has been written to the database stays written.
\<close>

section \<open>The environment and the state\<close>

record double_vote_ref =
  dvr_Target :: epoch
  dvr_ValidatorIndex :: validator_index
  dvr_Wrapper_1 :: indexed_attestation_wrapper
  dvr_Wrapper_2 :: nat

record 'd slasher_db =
  db_SaveLastEpochWritten :: "(validator_index \<times> epoch) list \<Rightarrow> (slasher_error, 'd, unit) proc"
  db_LastEpochWritten ::
    "'d \<Rightarrow> validator_index list \<Rightarrow> (slasher_error, attested_epoch_for_validator list) outcome"
  db_SaveAttestationRecords :: "indexed_attestation_wrapper list \<Rightarrow> (slasher_error, 'd, unit) proc"
  db_AttestationRecord ::
    "'d \<Rightarrow> validator_index \<Rightarrow> epoch \<Rightarrow> (slasher_error, indexed_attestation_wrapper option) outcome"
  db_CheckAttesterDoubleVotes ::
    "'d \<Rightarrow> indexed_attestation_wrapper list \<Rightarrow> (slasher_error, double_vote_ref list) outcome"
  db_LoadSlasherChunks ::
    "'d \<Rightarrow> ChunkKind \<Rightarrow> bytes list \<Rightarrow> (slasher_error, u16 list list \<times> bool list) outcome"
  db_SaveSlasherChunks :: "ChunkKind \<Rightarrow> bytes list \<Rightarrow> u16 list list \<Rightarrow> (slasher_error, 'd, unit) proc"
  db_CheckDoubleBlockProposals ::
    "'d \<Rightarrow> signed_block_header_wrapper list \<Rightarrow> (slasher_error, proposer_slashing list) outcome"
  db_SaveBlockProposals :: "signed_block_header_wrapper list \<Rightarrow> (slasher_error, 'd, unit) proc"
  db_PruneAttestationsAtEpoch :: "epoch \<Rightarrow> (slasher_error, 'd, nat) proc"
  db_PruneProposalsAtEpoch :: "epoch \<Rightarrow> (slasher_error, 'd, nat) proc"
  db_Migrate :: "epoch \<Rightarrow> epoch \<Rightarrow> int \<Rightarrow> (slasher_error, 'd, unit) proc"

record 'd slasher_env =
  se_db :: "'d slasher_db"
  se_params :: slasher_params
  se_config :: beacon_config
  MarshalUint64 :: "u64 \<Rightarrow> bytes"
  slashing_root :: "att_slashing \<Rightarrow> (slasher_error, root) outcome"
  data_root :: "attestation_data \<Rightarrow> (slasher_error, root) outcome"
  header_root :: "beacon_block_header \<Rightarrow> (slasher_error, root) outcome"
  map_order :: "u64 list \<Rightarrow> u64 list"
  slashing_order :: "(root \<times> att_slashing) list \<Rightarrow> (root \<times> att_slashing) list"
  head_state :: "(slasher_error, unit) outcome"
  num_validators :: nat
  head_slot :: slot
  verifyAttSignature :: "indexed_attestation \<Rightarrow> bool"
  verifyBlockSignature :: "signed_block_header \<Rightarrow> bool"

record 'd slasher_service =
  sv_db :: 'd
  latestEpochUpdated :: "(validator_index \<times> epoch) list"
  attsQueue :: "indexed_attestation_wrapper option work_queue"
  blksQueue :: "signed_block_header_wrapper work_queue"
  attSlashingPool :: "att_slashing list"
  propSlashingPool :: "proposer_slashing list"

type_synonym chunk_map = "(u64 \<times> chunker) list"
type_synonym slashing_map = "(root \<times> att_slashing) list"

definition on_db :: "(slasher_error, 'd, 'a) proc \<Rightarrow> (slasher_error, 'd slasher_service, 'a) proc" where
  "on_db m = zoom sv_db (\<lambda>d s. s\<lparr>sv_db := d\<rparr>) m"

definition range_keys :: "('d, 'z) slasher_env_scheme \<Rightarrow> (u64 \<times> 'a) list \<Rightarrow> u64 list" where
  "range_keys E m = map_order E (map fst m)"

definition maps_Copy :: "('k \<times> 'v) list \<Rightarrow> ('k \<times> 'v) list \<Rightarrow> ('k \<times> 'v) list" where
  "maps_Copy dst src = fold (\<lambda>(k, v) m. AList.update k v m) src dst"

text \<open>The values of a counting loop \<open>for e := first; e <= last; e++\<close>, which never ends at the greatest epoch.\<close>

definition epochs_upto :: "epoch \<Rightarrow> epoch \<Rightarrow> (slasher_error, epoch list) outcome" where
  "epochs_upto first final =
     (if final = - 1 then Fail Diverges else Ok (map of_nat [unat first ..< Suc (unat final)]))"

section \<open>Grouping and filtering (\<open>helpers.go\<close>)\<close>

definition groupByValidatorChunkIndex ::
  "slasher_params \<Rightarrow> indexed_attestation_wrapper list \<Rightarrow> (slasher_error, (u64 \<times> nat list) list) outcome" where
  "groupByValidatorChunkIndex p ws =
     ofold (\<lambda>j grouped.
       obind (indices_of (ws ! j)) (\<lambda>vs.
       obind (ofold (\<lambda>v ks. obind (validatorChunkIndex p v) (\<lambda>k. Ok (List.insert k ks))) vs []) (\<lambda>ks.
         Ok (fold (\<lambda>k m. AList.update k (case map_of m k of None \<Rightarrow> [j] | Some js \<Rightarrow> js @ [j]) m) ks grouped))))
       [0 ..< length ws] []"

definition groupByChunkIndex ::
  "slasher_params \<Rightarrow> indexed_attestation_wrapper list \<Rightarrow> nat list \<Rightarrow> (slasher_error, (u64 \<times> nat list) list) outcome" where
  "groupByChunkIndex p ws js =
     ofold (\<lambda>j m.
       obind (source_of (ws ! j)) (\<lambda>s.
       obind (chunkIndex p s) (\<lambda>k.
         Ok (AList.update k (case map_of m k of None \<Rightarrow> [j] | Some js \<Rightarrow> js @ [j]) m))))
       js []"

fun filterAttestations ::
  "slasher_params \<Rightarrow> epoch \<Rightarrow> indexed_attestation_wrapper option list \<Rightarrow>
   (slasher_error, indexed_attestation_wrapper list \<times> indexed_attestation_wrapper list \<times> nat) outcome" where
  "filterAttestations p currentEpoch [] = Ok ([], [], 0)"
| "filterAttestations p currentEpoch (None # ws) =
     obind (filterAttestations p currentEpoch ws) (\<lambda>(valid, future, n). Ok (valid, future, Suc n))"
| "filterAttestations p currentEpoch (Some w # ws) =
     (if \<not> validateAttestationIntegrity (w_IndexedAttestation w) then
        obind (filterAttestations p currentEpoch ws) (\<lambda>(valid, future, n). Ok (valid, future, Suc n))
      else obind (source_of w) (\<lambda>s. obind (target_of w) (\<lambda>t.
        obind (filterAttestations p currentEpoch ws) (\<lambda>(valid, future, n).
          if s + historyLength p \<le> currentEpoch then Ok (valid, future, Suc n)
          else if t > currentEpoch then Ok (valid, w # future, n)
          else Ok (w # valid, future, n)))))"

section \<open>Loading and saving chunks (\<open>detect_attestations.go\<close>)\<close>

definition init_chunk ::
  "slasher_params \<Rightarrow> ChunkKind \<Rightarrow> bool \<Rightarrow> u16 list \<Rightarrow> (slasher_error, chunker) outcome" where
  "init_chunk p kind chunkExists raw =
     (case kind of
        MinSpan \<Rightarrow> if chunkExists then MinChunkSpansSliceFrom p raw else Ok (EmptyMinSpanChunksSlice p)
      | MaxSpan \<Rightarrow> if chunkExists then MaxChunkSpansSliceFrom p raw else Ok (EmptyMaxSpanChunksSlice p))"

primrec omap :: "('a \<Rightarrow> ('e, 'b) outcome) \<Rightarrow> 'a list \<Rightarrow> ('e, 'b list) outcome" where
  "omap f [] = Ok []"
| "omap f (x # xs) = obind (f x) (\<lambda>y. obind (omap f xs) (\<lambda>ys. Ok (y # ys)))"

definition loadChunksFromDisk ::
  "('d, 'z) slasher_env_scheme \<Rightarrow> 'd \<Rightarrow> u64 \<Rightarrow> ChunkKind \<Rightarrow> u64 list \<Rightarrow> (slasher_error, chunk_map) outcome" where
  "loadChunksFromDisk E d vci kind chunkIndexes =
     (if chunkIndexes = [] then Ok []
      else
        obind (omap (\<lambda>i. flatSliceID (MarshalUint64 E) (se_params E) vci i) chunkIndexes) (\<lambda>keys.
        obind (db_LoadSlasherChunks (se_db E) d kind keys) (\<lambda>(raw, chunksExist).
          if length raw \<noteq> length chunkIndexes then Fail (WrongCount (length chunkIndexes) (length raw))
          else if length chunksExist \<noteq> length chunkIndexes then
            Fail (WrongCount (length chunkIndexes) (length chunksExist))
          else
            ofold (\<lambda>j m. obind (init_chunk (se_params E) kind (chunksExist ! j) (raw ! j)) (\<lambda>c.
                Ok (AList.update (chunkIndexes ! j) c m)))
              [0 ..< length raw] [])))"

definition getChunkFromDatabase ::
  "('d, 'z) slasher_env_scheme \<Rightarrow> 'd \<Rightarrow> ChunkKind \<Rightarrow> u64 \<Rightarrow> u64 \<Rightarrow> (slasher_error, chunker) outcome" where
  "getChunkFromDatabase E d kind vci i =
     obind (loadChunksFromDisk E d vci kind [i]) (\<lambda>m.
       case map_of m i of Some c \<Rightarrow> Ok c | None \<Rightarrow> Fail (ChunkMissing i))"

definition saveChunksToDisk ::
  "('d, 'z) slasher_env_scheme \<Rightarrow> ChunkKind \<Rightarrow> (u64 \<times> chunk_map) list \<Rightarrow>
   (slasher_error, 'd slasher_service, unit) proc" where
  "saveChunksToDisk E kind byValidatorChunk =
     bind (lift (ofold (\<lambda>vci acc.
         case map_of byValidatorChunk vci of
           None \<Rightarrow> Ok acc
         | Some byChunk \<Rightarrow>
             ofold (\<lambda>i (keys, chunks).
               case map_of byChunk i of
                 None \<Rightarrow> Ok (keys, chunks)
               | Some c \<Rightarrow>
                   obind (flatSliceID (MarshalUint64 E) (se_params E) vci i) (\<lambda>key.
                     Ok (keys @ [key], chunks @ [Chunk c])))
               (range_keys E byChunk) acc)
         (range_keys E byValidatorChunk) ([], [])))
       (\<lambda>(keys, chunks). on_db (db_SaveSlasherChunks (se_db E) kind keys chunks))"

section \<open>Bringing chunks up to the current epoch\<close>

definition firstEpochToUpdate ::
  "slasher_params \<Rightarrow> (validator_index \<times> epoch) list \<Rightarrow> validator_index \<Rightarrow> epoch \<Rightarrow>
   (slasher_error, epoch option) outcome" where
  "firstEpochToUpdate p latest v currentEpoch =
     (let latestEpochUpdated = (case map_of latest v of Some e \<Rightarrow> e | None \<Rightarrow> 0) in
      obind (owrap (\<lambda>_. EpochOverflow) (Epoch_SafeAdd latestEpochUpdated 1)) (\<lambda>next.
        let epochToUpdate = (if map_of latest v = None then 0 else next) in
        if latestEpochUpdated = currentEpoch then Ok None
        else if latestEpochUpdated > currentEpoch then Fail (EpochAfterCurrent epochToUpdate currentEpoch)
        else if currentEpoch - epochToUpdate \<ge> historyLength p
        then Ok (Some (currentEpoch + 1 - historyLength p))
        else Ok (Some epochToUpdate)))"

definition findNeededChunkIndexes ::
  "slasher_params \<Rightarrow> (validator_index \<times> epoch) list \<Rightarrow> validator_index list \<Rightarrow> epoch \<Rightarrow>
   (slasher_error, u64 list) outcome" where
  "findNeededChunkIndexes p latest vs currentEpoch =
     obind (ofold (\<lambda>v (minFirst, needed).
         obind (firstEpochToUpdate p latest v currentEpoch) (\<lambda>fo.
           case fo of
             None \<Rightarrow> Ok (minFirst, needed)
           | Some first \<Rightarrow>
               if minFirst \<noteq> None \<and> the minFirst \<le> first then Ok (minFirst, needed)
               else obind (epochs_upto first currentEpoch) (\<lambda>es.
                 obind (ofold (\<lambda>e ks. obind (chunkIndex p e) (\<lambda>k. Ok (List.insert k ks))) es needed) (\<lambda>needed'.
                   Ok (Some first, needed')))))
       vs (None, []))
     (\<lambda>(_, needed). Ok needed)"

text \<open>
  The inner loop of \<open>updatedChunkByChunkIndex\<close> stays in one chunk while the outer one moves on to the
  next; together they visit the epochs from the first one to update to the current one in order.
\<close>

definition neutralize ::
  "slasher_params \<Rightarrow> validator_index \<Rightarrow> epoch \<Rightarrow> chunk_map \<Rightarrow> (slasher_error, chunk_map) outcome" where
  "neutralize p v e chunks =
     obind (chunkIndex p e) (\<lambda>i.
       case map_of chunks i of
         None \<Rightarrow> Fail (ChunkMissing i)
       | Some c \<Rightarrow>
           obind (setChunkRawDistance p (Chunk c) v e (NeutralElement c)) (\<lambda>d.
             Ok (AList.update i (put_Chunk c d) chunks)))"

definition updatedChunkByChunkIndex ::
  "('d, 'z) slasher_env_scheme \<Rightarrow> 'd slasher_service \<Rightarrow> ChunkKind \<Rightarrow> epoch \<Rightarrow> u64 \<Rightarrow>
   (slasher_error, chunk_map) outcome" where
  "updatedChunkByChunkIndex E s kind currentEpoch vci =
     (let p = se_params E; vs = ValidatorIndexesInChunk p vci in
      obind (findNeededChunkIndexes p (latestEpochUpdated s) vs currentEpoch) (\<lambda>needed.
      obind (loadChunksFromDisk E (sv_db s) vci kind (map_order E needed)) (\<lambda>chunks.
        ofold (\<lambda>v chunks.
          obind (firstEpochToUpdate p (latestEpochUpdated s) v currentEpoch) (\<lambda>fo.
            case fo of
              None \<Rightarrow> Ok chunks
            | Some first \<Rightarrow> obind (epochs_upto first currentEpoch) (\<lambda>es.
                ofold (neutralize p v) es chunks)))
          vs chunks)))"

section \<open>Applying one attestation\<close>

definition chunk_for ::
  "('d, 'z) slasher_env_scheme \<Rightarrow> 'd \<Rightarrow> ChunkKind \<Rightarrow> u64 \<Rightarrow> chunk_map \<Rightarrow> u64 \<Rightarrow> (slasher_error, chunker) outcome" where
  "chunk_for E d kind vci chunks i =
     (case map_of chunks i of Some c \<Rightarrow> Ok c | None \<Rightarrow> getChunkFromDatabase E d kind vci i)"

fun update_chunks ::
  "nat \<Rightarrow> ('d, 'z) slasher_env_scheme \<Rightarrow> 'd \<Rightarrow> ChunkKind \<Rightarrow> u64 \<Rightarrow> validator_index \<Rightarrow> epoch \<Rightarrow> epoch \<Rightarrow> epoch \<Rightarrow>
   chunk_map \<Rightarrow> (slasher_error, chunk_map) outcome" where
  "update_chunks 0 E d kind vci v currentEpoch target startEpoch chunks = Fail Diverges"
| "update_chunks (Suc n) E d kind vci v currentEpoch target startEpoch chunks =
     obind (chunkIndex (se_params E) startEpoch) (\<lambda>i.
     obind (chunk_for E d kind vci chunks i) (\<lambda>c.
     obind (Update c i currentEpoch v startEpoch target) (\<lambda>(keepGoing, c').
       let chunks' = AList.update i c' chunks in
       if \<not> keepGoing then Ok chunks'
       else obind (NextChunkStartEpoch c' startEpoch) (\<lambda>next.
         update_chunks n E d kind vci v currentEpoch target next chunks'))))"

definition applyAttestationForValidator ::
  "('d, 'z) slasher_env_scheme \<Rightarrow> 'd \<Rightarrow> ChunkKind \<Rightarrow> u64 \<Rightarrow> validator_index \<Rightarrow> epoch \<Rightarrow>
   indexed_attestation_wrapper \<Rightarrow> chunk_map \<Rightarrow>
   (slasher_error, att_slashing option \<times> indexed_attestation_wrapper \<times> chunk_map) outcome" where
  "applyAttestationForValidator E d kind vci v currentEpoch w chunks =
     obind (source_of w) (\<lambda>sourceEpoch.
     obind (target_of w) (\<lambda>targetEpoch.
     obind (chunkIndex (se_params E) sourceEpoch) (\<lambda>i.
     obind (chunk_for E d kind vci chunks i) (\<lambda>c.
     obind (CheckSlashable (db_AttestationRecord (se_db E) d) c v w) (\<lambda>(slashing, w').
       if slashing \<noteq> None then Ok (slashing, w', chunks)
       else obind (StartEpoch c sourceEpoch currentEpoch) (\<lambda>start.
         case start of
           None \<Rightarrow> Ok (None, w', chunks)
         | Some startEpoch \<Rightarrow>
             obind (update_chunks (unat currentEpoch + 2) E d kind vci v currentEpoch targetEpoch startEpoch chunks)
               (\<lambda>chunks'. Ok (None, w', chunks'))))))))"

section \<open>Updating the spans of a batch\<close>

definition span_step ::
  "('d, 'z) slasher_env_scheme \<Rightarrow> 'd \<Rightarrow> ChunkKind \<Rightarrow> u64 \<Rightarrow> epoch \<Rightarrow> nat \<Rightarrow> validator_index \<Rightarrow>
   chunk_map \<times> indexed_attestation_wrapper list \<times> slashing_map \<Rightarrow>
   (slasher_error, chunk_map \<times> indexed_attestation_wrapper list \<times> slashing_map) outcome" where
  "span_step E d kind vci currentEpoch j v = (\<lambda>(chunks, ws, slashings).
     obind (validatorChunkIndex (se_params E) v) (\<lambda>computed.
       if vci \<noteq> computed then Ok (chunks, ws, slashings)
       else obind (applyAttestationForValidator E d kind vci v currentEpoch (ws ! j) chunks) (\<lambda>(slashing, w', chunks').
         case slashing of
           None \<Rightarrow> Ok (chunks', ws[j := w'], slashings)
         | Some sl \<Rightarrow>
             obind (slashing_root E sl) (\<lambda>root.
               Ok (chunks', ws[j := w'], AList.update root sl slashings)))))"

definition updateSpans ::
  "('d, 'z) slasher_env_scheme \<Rightarrow> 'd \<Rightarrow> chunk_map \<Rightarrow> (u64 \<times> nat list) list \<Rightarrow> ChunkKind \<Rightarrow> u64 \<Rightarrow> epoch \<Rightarrow>
   indexed_attestation_wrapper list \<Rightarrow>
   (slasher_error, chunk_map \<times> indexed_attestation_wrapper list \<times> slashing_map) outcome" where
  "updateSpans E d chunks byChunk kind vci currentEpoch ws =
     ofold (\<lambda>k st.
       case map_of byChunk k of
         None \<Rightarrow> Ok st
       | Some js \<Rightarrow>
           ofold (\<lambda>j st.
             obind (indices_of (fst (snd st) ! j)) (\<lambda>vs.
               ofold (span_step E d kind vci currentEpoch j) vs st))
             js st)
       (range_keys E byChunk) (chunks, ws, [])"

definition maxChunkBeforeFlush :: nat where
  "maxChunkBeforeFlush = 25600"

record surround_state =
  ss_slashings :: slashing_map
  ss_min :: "(u64 \<times> chunk_map) list"
  ss_max :: "(u64 \<times> chunk_map) list"
  ss_count :: nat
  ss_batch :: "indexed_attestation_wrapper list"

definition set_latest :: "validator_index list \<Rightarrow> epoch \<Rightarrow> 'd slasher_service \<Rightarrow> 'd slasher_service" where
  "set_latest vs e s =
     s\<lparr>latestEpochUpdated := fold (\<lambda>v m. AList.update v e m) vs (latestEpochUpdated s)\<rparr>"

definition check_validator_chunk ::
  "('d, 'z) slasher_env_scheme \<Rightarrow> epoch \<Rightarrow> u64 \<Rightarrow> nat list \<Rightarrow> surround_state \<Rightarrow>
   (slasher_error, 'd slasher_service, surround_state) proc" where
  "check_validator_chunk E currentEpoch vci js st =
     bind (reads (\<lambda>s. updatedChunkByChunkIndex E s MinSpan currentEpoch vci)) (\<lambda>minChunks.
     bind (reads (\<lambda>s. updatedChunkByChunkIndex E s MaxSpan currentEpoch vci)) (\<lambda>maxChunks.
     bind (lift (groupByChunkIndex (se_params E) (ss_batch st) js)) (\<lambda>byChunk.
     bind (reads (\<lambda>s. updateSpans E (sv_db s) minChunks byChunk MinSpan vci currentEpoch (ss_batch st)))
       (\<lambda>(minChunks', ws1, surrounding).
     bind (reads (\<lambda>s. updateSpans E (sv_db s) maxChunks byChunk MaxSpan vci currentEpoch ws1))
       (\<lambda>(maxChunks', ws2, surrounded).
     let st' = st\<lparr>ss_slashings := maps_Copy (maps_Copy (ss_slashings st) surrounding) surrounded,
                   ss_min := AList.update vci minChunks' (ss_min st),
                   ss_max := AList.update vci maxChunks' (ss_max st),
                   ss_count := ss_count st + length minChunks + length maxChunks,
                   ss_batch := ws2\<rparr>
     in bind (if ss_count st' \<ge> maxChunkBeforeFlush
              then seq (saveChunksToDisk E MinSpan (ss_min st'))
                   (seq (saveChunksToDisk E MaxSpan (ss_max st'))
                   (ret (st'\<lparr>ss_count := 0, ss_min := [], ss_max := []\<rparr>)))
              else ret st') (\<lambda>st''.
        seq (modify (set_latest (ValidatorIndexesInChunk (se_params E) vci) currentEpoch))
        (ret st'')))))))"

definition checkSurroundVotes ::
  "('d, 'z) slasher_env_scheme \<Rightarrow> indexed_attestation_wrapper list \<Rightarrow> epoch \<Rightarrow>
   (slasher_error, 'd slasher_service, slashing_map \<times> indexed_attestation_wrapper list) proc" where
  "checkSurroundVotes E ws currentEpoch =
     bind (lift (groupByValidatorChunkIndex (se_params E) ws)) (\<lambda>byValidatorChunk.
     bind (fold_each (range_keys E byValidatorChunk) (\<lambda>vci st.
         case map_of byValidatorChunk vci of
           None \<Rightarrow> ret st
         | Some js \<Rightarrow> check_validator_chunk E currentEpoch vci js st)
       \<lparr>ss_slashings = [], ss_min = [], ss_max = [], ss_count = 0, ss_batch = ws\<rparr>) (\<lambda>st.
     seq (saveChunksToDisk E MinSpan (ss_min st))
     (seq (saveChunksToDisk E MaxSpan (ss_max st))
     (ret (ss_slashings st, ss_batch st)))))"

section \<open>Double votes\<close>

definition record_slashing ::
  "('d, 'z) slasher_env_scheme \<Rightarrow> att_slashing \<Rightarrow> slashing_map \<Rightarrow> (slasher_error, slashing_map) outcome" where
  "record_slashing E sl m = obind (slashing_root E sl) (\<lambda>root. Ok (AList.update root sl m))"

text \<open>The batch against itself: \<open>seen\<close> maps a validator and a target epoch to the first wrapper that has them.\<close>

definition batch_double_vote ::
  "('d, 'z) slasher_env_scheme \<Rightarrow> nat \<Rightarrow> epoch \<Rightarrow> validator_index \<Rightarrow>
   ((validator_index \<times> epoch) \<times> nat) list \<times> indexed_attestation_wrapper list \<times> slashing_map \<Rightarrow>
   (slasher_error, ((validator_index \<times> epoch) \<times> nat) list \<times> indexed_attestation_wrapper list \<times> slashing_map) outcome" where
  "batch_double_vote E j targetEpoch v = (\<lambda>(seen, ws, slashings).
     case map_of seen (v, targetEpoch) of
       None \<Rightarrow> Ok (AList.update (v, targetEpoch) j seen, ws, slashings)
     | Some i \<Rightarrow>
         if w_DataRoot (ws ! i) = w_DataRoot (ws ! j) then Ok (seen, ws, slashings)
         else obind (build_slashing (ws ! i) (ws ! j)) (\<lambda>(sl, existing, incoming).
           obind (record_slashing E sl slashings) (\<lambda>slashings'.
             Ok (seen, ws[i := existing, j := incoming], slashings'))))"

definition disk_double_vote ::
  "('d, 'z) slasher_env_scheme \<Rightarrow> double_vote_ref \<Rightarrow> indexed_attestation_wrapper list \<times> slashing_map \<Rightarrow>
   (slasher_error, indexed_attestation_wrapper list \<times> slashing_map) outcome" where
  "disk_double_vote E dv = (\<lambda>(ws, slashings).
     obind (build_slashing (dvr_Wrapper_1 dv) (ws ! dvr_Wrapper_2 dv)) (\<lambda>(sl, _, incoming).
     obind (record_slashing E sl slashings) (\<lambda>slashings'.
       Ok (ws[dvr_Wrapper_2 dv := incoming], slashings'))))"

definition checkDoubleVotes ::
  "('d, 'z) slasher_env_scheme \<Rightarrow> 'd \<Rightarrow> indexed_attestation_wrapper list \<Rightarrow>
   (slasher_error, slashing_map \<times> indexed_attestation_wrapper list) outcome" where
  "checkDoubleVotes E d incoming =
     obind (ofold (\<lambda>j st.
         obind (target_of (fst (snd st) ! j)) (\<lambda>t.
         obind (indices_of (fst (snd st) ! j)) (\<lambda>vs.
           ofold (batch_double_vote E j t) vs st)))
       [0 ..< length incoming] ([], incoming, [])) (\<lambda>(_, ws, slashings).
     obind (db_CheckAttesterDoubleVotes (se_db E) d ws) (\<lambda>dvs.
     obind (ofold (disk_double_vote E) dvs (ws, slashings)) (\<lambda>(ws', slashings').
       Ok (slashings', ws'))))"

definition checkSlashableAttestations ::
  "('d, 'z) slasher_env_scheme \<Rightarrow> epoch \<Rightarrow> indexed_attestation_wrapper list \<Rightarrow>
   (slasher_error, 'd slasher_service, slashing_map) proc" where
  "checkSlashableAttestations E currentEpoch atts =
     bind (reads (\<lambda>s. checkDoubleVotes E (sv_db s) atts)) (\<lambda>(doubleVotes, ws).
     seq (on_db (db_SaveAttestationRecords (se_db E) ws))
     (bind (checkSurroundVotes E ws currentEpoch) (\<lambda>(surround, _).
       ret (maps_Copy (maps_Copy [] doubleVotes) surround))))"

section \<open>Proposals (\<open>detect_blocks.go\<close>)\<close>

text \<open>\<open>strconv.FormatUint(val, 10)\<close>.\<close>

fun decimal :: "nat \<Rightarrow> string" where
  "decimal n = (if n < 10 then [char_of (48 + n)] else decimal (n div 10) @ [char_of (48 + n mod 10)])"

definition uintToString :: "u64 \<Rightarrow> string" where
  "uintToString val = decimal (unat val)"

definition proposal_header :: "signed_block_header_wrapper \<Rightarrow> ('e, beacon_block_header) outcome" where
  "proposal_header w = obind (deref_ptr (SignedBeaconBlockHeader w)) (\<lambda>h. deref_ptr (sh_Header h))"

definition proposalKey :: "signed_block_header_wrapper \<Rightarrow> ('e, string) outcome" where
  "proposalKey w =
     obind (proposal_header w) (\<lambda>h.
       Ok (uintToString (h_Slot h) @ '':'' @ uintToString (h_ProposerIndex h)))"

definition internal_proposal ::
  "signed_block_header_wrapper \<Rightarrow> (string \<times> signed_block_header_wrapper) list \<times> proposer_slashing list \<Rightarrow>
   (slasher_error, (string \<times> signed_block_header_wrapper) list \<times> proposer_slashing list) outcome" where
  "internal_proposal incoming = (\<lambda>(existing, slashings).
     obind (proposalKey incoming) (\<lambda>key.
       case map_of existing key of
         None \<Rightarrow> Ok (AList.update key incoming existing, slashings)
       | Some e \<Rightarrow>
           if isDoubleProposal (HeaderRoot incoming) (HeaderRoot e) then
             obind (deref_ptr (SignedBeaconBlockHeader e)) (\<lambda>h1.
             obind (deref_ptr (SignedBeaconBlockHeader incoming)) (\<lambda>h2.
               Ok (existing, slashings @ [\<lparr>Header_1 = h1, Header_2 = h2\<rparr>])))
           else Ok (existing, slashings)))"

definition detectProposerSlashings ::
  "('d, 'z) slasher_env_scheme \<Rightarrow> signed_block_header_wrapper list \<Rightarrow>
   (slasher_error, 'd slasher_service, proposer_slashing list) proc" where
  "detectProposerSlashings E incoming =
     bind (lift (ofold internal_proposal incoming ([], []))) (\<lambda>(_, internal).
     bind (reads (\<lambda>s. db_CheckDoubleBlockProposals (se_db E) (sv_db s) incoming)) (\<lambda>databaseSlashings.
     seq (on_db (db_SaveBlockProposals (se_db E) incoming))
     (ret (internal @ databaseSlashings))))"

section \<open>Receiving and processing (\<open>receive.go\<close>, \<open>process_slashings.go\<close>)\<close>

text \<open>One turn of a receive loop: what a message from the feed does to the queue.\<close>

definition receiveAttestation ::
  "('d, 'z) slasher_env_scheme \<Rightarrow> indexed_att option \<Rightarrow> 'd slasher_service \<Rightarrow> 'd slasher_service" where
  "receiveAttestation E ao s =
     (if \<not> validateAttestationIntegrity ao then s
      else case ao of None \<Rightarrow> s
      | Some a \<Rightarrow>
        (case Data (att_body a) of None \<Rightarrow> s
         | Some d \<Rightarrow>
           (case data_root E d of
              Ok r \<Rightarrow> s\<lparr>attsQueue := q_push (Some \<lparr>w_IndexedAttestation = Some a, w_DataRoot = r\<rparr>) (attsQueue s)\<rparr>
            | _ \<Rightarrow> s)))"

definition receiveBlock ::
  "('d, 'z) slasher_env_scheme \<Rightarrow> signed_block_header option \<Rightarrow> 'd slasher_service \<Rightarrow> 'd slasher_service" where
  "receiveBlock E ho s =
     (if \<not> validateBlockHeaderIntegrity ho then s
      else case ho of None \<Rightarrow> s
      | Some h \<Rightarrow>
        (case sh_Header h of None \<Rightarrow> s
         | Some hdr \<Rightarrow>
           (case header_root E hdr of
              Ok r \<Rightarrow> s\<lparr>blksQueue := q_push \<lparr>SignedBeaconBlockHeader = Some h, HeaderRoot = r\<rparr> (blksQueue s)\<rparr>
            | _ \<Rightarrow> s)))"

text \<open>Insertion into the operations pool is recorded in the service; its error is only logged.\<close>

definition processAttesterSlashings ::
  "('d, 'z) slasher_env_scheme \<Rightarrow> slashing_map \<Rightarrow> (slasher_error, 'd slasher_service, slashing_map) proc" where
  "processAttesterSlashings E slashings =
     (if slashings = [] then ret []
      else seq (lift (head_state E))
        (fold_each (slashing_order E slashings) (\<lambda>(root, sl) processed.
           let (a, b) = slashing_atts sl in
           if \<not> verifyAttSignature E a then ret processed
           else if \<not> verifyAttSignature E b then ret processed
           else seq (modify (\<lambda>s. s\<lparr>attSlashingPool := attSlashingPool s @ [sl]\<rparr>))
                  (ret (AList.update root sl processed))) []))"

definition processProposerSlashings ::
  "('d, 'z) slasher_env_scheme \<Rightarrow> proposer_slashing list \<Rightarrow> (slasher_error, 'd slasher_service, unit) proc" where
  "processProposerSlashings E slashings =
     (if slashings = [] then ret ()
      else seq (lift (head_state E))
        (for_each slashings (\<lambda>sl.
           if \<not> verifyBlockSignature E (Header_1 sl) then ret ()
           else if \<not> verifyBlockSignature E (Header_2 sl) then ret ()
           else modify (\<lambda>s. s\<lparr>propSlashingPool := propSlashingPool s @ [sl]\<rparr>))))"

definition processAttestations ::
  "('d, 'z) slasher_env_scheme \<Rightarrow> indexed_attestation_wrapper option list \<Rightarrow> slot \<Rightarrow>
   (slasher_error, 'd slasher_service, slashing_map) proc" where
  "processAttestations E atts currentSlot =
     bind (lift (owrap SlotsError (ToEpoch (se_config E) currentSlot))) (\<lambda>currentEpoch.
     bind (lift (filterAttestations (se_params E) currentEpoch atts)) (\<lambda>(valid, future, _).
     seq (modify (\<lambda>s. s\<lparr>attsQueue := q_extend (map Some future) (attsQueue s)\<rparr>))
     (catch
       (bind (checkSlashableAttestations E currentEpoch valid) (\<lambda>slashings.
          processAttesterSlashings E slashings))
       (\<lambda>_. ret []))))"

definition processQueuedAttestations ::
  "('d, 'z) slasher_env_scheme \<Rightarrow> slot \<Rightarrow> (slasher_error, 'd slasher_service, slashing_map) proc" where
  "processQueuedAttestations E currentSlot =
     bind (gets (\<lambda>s. q_items (attsQueue s))) (\<lambda>atts.
     seq (modify (\<lambda>s. s\<lparr>attsQueue := snd (q_dequeue (attsQueue s))\<rparr>))
     (processAttestations E atts currentSlot))"

definition processQueuedBlocks ::
  "('d, 'z) slasher_env_scheme \<Rightarrow> slot \<Rightarrow> (slasher_error, 'd slasher_service, unit) proc" where
  "processQueuedBlocks E currentSlot =
     bind (gets (\<lambda>s. q_items (blksQueue s))) (\<lambda>blocks.
     seq (modify (\<lambda>s. s\<lparr>blksQueue := snd (q_dequeue (blksQueue s))\<rparr>))
     (bind (lift (owrap SlotsError (ToEpoch (se_config E) currentSlot))) (\<lambda>_.
      log_err (bind (detectProposerSlashings E blocks) (processProposerSlashings E)))))"

definition pruneSlasherDataWithinSlidingWindow ::
  "('d, 'z) slasher_env_scheme \<Rightarrow> epoch \<Rightarrow> (slasher_error, 'd slasher_service, unit) proc" where
  "pruneSlasherDataWithinSlidingWindow E currentEpoch =
     (if currentEpoch \<ge> historyLength (se_params E) then
        (let maxPruningEpoch = currentEpoch - historyLength (se_params E) in
         bind (on_db (db_PruneAttestationsAtEpoch (se_db E) maxPruningEpoch)) (\<lambda>_.
         bind (on_db (db_PruneProposalsAtEpoch (se_db E) maxPruningEpoch)) (\<lambda>_. ret ())))
      else ret ())"

section \<open>Starting and stopping (\<open>service.go\<close>)\<close>

text \<open>
  What \<open>run\<close> does once the node is synced and before it starts its goroutines: the last epoch written
  for every validator is read from the database, and the database is migrated. An error ends it.
\<close>

definition migrationBatchSize :: int where "migrationBatchSize = 100000"

definition run :: "('d, 'z) slasher_env_scheme \<Rightarrow> (slasher_error, 'd slasher_service, unit) proc" where
  "run E =
     seq (lift (head_state E))
     (bind (reads (\<lambda>s. db_LastEpochWritten (se_db E) (sv_db s) (map of_nat [0 ..< num_validators E]))) (\<lambda>items.
      seq (modify (\<lambda>s. s\<lparr>latestEpochUpdated :=
             fold (\<lambda>item m. AList.update (ae_ValidatorIndex item) (ae_Epoch item) m) items (latestEpochUpdated s)\<rparr>))
      (bind (lift (owrap SlotsError (ToEpoch (se_config E) (head_slot E)))) (\<lambda>headEpoch.
         let maxPruningEpoch =
           (if headEpoch \<ge> historyLength (se_params E) then headEpoch - historyLength (se_params E) else 0) in
         on_db (db_Migrate (se_db E) headEpoch maxPruningEpoch migrationBatchSize)))))"

text \<open>\<open>Stop\<close> flushes the epochs to the database and only logs an error; \<open>pruneSlasherData\<close> is one tick of its loop.\<close>

definition Stop :: "('d, 'z) slasher_env_scheme \<Rightarrow> (slasher_error, 'd slasher_service, unit) proc" where
  "Stop E =
     bind (gets latestEpochUpdated) (\<lambda>latest.
       log_err (on_db (db_SaveLastEpochWritten (se_db E)
         (map (\<lambda>v. (v, the (map_of latest v))) (range_keys E latest)))))"

definition pruneSlasherData :: "('d, 'z) slasher_env_scheme \<Rightarrow> (slasher_error, 'd slasher_service, unit) proc" where
  "pruneSlasherData E =
     bind (lift (owrap SlotsError (ToEpoch (se_config E) (head_slot E)))) (\<lambda>headEpoch.
       log_err (pruneSlasherDataWithinSlidingWindow E headEpoch))"

end
