(* ===== verification/Slasher_KV.thy ===== *)
theory Slasher_KV
  imports Slasher_Detect "HOL-Library.List_Lexorder"
begin

text \<open>
  The database of the slasher (\<open>beacon-chain/db/slasherkv\<close>: \<open>slasher.go\<close>, \<open>pruning.go\<close>,
  \<open>migrate.go\<close>). The store has five buckets of the key-value library bolt. A bucket has a type
  \<open>'b\<close> of its own, and its operations are fields of \<open>kv_env\<close>, as are the other libraries the code
  calls: snappy compression, the SSZ encodings of attestations and headers, and the integer
  encodings of fastssz. \<open>bolt_ok\<close> and \<open>codec_ok\<close> state what their documentation promises.

  \<open>tx\<close> is \<open>db.Update\<close>: a transaction whose body returns an error is rolled back. A cursor visits the
  entries of a bucket in the byte order of the keys (\<open>bk_Cursor\<close>). The pruning walks go forward and delete only
  entries that the cursor has already returned, and are modelled as walks over the entries that
  the bucket had when the cursor was opened. The migration also puts keys into the part of the
  bucket that its cursor has still to visit; what the cursor returns next may then depend on all
  the changes, so it is a function \<open>bk_Prev\<close> of the environment: \<open>bk_Prev E [b0, ..., bn]\<close> is what the
  \<open>n\<close>-th \<open>Prev\<close> returns when the bucket was \<open>b0\<close> at \<open>Last\<close> and \<open>bi\<close> at the \<open>i\<close>-th \<open>Prev\<close>. Whether the context of a walk has expired when
  it reaches its \<open>n\<close>-th entry is the parameter \<open>ctx_expired\<close>; errors of opening or committing a
  transaction and the cancellation of the other calls are not modelled.
\<close>

section \<open>The environment and the state\<close>

record 'b kv_env =
  bk_Get :: "'b \<Rightarrow> bytes \<Rightarrow> bytes option"
  bk_Put :: "bytes \<Rightarrow> bytes \<Rightarrow> 'b \<Rightarrow> 'b option"
  bk_Delete :: "bytes \<Rightarrow> 'b \<Rightarrow> 'b"
  bk_Cursor :: "'b \<Rightarrow> (bytes \<times> bytes) list"
  bk_Prev :: "'b list \<Rightarrow> (bytes \<times> bytes) option"
  snappy_Encode :: "bytes \<Rightarrow> bytes"
  snappy_Decode :: "bytes \<Rightarrow> (slasher_error, bytes) outcome"
  att_MarshalSSZ :: "indexed_att \<Rightarrow> (slasher_error, bytes) outcome"
  att_UnmarshalSSZ :: "fork_version \<Rightarrow> bytes \<Rightarrow> (slasher_error, indexed_att) outcome"
  hdr_MarshalSSZ :: "signed_block_header \<Rightarrow> (slasher_error, bytes) outcome"
  hdr_UnmarshalSSZ :: "bytes \<Rightarrow> (slasher_error, signed_block_header) outcome"
  ssz_MarshalUint8 :: "u8 \<Rightarrow> bytes"
  ssz_MarshalUint16 :: "u16 \<Rightarrow> bytes"
  ssz_UnmarshallUint16 :: "bytes \<Rightarrow> u16"
  ssz_MarshalUint64 :: "u64 \<Rightarrow> bytes"
  ssz_UnmarshallUint64 :: "bytes \<Rightarrow> u64"
  kv_config :: beacon_config
  ctx_expired :: "nat \<Rightarrow> bool"
  eg_order :: "nat \<Rightarrow> nat list"

record 'b slasher_store =
  attestedEpochsByValidator :: 'b
  attestationRecords :: 'b
  attestationDataRoots :: 'b
  proposalRecords :: 'b
  slasherChunks :: 'b

type_synonym ('b, 'a) kv_proc = "(slasher_error, 'b slasher_store, 'a) proc"

definition tx :: "('b, 'a) kv_proc \<Rightarrow> ('b, 'a) kv_proc" where
  "tx m = (\<lambda>d. case m d of (Ok a, d') \<Rightarrow> (Ok a, d') | (r, _) \<Rightarrow> (r, d))"

definition put_in ::
  "('b, 'z) kv_env_scheme \<Rightarrow> ('b slasher_store \<Rightarrow> 'b) \<Rightarrow> (('b \<Rightarrow> 'b) \<Rightarrow> 'b slasher_store \<Rightarrow> 'b slasher_store) \<Rightarrow>
   bytes \<Rightarrow> bytes \<Rightarrow> ('b, unit) kv_proc" where
  "put_in E get upd k v =
     (\<lambda>d. case bk_Put E k v (get d) of None \<Rightarrow> (Fail StoreError, d) | Some b \<Rightarrow> (Ok (), upd (\<lambda>_. b) d))"

definition rootSize :: nat where "rootSize = 32"
definition attestationRecordKeySize :: nat where "attestationRecordKeySize = 32"
definition batchSize :: nat where "batchSize = 10000"

definition ElectraKey :: bytes where
  "ElectraKey = map of_nat [101, 108, 101, 99, 116, 114, 97]"

definition HasElectraKey :: "bytes \<Rightarrow> bool" where
  "HasElectraKey enc \<longleftrightarrow>
     (if length ElectraKey \<ge> length enc then False else take (length ElectraKey) enc = ElectraKey)"

section \<open>Keys and records\<close>

definition encodeTargetEpoch :: "epoch \<Rightarrow> bytes" where
  "encodeTargetEpoch e = put_be 8 e"

definition encodeValidatorIndex :: "validator_index \<Rightarrow> bytes" where
  "encodeValidatorIndex v =
     [ucast v, ucast (drop_bit 8 v), ucast (drop_bit 16 v), ucast (drop_bit 24 v), ucast (drop_bit 32 v)]"

definition keyForValidatorProposal :: "slot \<Rightarrow> validator_index \<Rightarrow> bytes" where
  "keyForValidatorProposal slot proposerIndex = put_be 8 slot @ encodeValidatorIndex proposerIndex"

text \<open>\<open>append(encodeTargetEpoch(e), encodeValidatorIndex(v)...)\<close>, the key of a data root.\<close>

definition validatorEpochKey :: "epoch \<Rightarrow> validator_index \<Rightarrow> bytes" where
  "validatorEpochKey e v = encodeTargetEpoch e @ encodeValidatorIndex v"

definition encodeSlasherChunk :: "('b, 'z) kv_env_scheme \<Rightarrow> u16 list \<Rightarrow> (slasher_error, bytes) outcome" where
  "encodeSlasherChunk E chunk =
     (let val = concat (map (ssz_MarshalUint16 E) chunk) in
      if length val = 0 then Fail EmptyChunk else Ok (snappy_Encode E val))"

fun decode_u16s :: "(bytes \<Rightarrow> u16) \<Rightarrow> bytes \<Rightarrow> u16 list" where
  "decode_u16s f (a # b # bs) = f [a, b] # decode_u16s f bs"
| "decode_u16s f bs = []"

definition decodeSlasherChunk :: "('b, 'z) kv_env_scheme \<Rightarrow> bytes \<Rightarrow> (slasher_error, u16 list) outcome" where
  "decodeSlasherChunk E enc =
     obind (snappy_Decode E enc) (\<lambda>chunkBytes.
       if length chunkBytes mod 2 \<noteq> 0 then Fail (OddLength (length chunkBytes))
       else Ok (decode_u16s (ssz_UnmarshallUint16 E) chunkBytes))"

definition encodeAttestationRecord ::
  "('b, 'z) kv_env_scheme \<Rightarrow> indexed_attestation_wrapper option \<Rightarrow> (slasher_error, bytes) outcome" where
  "encodeAttestationRecord E att =
     (case att of None \<Rightarrow> Fail NilRecord
      | Some w \<Rightarrow>
        (case w_IndexedAttestation w of None \<Rightarrow> Fail NilRecord
         | Some a \<Rightarrow>
           if att_IsNil a then Fail NilRecord
           else
             (let versionKey = (if att_Version a \<ge> Electra then ElectraKey else []) in
              obind (att_MarshalSSZ E a) (\<lambda>encodedAtt.
                Ok (versionKey @ root_bytes (w_DataRoot w) @ snappy_Encode E encodedAtt)))))"

definition decodeAttestationRecord ::
  "('b, 'z) kv_env_scheme \<Rightarrow> bytes \<Rightarrow> (slasher_error, indexed_attestation_wrapper) outcome" where
  "decodeAttestationRecord E encoded0 =
     (if length encoded0 < rootSize then Fail (ShortRecord (length encoded0))
      else
        (let postElectra = HasElectraKey encoded0;
             encoded = (if postElectra then drop (length ElectraKey) encoded0 else encoded0) in
         if length encoded < rootSize then Panic
         else
           obind (snappy_Decode E (drop rootSize encoded)) (\<lambda>decodedAttBytes.
           obind (att_UnmarshalSSZ E (if postElectra then Electra else Phase0) decodedAttBytes) (\<lambda>decodedAtt.
             Ok \<lparr>w_IndexedAttestation = Some decodedAtt,
                 w_DataRoot = array32 (ToBytes32 (take rootSize encoded))\<rparr>))))"

definition encodeProposalRecord ::
  "('b, 'z) kv_env_scheme \<Rightarrow> signed_block_header_wrapper option \<Rightarrow> (slasher_error, bytes) outcome" where
  "encodeProposalRecord E blkHdr =
     (case blkHdr of None \<Rightarrow> Fail NilRecord
      | Some w \<Rightarrow>
        (case SignedBeaconBlockHeader w of None \<Rightarrow> Fail NilRecord
         | Some h \<Rightarrow>
           obind (hdr_MarshalSSZ E h) (\<lambda>encodedHdr.
             Ok (root_bytes (HeaderRoot w) @ snappy_Encode E encodedHdr))))"

definition decodeProposalRecord ::
  "('b, 'z) kv_env_scheme \<Rightarrow> bytes \<Rightarrow> (slasher_error, signed_block_header_wrapper) outcome" where
  "decodeProposalRecord E encoded =
     (if length encoded < rootSize then Fail (ShortRecord (length encoded))
      else
        obind (snappy_Decode E (drop rootSize encoded)) (\<lambda>decodedHdrBytes.
        obind (hdr_UnmarshalSSZ E decodedHdrBytes) (\<lambda>h.
          Ok \<lparr>SignedBeaconBlockHeader = Some h, HeaderRoot = array32 (ToBytes32 (take rootSize encoded))\<rparr>)))"

section \<open>Last written epochs\<close>

text \<open>\<open>Epoch.UnmarshalSSZ\<close>.\<close>

definition epoch_UnmarshalSSZ :: "('b, 'z) kv_env_scheme \<Rightarrow> bytes \<Rightarrow> (slasher_error, epoch) outcome" where
  "epoch_UnmarshalSSZ E buf = (if length buf \<noteq> 8 then Fail DecodeError else Ok (ssz_UnmarshallUint64 E buf))"

definition LastEpochWrittenForValidators ::
  "('b, 'z) kv_env_scheme \<Rightarrow> 'b slasher_store \<Rightarrow> validator_index list \<Rightarrow>
   (slasher_error, attested_epoch_for_validator list) outcome" where
  "LastEpochWrittenForValidators E d validatorIndexes =
     ofold (\<lambda>v attestedEpochs.
       case bk_Get E (attestedEpochsByValidator d) (encodeValidatorIndex v) of
         None \<Rightarrow> Ok attestedEpochs
       | Some epochBytes \<Rightarrow>
           obind (epoch_UnmarshalSSZ E epochBytes) (\<lambda>epoch.
             Ok (attestedEpochs @ [\<lparr>ae_ValidatorIndex = v, ae_Epoch = epoch\<rparr>])))
       validatorIndexes []"

text \<open>A list is written in batches of \<open>batchSize\<close>, each in a transaction of its own.\<close>

function batches :: "'x list \<Rightarrow> 'x list list" where
  "batches xs = (if xs = [] then [] else take batchSize xs # batches (drop batchSize xs))"
  by auto

termination batches
  by (relation "measure length") (auto simp: batchSize_def)

declare batches.simps [simp del]

definition SaveLastEpochWrittenForValidators ::
  "('b, 'z) kv_env_scheme \<Rightarrow> (validator_index \<times> epoch) list \<Rightarrow> ('b, unit) kv_proc" where
  "SaveLastEpochWrittenForValidators E epochByValIndex =
     for_each (batches (map (\<lambda>(v, e). (encodeValidatorIndex v, ssz_MarshalUint64 E e)) epochByValIndex)) (\<lambda>batch.
       tx (for_each batch (\<lambda>(k, e).
         put_in E attestedEpochsByValidator attestedEpochsByValidator_update k e)))"

section \<open>Attestation records\<close>

definition local_double_votes ::
  "('b, 'z) kv_env_scheme \<Rightarrow> 'b slasher_store \<Rightarrow> indexed_attestation_wrapper list \<Rightarrow> nat \<Rightarrow>
   (slasher_error, double_vote_ref list) outcome" where
  "local_double_votes E d atts j =
     obind (target_of (atts ! j)) (\<lambda>target.
     obind (indices_of (atts ! j)) (\<lambda>vs.
       ofold (\<lambda>v localDoubleVotes.
         case bk_Get E (attestationDataRoots d) (validatorEpochKey target v) of
           None \<Rightarrow> Ok localDoubleVotes
         | Some attRecordsKey \<Rightarrow>
             if length attRecordsKey < attestationRecordKeySize then Ok localDoubleVotes
             else
               (case bk_Get E (attestationRecords d) attRecordsKey of
                  None \<Rightarrow> Ok localDoubleVotes
                | Some enc \<Rightarrow>
                    if array32 (ToBytes32 (take rootSize attRecordsKey)) = w_DataRoot (atts ! j)
                    then Ok localDoubleVotes
                    else
                      obind (decodeAttestationRecord E enc) (\<lambda>existing.
                        Ok (localDoubleVotes @
                          [\<lparr>dvr_Target = target, dvr_ValidatorIndex = v, dvr_Wrapper_1 = existing,
                            dvr_Wrapper_2 = j\<rparr>]))))
         vs []))"

text \<open>One goroutine per attestation; \<open>eg_order\<close> is the order in which they add their results.\<close>

definition CheckAttesterDoubleVotes ::
  "('b, 'z) kv_env_scheme \<Rightarrow> 'b slasher_store \<Rightarrow> indexed_attestation_wrapper list \<Rightarrow>
   (slasher_error, double_vote_ref list) outcome" where
  "CheckAttesterDoubleVotes E d atts =
     ofold (\<lambda>j doubleVotes. obind (local_double_votes E d atts j) (\<lambda>ls. Ok (doubleVotes @ ls)))
       (eg_order E (length atts)) []"

definition AttestationRecordForValidator ::
  "('b, 'z) kv_env_scheme \<Rightarrow> 'b slasher_store \<Rightarrow> validator_index \<Rightarrow> epoch \<Rightarrow>
   (slasher_error, indexed_attestation_wrapper option) outcome" where
  "AttestationRecordForValidator E d v targetEpoch =
     (case bk_Get E (attestationDataRoots d) (validatorEpochKey targetEpoch v) of
        None \<Rightarrow> Ok None
      | Some attRecordKey \<Rightarrow>
          (case bk_Get E (attestationRecords d) attRecordKey of
             None \<Rightarrow> Ok None
           | Some indexedAttBytes \<Rightarrow> obind (decodeAttestationRecord E indexedAttBytes) (\<lambda>r. Ok (Some r))))"

text \<open>
  The records are saved from the last to the first, batch by batch from the end of the list; a
  list whose length is a multiple of the batch size ends with an empty batch.
\<close>

function back_batches :: "'x list \<Rightarrow> nat \<Rightarrow> 'x list list" where
  "back_batches xs stop =
     drop (stop - batchSize) (take stop xs) #
     (if stop \<ge> batchSize then back_batches xs (stop - batchSize) else [])"
  by auto

termination back_batches
  by (relation "measure snd") (auto simp: batchSize_def)

declare back_batches.simps [simp del]

definition save_record ::
  "('b, 'z) kv_env_scheme \<Rightarrow> indexed_attestation_wrapper \<times> bytes \<times> bytes \<Rightarrow> ('b, unit) kv_proc" where
  "save_record E = (\<lambda>(w, encodedTargetEpoch, encodedRecord).
     seq (put_in E attestationRecords attestationRecords_update (root_bytes (w_DataRoot w)) encodedRecord)
     (bind (lift (indices_of w)) (\<lambda>vs.
        for_each vs (\<lambda>v.
          put_in E attestationDataRoots attestationDataRoots_update
            (encodedTargetEpoch @ encodeValidatorIndex v) (root_bytes (w_DataRoot w))))))"

definition SaveAttestationRecordsForValidators ::
  "('b, 'z) kv_env_scheme \<Rightarrow> indexed_attestation_wrapper list \<Rightarrow> ('b, unit) kv_proc" where
  "SaveAttestationRecordsForValidators E attWrappers =
     (if attWrappers = [] then ret ()
      else
        bind (lift (omap (\<lambda>w.
            obind (target_of w) (\<lambda>t.
            obind (encodeAttestationRecord E (Some w)) (\<lambda>value.
              Ok (w, encodeTargetEpoch t, value)))) attWrappers)) (\<lambda>items.
          for_each (back_batches items (length items)) (\<lambda>batch.
            tx (for_each (rev batch) (save_record E)))))"

section \<open>Span chunks\<close>

fun kind_byte :: "ChunkKind \<Rightarrow> u8" where
  "kind_byte MinSpan = 0"
| "kind_byte MaxSpan = 1"

definition LoadSlasherChunks ::
  "('b, 'z) kv_env_scheme \<Rightarrow> 'b slasher_store \<Rightarrow> ChunkKind \<Rightarrow> bytes list \<Rightarrow>
   (slasher_error, u16 list list \<times> bool list) outcome" where
  "LoadSlasherChunks E d kind chunkKeys =
     (let encodedKind = ssz_MarshalUint8 E (kind_byte kind);
          encodedKeys = map (\<lambda>chunkKey. encodedKind @ chunkKey) chunkKeys in
      ofold (\<lambda>encodedKey (chunks, exists).
        case bk_Get E (slasherChunks d) encodedKey of
          None \<Rightarrow> Ok (chunks @ [[]], exists @ [False])
        | Some chunkBytes \<Rightarrow>
            obind (decodeSlasherChunk E chunkBytes) (\<lambda>chunk. Ok (chunks @ [chunk], exists @ [True])))
        encodedKeys ([], []))"

definition SaveSlasherChunks ::
  "('b, 'z) kv_env_scheme \<Rightarrow> ChunkKind \<Rightarrow> bytes list \<Rightarrow> u16 list list \<Rightarrow> ('b, unit) kv_proc" where
  "SaveSlasherChunks E kind chunkKeys chunks =
     (if length chunkKeys \<noteq> length chunks then fail (WrongCount (length chunkKeys) (length chunks))
      else
        (let encodedKind = ssz_MarshalUint8 E (kind_byte kind) in
         bind (lift (omap (\<lambda>(chunkKey, chunk).
             obind (encodeSlasherChunk E chunk) (\<lambda>encodedChunk. Ok (encodedKind @ chunkKey, encodedChunk)))
             (zip chunkKeys chunks))) (\<lambda>items.
           for_each (batches items) (\<lambda>batch.
             tx (for_each batch (\<lambda>(k, c). put_in E slasherChunks slasherChunks_update k c))))))"

section \<open>Proposals\<close>

definition CheckDoubleBlockProposals ::
  "('b, 'z) kv_env_scheme \<Rightarrow> 'b slasher_store \<Rightarrow> signed_block_header_wrapper list \<Rightarrow>
   (slasher_error, proposer_slashing list) outcome" where
  "CheckDoubleBlockProposals E d incomingProposals =
     ofold (\<lambda>incoming proposerSlashings.
       obind (proposal_header incoming) (\<lambda>h.
         case bk_Get E (proposalRecords d) (keyForValidatorProposal (h_Slot h) (h_ProposerIndex h)) of
           None \<Rightarrow> Ok proposerSlashings
         | Some enc \<Rightarrow>
             if length enc < rootSize then Ok proposerSlashings
             else if array32 (ToBytes32 (take rootSize enc)) \<noteq> HeaderRoot incoming then
               obind (decodeProposalRecord E enc) (\<lambda>existing.
               obind (deref_ptr (SignedBeaconBlockHeader existing)) (\<lambda>h1.
               obind (deref_ptr (SignedBeaconBlockHeader incoming)) (\<lambda>h2.
                 Ok (proposerSlashings @ [\<lparr>Header_1 = h1, Header_2 = h2\<rparr>]))))
             else Ok proposerSlashings))
       incomingProposals []"

definition BlockProposalForValidator ::
  "('b, 'z) kv_env_scheme \<Rightarrow> 'b slasher_store \<Rightarrow> validator_index \<Rightarrow> slot \<Rightarrow>
   (slasher_error, signed_block_header_wrapper option) outcome" where
  "BlockProposalForValidator E d validatorIdx slot =
     (case bk_Get E (proposalRecords d) (keyForValidatorProposal slot validatorIdx) of
        None \<Rightarrow> Ok None
      | Some encProposal \<Rightarrow> obind (decodeProposalRecord E encProposal) (\<lambda>r. Ok (Some r)))"

definition SaveBlockProposals ::
  "('b, 'z) kv_env_scheme \<Rightarrow> signed_block_header_wrapper list \<Rightarrow> ('b, unit) kv_proc" where
  "SaveBlockProposals E proposals =
     bind (lift (omap (\<lambda>w.
         obind (proposal_header w) (\<lambda>h.
         obind (encodeProposalRecord E (Some w)) (\<lambda>enc.
           Ok (keyForValidatorProposal (h_Slot h) (h_ProposerIndex h), enc)))) proposals)) (\<lambda>items.
       tx (for_each items (\<lambda>(k, p). put_in E proposalRecords proposalRecords_update k p)))"

section \<open>Highest attestations\<close>

record highest_attestation =
  ha_ValidatorIndex :: validator_index
  ha_HighestSourceEpoch :: epoch
  ha_HighestTargetEpoch :: epoch

definition suffixForAttestationRecordsKey :: "bytes \<Rightarrow> bytes \<Rightarrow> ('e, bool) outcome" where
  "suffixForAttestationRecordsKey key encodedValidatorIndex =
     (if length key < 8 then Panic else Ok (drop 8 key = encodedValidatorIndex))"

text \<open>The walk from the last entry backwards, up to the first record of the validator.\<close>

fun highest_walk ::
  "('b, 'z) kv_env_scheme \<Rightarrow> 'b slasher_store \<Rightarrow> validator_index \<Rightarrow> (bytes \<times> bytes) list \<Rightarrow>
   (slasher_error, highest_attestation option) outcome" where
  "highest_walk E d v [] = Ok None"
| "highest_walk E d v ((k, r) # es) =
     obind (suffixForAttestationRecordsKey k (encodeValidatorIndex v)) (\<lambda>match.
       if \<not> match then highest_walk E d v es
       else
         (case bk_Get E (attestationRecords d) r of
            None \<Rightarrow> highest_walk E d v es
          | Some enc \<Rightarrow>
              obind (decodeAttestationRecord E enc) (\<lambda>w.
              obind (source_of w) (\<lambda>s.
              obind (target_of w) (\<lambda>t.
                Ok (Some \<lparr>ha_ValidatorIndex = v, ha_HighestSourceEpoch = s, ha_HighestTargetEpoch = t\<rparr>))))))"

definition HighestAttestations ::
  "('b, 'z) kv_env_scheme \<Rightarrow> 'b slasher_store \<Rightarrow> validator_index list \<Rightarrow>
   (slasher_error, highest_attestation list) outcome" where
  "HighestAttestations E d indices =
     (if indices = [] then Ok []
      else
        ofold (\<lambda>v history.
          obind (highest_walk E d v (rev (bk_Cursor E (attestationDataRoots d)))) (\<lambda>h.
            Ok (case h of None \<Rightarrow> history | Some x \<Rightarrow> history @ [x])))
          (sort indices) [])"

section \<open>Pruning (\<open>pruning.go\<close>)\<close>

definition uint64PrefixGreaterThan :: "bytes \<Rightarrow> bytes \<Rightarrow> ('e, bool) outcome" where
  "uint64PrefixGreaterThan key bound = (if length key < 8 then Panic else Ok (take 8 key > bound))"

definition slotFromProposalKey :: "bytes \<Rightarrow> ('e, slot) outcome" where
  "slotFromProposalKey key = (if length key < 8 then Panic else Ok (get_be (take 8 key)))"

fun prune_attestations ::
  "('b, 'z) kv_env_scheme \<Rightarrow> bytes \<Rightarrow> nat \<Rightarrow> nat \<Rightarrow> (bytes \<times> bytes) list \<Rightarrow> ('b, nat) kv_proc" where
  "prune_attestations E final i numPruned [] = ret numPruned"
| "prune_attestations E final i numPruned ((k, v) # es) =
     (if ctx_expired E i then fail TimedOut
      else bind (lift (uint64PrefixGreaterThan k final)) (\<lambda>past.
        if past then ret numPruned
        else
          seq (modify (attestationDataRoots_update (bk_Delete E k)))
          (seq (modify (attestationRecords_update (bk_Delete E v)))
          (prune_attestations E final (Suc i) (Suc numPruned) es))))"

definition PruneAttestationsAtEpoch ::
  "('b, 'z) kv_env_scheme \<Rightarrow> epoch \<Rightarrow> ('b, nat) kv_proc" where
  "PruneAttestationsAtEpoch E maxEpoch =
     bind (gets (\<lambda>d. bk_Cursor E (attestationDataRoots d))) (\<lambda>entries.
       case entries of
         [] \<Rightarrow> ret 0
       | (k, _) # _ \<Rightarrow>
           bind (lift (if length k < 8 then Panic else Ok (get_be (take 8 k)))) (\<lambda>lowestEpoch.
             if lowestEpoch > maxEpoch then ret 0
             else tx (prune_attestations E (put_be 8 maxEpoch) 0 0 entries)))"

fun prune_proposals ::
  "('b, 'z) kv_env_scheme \<Rightarrow> bytes \<Rightarrow> nat \<Rightarrow> nat \<Rightarrow> (bytes \<times> bytes) list \<Rightarrow> ('b, nat) kv_proc" where
  "prune_proposals E final i numPruned [] = ret numPruned"
| "prune_proposals E final i numPruned ((k, v) # es) =
     (if ctx_expired E i then fail TimedOut
      else bind (lift (uint64PrefixGreaterThan k final)) (\<lambda>past.
        if past then ret numPruned
        else
          seq (modify (proposalRecords_update (bk_Delete E k)))
          (prune_proposals E final (Suc i) (Suc numPruned) es)))"

definition PruneProposalsAtEpoch ::
  "('b, 'z) kv_env_scheme \<Rightarrow> epoch \<Rightarrow> ('b, nat) kv_proc" where
  "PruneProposalsAtEpoch E maxEpoch =
     bind (lift (owrap SlotsError (EpochEnd (kv_config E) maxEpoch))) (\<lambda>endPruneSlot.
     bind (gets (\<lambda>d. bk_Cursor E (proposalRecords d))) (\<lambda>entries.
       case entries of
         [] \<Rightarrow> ret 0
       | (k, _) # _ \<Rightarrow>
           bind (lift (slotFromProposalKey k)) (\<lambda>lowestSlot.
             if lowestSlot > endPruneSlot then ret 0
             else tx (prune_proposals E (put_be 8 endPruneSlot) 0 0 entries))))"

section \<open>Migration from little-endian keys (\<open>migrate.go\<close>)\<close>

text \<open>
  One transaction: a walk backwards from the last entry, which ends with \<open>True\<close> when the cursor is
  at its end or at a key that is not above the head, or with \<open>False\<close> after a full batch. The last
  argument holds the buckets at the earlier moves of the cursor.
\<close>

function migrate_attestations ::
  "('b, 'z) kv_env_scheme \<Rightarrow> epoch \<Rightarrow> epoch \<Rightarrow> int \<Rightarrow> nat \<Rightarrow> 'b list \<Rightarrow> ('b, bool) kv_proc" where
  "migrate_attestations E headEpoch maxPruningEpoch batch count moves =
     bind (gets (\<lambda>d. moves @ [attestationDataRoots d])) (\<lambda>moves.
       case bk_Prev E moves of
         None \<Rightarrow> ret True
       | Some (k, v) \<Rightarrow>
           if int count \<ge> batch then ret False
           else if ctx_expired E count then fail TimedOut
           else if length k < 8 then panic
           else if get_be (take 8 k) \<le> headEpoch then ret True
           else
             (let epochLittleEndian = get_le (take 8 k) in
              if epochLittleEndian > headEpoch then
                migrate_attestations E headEpoch maxPruningEpoch batch (Suc count) moves
              else
                seq (modify (attestationDataRoots_update (bk_Delete E k)))
                (if epochLittleEndian \<le> maxPruningEpoch then
                   seq (modify (attestationRecords_update (bk_Delete E v)))
                   (migrate_attestations E headEpoch maxPruningEpoch batch (Suc count) moves)
                 else
                   seq (put_in E attestationDataRoots attestationDataRoots_update
                          (put_be 8 epochLittleEndian @ drop 8 k) v)
                   (migrate_attestations E headEpoch maxPruningEpoch batch (Suc count) moves))))"
  by pat_completeness auto

termination migrate_attestations
  by (relation "measure (\<lambda>(E, headEpoch, maxPruningEpoch, batch, count, moves). nat (batch - int count))") auto

declare migrate_attestations.simps [simp del]

text \<open>The loop \<open>for !done\<close>, with fuel for its passes.\<close>

fun migrateAttestations ::
  "nat \<Rightarrow> ('b, 'z) kv_env_scheme \<Rightarrow> epoch \<Rightarrow> epoch \<Rightarrow> int \<Rightarrow> ('b, unit) kv_proc" where
  "migrateAttestations 0 E headEpoch maxPruningEpoch batch = fail Diverges"
| "migrateAttestations (Suc n) E headEpoch maxPruningEpoch batch =
     bind (tx (migrate_attestations E headEpoch maxPruningEpoch batch 0 [])) (\<lambda>finished.
       if finished then ret () else migrateAttestations n E headEpoch maxPruningEpoch batch)"

text \<open>In the walk over the proposals \<open>count\<close> stays 0, so a positive batch size never stops it. Its steps
  have fuel, because nothing else bounds them.\<close>

fun migrate_proposals ::
  "nat \<Rightarrow> ('b, 'z) kv_env_scheme \<Rightarrow> slot \<Rightarrow> slot \<Rightarrow> int \<Rightarrow> 'b list \<Rightarrow> ('b, unit) kv_proc" where
  "migrate_proposals 0 E headSlot maxPruningSlot batch moves = fail Diverges"
| "migrate_proposals (Suc n) E headSlot maxPruningSlot batch moves =
     bind (gets (\<lambda>d. moves @ [proposalRecords d])) (\<lambda>moves.
       case bk_Prev E moves of
         None \<Rightarrow> ret ()
       | Some (k, v) \<Rightarrow>
           if 0 \<ge> batch then ret ()
           else if ctx_expired E (length moves - 1) then fail TimedOut
           else if length k < 8 then panic
           else if get_be (take 8 k) \<le> headSlot then ret ()
           else
             (let slotLittleEndian = get_le (take 8 k) in
              if slotLittleEndian > headSlot then migrate_proposals n E headSlot maxPruningSlot batch moves
              else
                seq (modify (proposalRecords_update (bk_Delete E k)))
                (if slotLittleEndian \<le> maxPruningSlot then
                   migrate_proposals n E headSlot maxPruningSlot batch moves
                 else
                   seq (put_in E proposalRecords proposalRecords_update
                          (put_be 8 slotLittleEndian @ drop 8 k) v)
                   (migrate_proposals n E headSlot maxPruningSlot batch moves))))"

definition migrateProposals ::
  "nat \<Rightarrow> ('b, 'z) kv_env_scheme \<Rightarrow> epoch \<Rightarrow> epoch \<Rightarrow> int \<Rightarrow> ('b, unit) kv_proc" where
  "migrateProposals fuel E headEpoch maxPruningEpoch batch =
     bind (lift (owrap SlotsError (EpochEnd (kv_config E) maxPruningEpoch))) (\<lambda>maxPruningSlot.
     bind (lift (owrap SlotsError (EpochEnd (kv_config E) headEpoch))) (\<lambda>headSlot.
       tx (migrate_proposals fuel E headSlot maxPruningSlot batch [])))"

definition Migrate ::
  "nat \<Rightarrow> ('b, 'z) kv_env_scheme \<Rightarrow> epoch \<Rightarrow> epoch \<Rightarrow> int \<Rightarrow> ('b, unit) kv_proc" where
  "Migrate fuel E headEpoch maxPruningEpoch batch =
     seq (migrateAttestations fuel E headEpoch maxPruningEpoch batch)
       (migrateProposals fuel E headEpoch maxPruningEpoch batch)"

section \<open>The store as a slasher database\<close>

text \<open>The fuel of a migration is one more than the two buckets have entries: a bound on the passes over
  the attestations and on the steps over the proposals, if the cursor returns no entry twice.\<close>

definition kv_database :: "('b, 'z) kv_env_scheme \<Rightarrow> 'b slasher_store slasher_db" where
  "kv_database E =
     \<lparr>db_SaveLastEpochWritten = SaveLastEpochWrittenForValidators E,
      db_LastEpochWritten = LastEpochWrittenForValidators E,
      db_SaveAttestationRecords = SaveAttestationRecordsForValidators E,
      db_AttestationRecord = AttestationRecordForValidator E,
      db_CheckAttesterDoubleVotes = CheckAttesterDoubleVotes E,
      db_LoadSlasherChunks = LoadSlasherChunks E,
      db_SaveSlasherChunks = SaveSlasherChunks E,
      db_CheckDoubleBlockProposals = CheckDoubleBlockProposals E,
      db_SaveBlockProposals = SaveBlockProposals E,
      db_PruneAttestationsAtEpoch = PruneAttestationsAtEpoch E,
      db_PruneProposalsAtEpoch = PruneProposalsAtEpoch E,
      db_Migrate = (\<lambda>headEpoch maxPruningEpoch batch d.
        Migrate (Suc (length (bk_Cursor E (attestationDataRoots d)) + length (bk_Cursor E (proposalRecords d)))) E headEpoch maxPruningEpoch batch d)\<rparr>"

end
