(* ===== verification/Slasher_Store.thy ===== *)
theory Slasher_Store
  imports Slasher_KV
begin

text \<open>
  What the slasher database keeps. \<open>bolt_ok\<close> and \<open>codec_ok\<close> collect the documented behaviour of the
  libraries: a bucket is a map from keys to values, a write of a key and a value within the limits
  succeeds, a cursor visits the entries by increasing key, and decoding inverts encoding.
  \<open>store_ok\<close> is the invariant of the two attestation buckets.
\<close>

section \<open>What the libraries promise\<close>

definition accepted :: "bytes \<Rightarrow> bytes \<Rightarrow> bool" where
  "accepted k v \<longleftrightarrow> k \<noteq> [] \<and> length k \<le> 32768 \<and> length v \<le> 2147483646"

definition bolt_ok :: "('b, 'z) kv_env_scheme \<Rightarrow> bool" where
  "bolt_ok E \<longleftrightarrow>
     (\<forall>b k v. accepted k v \<longrightarrow> bk_Put E k v b \<noteq> None) \<and>
     (\<forall>b k v b'. bk_Put E k v b = Some b' \<longrightarrow> bk_Get E b' = (bk_Get E b)(k \<mapsto> v)) \<and>
     (\<forall>b k. bk_Get E (bk_Delete E k b) = (bk_Get E b)(k := None)) \<and>
     (\<forall>b. sorted_wrt (\<lambda>x y. fst x < fst y) (bk_Cursor E b) \<and> map_of (bk_Cursor E b) = bk_Get E b)"

definition codec_ok :: "('b, 'z) kv_env_scheme \<Rightarrow> bool" where
  "codec_ok E \<longleftrightarrow>
     (\<forall>bs. snappy_Decode E (snappy_Encode E bs) = Ok bs) \<and>
     (\<forall>a bs. att_MarshalSSZ E a = Ok bs \<longrightarrow> att_UnmarshalSSZ E (att_Version a) bs = Ok a) \<and>
     (\<forall>h bs. hdr_MarshalSSZ E h = Ok bs \<longrightarrow> hdr_UnmarshalSSZ E bs = Ok h) \<and>
     (\<forall>k. length (ssz_MarshalUint8 E k) = 1) \<and> inj (ssz_MarshalUint8 E) \<and>
     (\<forall>x. length (ssz_MarshalUint16 E x) = 2 \<and> ssz_UnmarshallUint16 E (ssz_MarshalUint16 E x) = x) \<and>
     (\<forall>x. length (ssz_MarshalUint64 E x) = 8 \<and> ssz_UnmarshallUint64 E (ssz_MarshalUint64 E x) = x)"

lemma bolt_okD:
  assumes "bolt_ok E"
  shows "bk_Put E k v b = Some b' \<Longrightarrow> bk_Get E b' = (bk_Get E b)(k \<mapsto> v)"
    and "bk_Get E (bk_Delete E k b) = (bk_Get E b)(k := None)"
    and "sorted_wrt (\<lambda>x y. fst x < fst y) (bk_Cursor E b)"
    and "map_of (bk_Cursor E b) = bk_Get E b"
    and "accepted k v \<Longrightarrow> \<exists>b'. bk_Put E k v b = Some b'"
  using assms unfolding bolt_ok_def by blast+

lemma distinct_cursor: "bolt_ok E \<Longrightarrow> distinct (map fst (bk_Cursor E b))"
proof -
  assume "bolt_ok E"
  then have "sorted_wrt (<) (map fst (bk_Cursor E b))"
    using bolt_okD(3) by (simp add: sorted_wrt_map)
  then show ?thesis by (simp add: strict_sorted_iff)
qed

section \<open>Keys\<close>

lemma encodeValidatorIndex_put_le: "encodeValidatorIndex v = put_le 5 v"
  by (simp add: encodeValidatorIndex_def put_le_def upt_rec)

lemma length_encodeValidatorIndex [simp]: "length (encodeValidatorIndex v) = 5"
  by (simp add: encodeValidatorIndex_def)

lemma length_put_be [simp]: "length (put_be n x) = n"
  by (simp add: put_be_def)

lemma put_be_inj: "put_be 8 a = put_be 8 b \<longleftrightarrow> a = b"
  using get_be_put_be by metis

lemma encodeValidatorIndex_inj:
  assumes "v < 2 ^ 40" and "w < 2 ^ 40"
  shows "encodeValidatorIndex v = encodeValidatorIndex w \<longleftrightarrow> v = w"
proof
  assume eq: "encodeValidatorIndex v = encodeValidatorIndex w"
  have get: "get_le (put_le 5 x) = x" if "x < 2 ^ 40" for x :: u64
  proof (rule bit_word_eqI)
    fix n assume n: "n < LENGTH(64)"
    show "bit (get_le (put_le 5 x) :: u64) n \<longleftrightarrow> bit x n"
    proof (cases "n < 40")
      case True
      then have "n div 8 < 5" by simp
      then show ?thesis using n True by (simp add: bit_get_le bit_put_le)
    next
      case False
      have "unat x < 2 ^ 40" using that by (simp add: word_less_nat_alt)
      also have "(2 :: nat) ^ 40 \<le> 2 ^ n" using False by (intro power_increasing) simp_all
      finally have "\<not> bit (unat x) n" by (simp add: bit_iff_odd)
      then have "\<not> bit x n" by (simp add: bit_unsigned_iff bit_imp_le_length)
      then show ?thesis using False by (simp add: bit_get_le)
    qed
  qed
  from eq get[OF assms(1)] get[OF assms(2)] show "v = w"
    by (metis encodeValidatorIndex_put_le)
qed simp

lemma validatorEpochKey_inj:
  assumes "v < 2 ^ 40" and "w < 2 ^ 40"
  shows "validatorEpochKey e v = validatorEpochKey f w \<longleftrightarrow> e = f \<and> v = w"
  using encodeValidatorIndex_inj[OF assms]
  by (simp add: validatorEpochKey_def encodeTargetEpoch_def put_be_inj append_eq_append_conv)

lemma take_validatorEpochKey [simp]: "take 8 (validatorEpochKey e v) = put_be 8 e"
  by (simp add: validatorEpochKey_def encodeTargetEpoch_def)

lemma length_validatorEpochKey [simp]: "length (validatorEpochKey e v) = 13"
  by (simp add: validatorEpochKey_def encodeTargetEpoch_def)

lemma array32_root_bytes [simp]: "array32 (root_bytes r) = r"
proof (rule bit_word_eqI)
  fix n assume n: "n < LENGTH(256)"
  then have "n div 8 < 32" by simp
  then show "bit (array32 (root_bytes r)) n \<longleftrightarrow> bit r n"
    using n by (simp add: array32_def get_be_def root_bytes_def bit_get_le bit_simps)
qed

lemma root_bytes_inj: "root_bytes a = root_bytes b \<longleftrightarrow> a = b"
  using array32_root_bytes by metis

section \<open>Records\<close>

lemma HasElectraKey_prefix: "xs \<noteq> [] \<Longrightarrow> HasElectraKey (ElectraKey @ xs)"
  by (simp add: HasElectraKey_def)

text \<open>A phase 0 record whose data root starts with the bytes of the Electra key would be misread.\<close>

definition unambiguous :: "indexed_attestation_wrapper \<Rightarrow> bool" where
  "unambiguous w \<longleftrightarrow>
     (\<forall>a. w_IndexedAttestation w = Some a \<and> att_Version a = Phase0 \<longrightarrow>
        take 7 (root_bytes (w_DataRoot w)) \<noteq> ElectraKey)"

lemma length_ElectraKey [simp]: "length ElectraKey = 7"
  by (simp add: ElectraKey_def)

lemma att_Version_cases: "att_Version a = Phase0 \<or> att_Version a = Electra"
  by (cases a) simp_all

lemma Electra_not_le_Phase0: "Electra \<le> Electra" "\<not> Electra \<le> Phase0"
  by (simp_all add: less_eq_fork_version_def)

lemma attestation_record_roundtrip:
  assumes "codec_ok E" and "unambiguous w" and "encodeAttestationRecord E (Some w) = Ok enc"
  shows "decodeAttestationRecord E enc = Ok w"
proof -
  from assms(3) obtain a bs where a: "w_IndexedAttestation w = Some a" "att_MarshalSSZ E a = Ok bs"
    and enc: "enc = (if att_Version a \<ge> Electra then ElectraKey else []) @
      root_bytes (w_DataRoot w) @ snappy_Encode E bs"
    by (auto simp: encodeAttestationRecord_def Let_def outcome_iff split: option.splits if_splits)
  have codec: "snappy_Decode E (snappy_Encode E bs) = Ok bs" "att_UnmarshalSSZ E (att_Version a) bs = Ok a"
    using assms(1) a(2) by (auto simp: codec_ok_def)
  have w: "\<lparr>w_IndexedAttestation = Some a, w_DataRoot = w_DataRoot w\<rparr> = w" using a(1) by simp
  from att_Version_cases[of a] show ?thesis
  proof
    assume v: "att_Version a = Phase0"
    then have "\<not> HasElectraKey enc"
      using assms(2) a(1) by (simp add: enc Electra_not_le_Phase0 HasElectraKey_def unambiguous_def)
    then show ?thesis
      using v codec w
      by (simp add: decodeAttestationRecord_def enc Electra_not_le_Phase0 rootSize_def Let_def ToBytes32_id)
  next
    assume v: "att_Version a = Electra"
    then have enc': "enc = ElectraKey @ root_bytes (w_DataRoot w) @ snappy_Encode E bs"
      by (simp add: enc Electra_not_le_Phase0)
    have "HasElectraKey enc" unfolding enc' by (rule HasElectraKey_prefix) (simp flip: length_greater_0_conv)
    then show ?thesis
      using v codec w by (simp add: decodeAttestationRecord_def enc' rootSize_def Let_def ToBytes32_id)
  qed
qed

section \<open>Batched writes\<close>

lemma concat_batches: "concat (batches xs) = xs"
  by (induction xs rule: batches.induct) (subst batches.simps, simp)

lemma concat_back_batches: "concat (map rev (back_batches xs stop)) = rev (take stop xs)"
proof (induction xs stop rule: back_batches.induct)
  case (1 xs stop)
  have split: "take stop xs = take (stop - batchSize) xs @ drop (stop - batchSize) (take stop xs)"
    by (metis append_take_drop_id diff_le_self min_absorb1 take_take)
  show ?case
  proof (cases "stop \<ge> batchSize")
    case True
    then show ?thesis
      using 1[OF True] by (subst back_batches.simps) (simp, metis rev_append split)
  qed (subst back_batches.simps, simp)
qed

lemma set_back_batches: "b \<in> set (back_batches xs stop) \<Longrightarrow> set b \<subseteq> set xs"
proof (induction xs stop rule: back_batches.induct)
  case (1 xs stop)
  then show ?case
    by (subst (asm) (2) back_batches.simps) (auto split: if_splits dest: in_set_dropD in_set_takeD)
qed

lemma set_batches: "b \<in> set (batches xs) \<Longrightarrow> set b \<subseteq> set xs"
  using concat_batches[of xs] by (metis UN_upper set_concat)

lemma for_each_total:
  assumes "\<And>x d. x \<in> set xs \<Longrightarrow> body x d = (Ok (), g x d)"
  shows "for_each xs body d = (Ok (), fold g xs d)"
  using assms by (induction xs arbitrary: d) (simp_all add: proc_simps)

lemma for_each_tx:
  assumes "\<And>b x d. b \<in> set bs \<Longrightarrow> x \<in> set b \<Longrightarrow> body x d = (Ok (), g x d)"
    and "\<And>b. b \<in> set bs \<Longrightarrow> set (h b) = set b"
  shows "for_each bs (\<lambda>b. tx (for_each (h b) body)) d = (Ok (), fold g (concat (map h bs)) d)"
  using assms
proof (induction bs arbitrary: d)
  case (Cons b bs)
  have "for_each (h b) body d = (Ok (), fold g (h b) d)"
    by (rule for_each_total) (use Cons.prems in auto)
  then have "tx (for_each (h b) body) d = (Ok (), fold g (h b) d)" by (simp add: tx_def)
  moreover have "for_each bs (\<lambda>b. tx (for_each (h b) body)) d' = (Ok (), fold g (concat (map h bs)) d')" for d'
    by (rule Cons.IH) (use Cons.prems in auto)
  ultimately show ?case by (simp add: proc_simps)
qed (simp add: proc_simps)

text \<open>A write that the library accepts.\<close>

definition put_to ::
  "('b, 'z) kv_env_scheme \<Rightarrow> bytes \<times> bytes \<Rightarrow> 'b \<Rightarrow> 'b" where
  "put_to E = (\<lambda>(k, v) b. the (bk_Put E k v b))"

lemma put_in_accepted:
  assumes "bolt_ok E" and "accepted k v"
  shows "put_in E get upd k v d = (Ok (), upd (\<lambda>_. put_to E (k, v) (get d)) d)"
  using bolt_okD(5)[OF assms, of "get d"] by (auto simp: put_in_def put_to_def)

lemma Get_put_to:
  assumes "bolt_ok E" and "accepted k v"
  shows "bk_Get E (put_to E (k, v) b) = (bk_Get E b)(k \<mapsto> v)"
  using bolt_okD(5)[OF assms, of b] bolt_okD(1)[OF assms(1)] by (auto simp: put_to_def)

lemma Get_fold_put_to:
  assumes "bolt_ok E" and "\<And>k v. (k, v) \<in> set kvs \<Longrightarrow> accepted k v"
  shows "bk_Get E (fold (put_to E) kvs b) = bk_Get E b ++ map_of (rev kvs)"
  using assms(2)
proof (induction kvs arbitrary: b)
  case (Cons kv kvs)
  obtain k v where "kv = (k, v)" by force
  with Cons show ?case by (simp add: Get_put_to[OF assms(1)] map_add_def fun_eq_iff split: option.splits)
qed simp

section \<open>Saving attestation records\<close>

text \<open>A wrapped attestation that can be stored: complete, encodable, within the limits of the library.\<close>

definition storable :: "('b, 'z) kv_env_scheme \<Rightarrow> indexed_attestation_wrapper \<Rightarrow> bool" where
  "storable E w \<longleftrightarrow>
     unambiguous w \<and> (\<exists>s t. votes w s t) \<and>
     (\<exists>enc. encodeAttestationRecord E (Some w) = Ok enc \<and> length enc \<le> 2147483646)"

definition w_target :: "indexed_attestation_wrapper \<Rightarrow> epoch" where
  "w_target w = (case target_of w :: (slasher_error, epoch) outcome of Ok t \<Rightarrow> t | _ \<Rightarrow> 0)"

definition w_indices :: "indexed_attestation_wrapper \<Rightarrow> validator_index list" where
  "w_indices w = (case indices_of w :: (slasher_error, validator_index list) outcome of Ok vs \<Rightarrow> vs | _ \<Rightarrow> [])"

definition w_record :: "('b, 'z) kv_env_scheme \<Rightarrow> indexed_attestation_wrapper \<Rightarrow> bytes" where
  "w_record E w = (case encodeAttestationRecord E (Some w) of Ok enc \<Rightarrow> enc | _ \<Rightarrow> [])"

lemma storableD:
  assumes "storable E w"
  shows "target_of w = (Ok (w_target w) :: (slasher_error, epoch) outcome)"
    and "indices_of w = (Ok (w_indices w) :: (slasher_error, validator_index list) outcome)"
    and "encodeAttestationRecord E (Some w) = Ok (w_record E w)"
    and "length (w_record E w) \<le> 2147483646"
  using assms
  by (auto simp: storable_def votes_def w_target_def w_indices_def w_record_def indices_of_def target_of_def
      w_data_def outcome_iff)

definition record_put :: "('b, 'z) kv_env_scheme \<Rightarrow> indexed_attestation_wrapper \<Rightarrow> bytes \<times> bytes" where
  "record_put E w = (root_bytes (w_DataRoot w), w_record E w)"

definition root_puts :: "indexed_attestation_wrapper \<Rightarrow> (bytes \<times> bytes) list" where
  "root_puts w = map (\<lambda>v. (validatorEpochKey (w_target w) v, root_bytes (w_DataRoot w))) (w_indices w)"

definition with_record ::
  "('b, 'z) kv_env_scheme \<Rightarrow> indexed_attestation_wrapper \<Rightarrow> 'b slasher_store \<Rightarrow> 'b slasher_store" where
  "with_record E w d =
     d\<lparr>attestationRecords := put_to E (record_put E w) (attestationRecords d),
       attestationDataRoots := fold (put_to E) (root_puts w) (attestationDataRoots d)\<rparr>"

lemma accepted_record: "storable E w \<Longrightarrow> accepted (root_bytes (w_DataRoot w)) (w_record E w)"
  using storableD(4)[of E w] by (simp add: accepted_def flip: length_0_conv)

lemma accepted_root: "accepted (validatorEpochKey t v) (root_bytes r)"
  by (simp add: accepted_def flip: length_0_conv)

lemma for_each_root_puts:
  assumes "bolt_ok E"
  shows "for_each vs (\<lambda>v. put_in E attestationDataRoots attestationDataRoots_update
            (encodeTargetEpoch t @ encodeValidatorIndex v) (root_bytes r)) d =
         (Ok (), d\<lparr>attestationDataRoots :=
            fold (put_to E) (map (\<lambda>v. (validatorEpochKey t v, root_bytes r)) vs) (attestationDataRoots d)\<rparr>)"
proof (induction vs arbitrary: d)
  case (Cons v vs)
  then show ?case
    using put_in_accepted[OF assms accepted_root[of t v r], of attestationDataRoots attestationDataRoots_update d]
    by (simp add: proc_simps validatorEpochKey_def)
qed (simp add: proc_simps)

lemma save_record_eq:
  assumes "bolt_ok E" and "storable E w"
  shows "save_record E (w, encodeTargetEpoch (w_target w), w_record E w) d = (Ok (), with_record E w d)"
  using put_in_accepted[OF assms(1) accepted_record[OF assms(2)],
      of attestationRecords attestationRecords_update d] for_each_root_puts[OF assms(1)] storableD(2)[OF assms(2)]
  by (simp add: save_record_def proc_simps with_record_def record_put_def root_puts_def)

lemma omap_Ok: "(\<And>x. x \<in> set xs \<Longrightarrow> f x = Ok (g x)) \<Longrightarrow> omap f xs = Ok (map g xs)"
  by (induction xs) simp_all

lemma Save_eq:
  assumes "bolt_ok E" and "\<And>w. w \<in> set ws \<Longrightarrow> storable E w"
  shows "SaveAttestationRecordsForValidators E ws d = (Ok (), fold (with_record E) (rev ws) d)"
proof (cases "ws = []")
  case False
  define f where "f w = (w, encodeTargetEpoch (w_target w), w_record E w)" for w
  have items: "omap (\<lambda>w. obind (target_of w) (\<lambda>t. obind (encodeAttestationRecord E (Some w)) (\<lambda>value.
      Ok (w, encodeTargetEpoch t, value)))) ws = (Ok (map f ws) :: (slasher_error, _) outcome)"
    by (rule omap_Ok) (simp add: f_def storableD(1,3)[OF assms(2)])
  have step: "save_record E x d = (Ok (), with_record E (fst x) d)" if "x \<in> set (map f ws)" for x d
    using that save_record_eq[OF assms(1) assms(2)] by (auto simp: f_def)
  have "for_each (back_batches (map f ws) (length ws)) (\<lambda>b. tx (for_each (rev b) (save_record E))) d =
      (Ok (), fold (\<lambda>x. with_record E (fst x)) (concat (map rev (back_batches (map f ws) (length ws)))) d)"
    by (rule for_each_tx) (use step set_back_batches in blast, simp)
  also have "\<dots> = (Ok (), fold (with_record E) (rev ws) d)"
    by (simp add: concat_back_batches rev_map fold_map f_def comp_def)
  finally show ?thesis
    using False items by (simp add: SaveAttestationRecordsForValidators_def proc_simps)
qed (simp add: SaveAttestationRecordsForValidators_def proc_simps)

lemma records_after:
  "attestationRecords (fold (with_record E) ws d) = fold (put_to E) (map (record_put E) ws) (attestationRecords d)"
  "attestationDataRoots (fold (with_record E) ws d) = fold (put_to E) (concat (map root_puts ws)) (attestationDataRoots d)"
  by (induction ws arbitrary: d) (simp_all add: with_record_def)

lemma Get_records_saved:
  assumes "bolt_ok E" and "\<And>w. w \<in> set ws \<Longrightarrow> storable E w"
  shows "bk_Get E (attestationRecords (fold (with_record E) (rev ws) d)) =
         bk_Get E (attestationRecords d) ++ map_of (map (record_put E) ws)"
  unfolding records_after
  by (subst Get_fold_put_to[OF assms(1)])
    (use accepted_record[OF assms(2)] in \<open>auto simp: record_put_def rev_map\<close>)

lemma Get_roots_saved:
  assumes "bolt_ok E"
  shows "bk_Get E (attestationDataRoots (fold (with_record E) (rev ws) d)) =
         bk_Get E (attestationDataRoots d) ++ map_of (concat (map (\<lambda>w. rev (root_puts w)) ws))"
  unfolding records_after
  by (subst Get_fold_put_to[OF assms]) (auto simp: root_puts_def accepted_root rev_concat rev_map comp_def)

section \<open>Looking records up\<close>

lemma map_of_record_put:
  "map_of (map (record_put E) ws) (root_bytes r) = map_option (w_record E) (find (\<lambda>w. w_DataRoot w = r) ws)"
  by (induction ws) (auto simp: record_put_def root_bytes_inj)

lemma map_of_const:
  "map_of (map (\<lambda>v. (f v, c)) vs) k = (if k \<in> f ` set vs then Some c else None)"
  "map_of (rev (map (\<lambda>v. (f v, c)) vs)) k = (if k \<in> f ` set vs then Some c else None)"
proof -
  show *: "map_of (map (\<lambda>v. (f v, c)) vs) k = (if k \<in> f ` set vs then Some c else None)" for vs
    by (induction vs) auto
  show "map_of (rev (map (\<lambda>v. (f v, c)) vs)) k = (if k \<in> f ` set vs then Some c else None)"
    using *[of "rev vs"] by (simp add: rev_map)
qed

lemma map_of_root_puts:
  assumes "v < 2 ^ 40" and "\<forall>v \<in> set (w_indices w). v < 2 ^ 40"
  shows "map_of (rev (root_puts w)) (validatorEpochKey t v) =
    (if w_target w = t \<and> v \<in> set (w_indices w) then Some (root_bytes (w_DataRoot w)) else None)"
  using assms by (auto simp: root_puts_def map_of_const image_iff validatorEpochKey_inj)

lemma map_of_all_root_puts:
  assumes "v < 2 ^ 40" and "\<forall>w \<in> set ws. \<forall>v \<in> set (w_indices w). v < 2 ^ 40"
  shows "map_of (concat (map (\<lambda>w. rev (root_puts w)) ws)) (validatorEpochKey t v) =
    map_option (\<lambda>w. root_bytes (w_DataRoot w)) (find (\<lambda>w. w_target w = t \<and> v \<in> set (w_indices w)) ws)"
  using assms(2)
proof (induction ws)
  case (Cons w ws)
  then show ?case by (simp add: map_of_root_puts[OF assms(1)] map_add_def)
qed simp

lemma AttestationRecord_saved:
  assumes "bolt_ok E" and "codec_ok E" and "\<And>w. w \<in> set ws \<Longrightarrow> storable E w"
    and "\<forall>w \<in> set ws. \<forall>v \<in> set (w_indices w). v < 2 ^ 40" and "v < 2 ^ 40"
    and "find (\<lambda>w. w_target w = t \<and> v \<in> set (w_indices w)) ws = Some w"
  shows "\<exists>w'. find (\<lambda>x. w_DataRoot x = w_DataRoot w) ws = Some w' \<and>
    AttestationRecordForValidator E (fold (with_record E) (rev ws) d) v t = Ok (Some w')"
proof -
  have "w \<in> set ws" using assms(6) by (auto simp: find_Some_iff)
  then obtain w' where w': "find (\<lambda>x. w_DataRoot x = w_DataRoot w) ws = Some w'"
    by (cases "find (\<lambda>x. w_DataRoot x = w_DataRoot w) ws") (auto simp: find_None_iff)
  then have st: "storable E w'" using assms(3) by (auto simp: find_Some_iff)
  then have "decodeAttestationRecord E (w_record E w') = Ok w'"
    using attestation_record_roundtrip[OF assms(2) _ storableD(3)[OF st]] by (simp add: storable_def)
  then show ?thesis
    using w' by (simp add: AttestationRecordForValidator_def Get_roots_saved[OF assms(1)]
        Get_records_saved[OF assms(1,3)] map_of_all_root_puts[OF assms(5,4)] assms(6) map_of_record_put)
qed

section \<open>Byte order\<close>

primrec le_nat :: "bytes \<Rightarrow> nat" where
  "le_nat [] = 0"
| "le_nat (b # bs) = unat b + 256 * le_nat bs"

lemma unat_byte_less: "unat (b :: u8) < 256"
  using unsigned_less[of b] by simp

lemma le_nat_bound: "le_nat bs < 256 ^ length bs"
proof (induction bs)
  case (Cons b bs)
  have "unat b < 256" by (rule unat_byte_less)
  moreover have "256 * (le_nat bs + 1) \<le> 256 * 256 ^ length bs" using Cons by (intro mult_le_mono2) simp
  ultimately show ?case unfolding le_nat.simps by (simp add: algebra_simps)
qed simp

lemma le_nat_append: "le_nat (xs @ ys) = le_nat xs + 256 ^ length xs * le_nat ys"
  by (induction xs) (simp_all add: algebra_simps)

lemma get_le_Cons_add: "(get_le (b # bs) :: u64) = ucast b + push_bit 8 (get_le bs)"
proof -
  have "\<not> bit (ucast b :: u64) n \<or> \<not> bit (push_bit 8 (get_le bs) :: u64) n" for n
    by (auto simp: bit_simps dest: bit_imp_le_length)
  then show ?thesis by (simp add: disjunctive_add)
qed

lemma unat_get_le: "length bs \<le> 8 \<Longrightarrow> unat (get_le bs :: u64) = le_nat bs"
proof (induction bs)
  case (Cons b bs)
  have b: "unat (ucast b :: u64) = unat b"
    using take_bit_nat_eq_self[OF less_trans[OF unat_byte_less], of 64 b] by (simp add: unsigned_ucast_eq)
  have "le_nat (b # bs) < 256 ^ length (b # bs)" by (rule le_nat_bound)
  also have "(256 :: nat) ^ length (b # bs) \<le> 256 ^ 8" using Cons.prems by (intro power_increasing) auto
  finally have fits: "unat b + 256 * le_nat bs < 2 ^ 64" by simp
  have x: "unat (get_le bs :: u64) = le_nat bs" using Cons by simp
  have push: "unat (push_bit 8 (get_le bs) :: u64) = 256 * le_nat bs"
    using fits x by (simp add: push_bit_eq_mult unat_mult_u64 mult.commute)
  show ?case
    unfolding get_le_Cons_add using fits by (simp add: unat_add_u64 b push del: get_le.simps)
qed simp

lemma less_bytes_iff: "length xs = length ys \<Longrightarrow> xs < ys \<longleftrightarrow> le_nat (rev xs) < le_nat (rev ys)"
proof (induction xs ys rule: list_induct2)
  case (Cons x xs y ys)
  have bounds: "le_nat (rev xs) < 256 ^ length xs" "le_nat (rev ys) < 256 ^ length xs"
    using le_nat_bound[of "rev xs"] le_nat_bound[of "rev ys"] Cons.hyps by simp_all
  consider "x = y" | "unat x < unat y" | "unat y < unat x"
    by (meson nat_neq_iff unsigned_word_eqI)
  then show ?case
  proof cases
    case 1
    then show ?thesis using Cons by (simp add: le_nat_append)
  next
    case 2
    then have "256 ^ length xs * (unat x + 1) \<le> 256 ^ length xs * unat y" by (intro mult_le_mono2) simp
    with 2 bounds show ?thesis using Cons.hyps by (simp add: le_nat_append word_less_nat_alt)
  next
    case 3
    then have "256 ^ length xs * (unat y + 1) \<le> 256 ^ length xs * unat x" by (intro mult_le_mono2) simp
    with 3 bounds show ?thesis using Cons.hyps by (auto simp: le_nat_append word_less_nat_alt)
  qed
qed simp

lemma put_be_less_iff: "put_be 8 a < put_be 8 b \<longleftrightarrow> a < b"
proof -
  have "le_nat (put_le 8 x) = unat x" for x using unat_get_le[of "put_le 8 x"] by (simp add: get_le_put_le)
  then show ?thesis by (simp add: less_bytes_iff put_be_def word_less_nat_alt)
qed

lemma take_mono_bytes: "(xs :: bytes) < ys \<Longrightarrow> take n xs \<le> take n ys"
proof (induction n arbitrary: xs ys)
  case (Suc n)
  then show ?case by (cases xs; cases ys) (auto simp: le_less)
qed simp

section \<open>The invariant of the attestation buckets\<close>

text \<open>
  The data root of a wrapper is the root \<open>R\<close> of its data, which is one of the data \<open>Ds\<close> that occur; on
  these \<open>R\<close> has no collision. Every entry of the data root bucket has the
  key of a validator and a target epoch, and its root leads to a record of an attestation with that
  root and that target.
\<close>

definition rooted :: "(attestation_data \<Rightarrow> root) \<Rightarrow> attestation_data set \<Rightarrow> indexed_attestation_wrapper \<Rightarrow> bool" where
  "rooted R Ds w \<longleftrightarrow>
     (\<exists>D \<in> Ds. (w_data w :: (slasher_error, attestation_data) outcome) = Ok D \<and> w_DataRoot w = R D)"

definition has_record ::
  "('b, 'z) kv_env_scheme \<Rightarrow> 'b slasher_store \<Rightarrow> bytes \<Rightarrow> indexed_attestation_wrapper \<Rightarrow> bool" where
  "has_record E d r w \<longleftrightarrow>
     r = root_bytes (w_DataRoot w) \<and>
     (\<exists>enc. bk_Get E (attestationRecords d) r = Some enc \<and> decodeAttestationRecord E enc = Ok w)"

definition store_ok ::
  "('b, 'z) kv_env_scheme \<Rightarrow> (attestation_data \<Rightarrow> root) \<Rightarrow> attestation_data set \<Rightarrow> 'b slasher_store \<Rightarrow> bool" where
  "store_ok E R Ds d \<longleftrightarrow>
     (\<forall>k r. bk_Get E (attestationDataRoots d) k = Some r \<longrightarrow>
        (\<exists>w v. k = validatorEpochKey (w_target w) v \<and> has_record E d r w \<and> rooted R Ds w))"

lemma store_okD:
  assumes "store_ok E R Ds d" and "bk_Get E (attestationDataRoots d) k = Some r"
  obtains w v where "k = validatorEpochKey (w_target w) v" "has_record E d r w" "rooted R Ds w"
  using assms unfolding store_ok_def by blast

lemma has_record_unique: "has_record E d r w \<Longrightarrow> has_record E d r w' \<Longrightarrow> w = w'"
  unfolding has_record_def by (metis option.inject outcome.inject(1))

lemma same_root_same_target:
  assumes "inj_on R Ds" and "rooted R Ds w" and "rooted R Ds w'" and "w_DataRoot w = w_DataRoot w'"
  shows "w_target w = w_target w'"
proof -
  from assms obtain D where "(w_data w :: (slasher_error, attestation_data) outcome) = Ok D"
    "(w_data w' :: (slasher_error, attestation_data) outcome) = Ok D"
    by (auto simp: rooted_def inj_on_eq_iff)
  then show ?thesis by (simp add: w_target_def target_of_def)
qed

lemma has_record_saved:
  assumes "bolt_ok E" and "codec_ok E" and "\<And>w. w \<in> set ws \<Longrightarrow> storable E w \<and> rooted R Ds w" and "inj_on R Ds"
    and "w \<in> set ws \<or> has_record E d (root_bytes (w_DataRoot w)) w" and "rooted R Ds w"
  shows "\<exists>w'. w_target w' = w_target w \<and> rooted R Ds w' \<and>
    has_record E (fold (with_record E) (rev ws) d) (root_bytes (w_DataRoot w)) w'"
proof (cases "find (\<lambda>x. w_DataRoot x = w_DataRoot w) ws")
  case None
  then have "w \<notin> set ws" by (auto simp: find_None_iff)
  with assms(5) have "has_record E d (root_bytes (w_DataRoot w)) w" by simp
  with None assms(3) have "has_record E (fold (with_record E) (rev ws) d) (root_bytes (w_DataRoot w)) w"
    by (simp add: has_record_def Get_records_saved[OF assms(1)] map_of_record_put map_add_def)
  with assms(6) show ?thesis by blast
next
  case (Some w')
  then have w': "w' \<in> set ws" "w_DataRoot w' = w_DataRoot w" by (auto simp: find_Some_iff)
  have st: "storable E w'" "rooted R Ds w'" using assms(3)[OF w'(1)] by simp_all
  have "decodeAttestationRecord E (w_record E w') = Ok w'"
    using attestation_record_roundtrip[OF assms(2) _ storableD(3)[OF st(1)]] st(1) by (simp add: storable_def)
  with Some w'(2) assms(3) have "has_record E (fold (with_record E) (rev ws) d) (root_bytes (w_DataRoot w)) w'"
    by (simp add: has_record_def Get_records_saved[OF assms(1)] map_of_record_put)
  moreover have "w_target w' = w_target w"
    by (rule same_root_same_target[OF assms(4) st(2) assms(6) w'(2)])
  ultimately show ?thesis using st(2) by blast
qed

lemma store_ok_saved:
  assumes "bolt_ok E" and "codec_ok E" and "\<And>w. w \<in> set ws \<Longrightarrow> storable E w \<and> rooted R Ds w" and "inj_on R Ds"
    and "store_ok E R Ds d"
  shows "store_ok E R Ds (fold (with_record E) (rev ws) d)"
  unfolding store_ok_def
proof (intro allI impI)
  fix k r assume get: "bk_Get E (attestationDataRoots (fold (with_record E) (rev ws) d)) k = Some r"
  have "\<exists>w v. k = validatorEpochKey (w_target w) v \<and> r = root_bytes (w_DataRoot w) \<and>
      (w \<in> set ws \<or> has_record E d (root_bytes (w_DataRoot w)) w) \<and> rooted R Ds w"
  proof (cases "map_of (concat (map (\<lambda>w. rev (root_puts w)) ws)) k")
    case None
    with get have "bk_Get E (attestationDataRoots d) k = Some r"
      by (simp add: Get_roots_saved[OF assms(1)] map_add_def)
    then show ?thesis by (rule store_okD[OF assms(5)]) (auto simp: has_record_def)
  next
    case (Some r')
    with get have "map_of (concat (map (\<lambda>w. rev (root_puts w)) ws)) k = Some r"
      by (simp add: Get_roots_saved[OF assms(1)])
    then have "(k, r) \<in> set (concat (map (\<lambda>w. rev (root_puts w)) ws))" by (rule map_of_SomeD)
    then show ?thesis using assms(3) by (auto simp: root_puts_def)
  qed
  then obtain w v where "k = validatorEpochKey (w_target w) v" "r = root_bytes (w_DataRoot w)"
    and "w \<in> set ws \<or> has_record E d (root_bytes (w_DataRoot w)) w" "rooted R Ds w" by blast
  with has_record_saved[OF assms(1-4) this(3,4)]
  show "\<exists>w v. k = validatorEpochKey (w_target w) v \<and>
      has_record E (fold (with_record E) (rev ws) d) r w \<and> rooted R Ds w" by metis
qed

section \<open>Pruning\<close>

lemma takeWhile_sorted:
  assumes "sorted_wrt Q xs" and "\<And>x y. Q x y \<Longrightarrow> P y \<Longrightarrow> P x"
  shows "takeWhile P xs = filter P xs"
  using assms(1)
proof (induction xs)
  case (Cons x xs)
  then show ?case
  proof (cases "P x")
    case False
    with Cons.prems assms(2) have "filter P xs = []" by (auto simp: filter_empty_conv)
    with False show ?thesis by simp
  qed simp
qed simp

definition below :: "epoch \<Rightarrow> bytes \<times> bytes \<Rightarrow> bool" where
  "below e = (\<lambda>(k, _). \<not> put_be 8 e < take 8 k)"

lemma Get_fold_Delete:
  "bolt_ok E \<Longrightarrow> bk_Get E (fold (bk_Delete E) ks b) = (\<lambda>k. if k \<in> set ks then None else bk_Get E b k)"
  by (induction ks arbitrary: b) (auto simp: bolt_okD(2) fun_eq_iff)

definition pruned ::
  "('b, 'z) kv_env_scheme \<Rightarrow> (bytes \<times> bytes) list \<Rightarrow> 'b slasher_store \<Rightarrow> 'b slasher_store" where
  "pruned E es d =
     d\<lparr>attestationDataRoots := fold (bk_Delete E) (map fst es) (attestationDataRoots d),
       attestationRecords := fold (bk_Delete E) (map snd es) (attestationRecords d)\<rparr>"

lemma prune_attestations_eq:
  assumes "\<And>i. \<not> ctx_expired E i" and "\<forall>(k, v) \<in> set es. 8 \<le> length k"
  shows "prune_attestations E (put_be 8 e) i n es d =
    (Ok (n + length (takeWhile (below e) es)), pruned E (takeWhile (below e) es) d)"
  using assms(2)
  by (induction es arbitrary: i n d)
    (auto simp: proc_simps assms(1) uint64PrefixGreaterThan_def below_def pruned_def)

lemma put_be_get_be: "length bs = 8 \<Longrightarrow> put_be 8 (get_be bs) = bs"
  by (simp add: put_be_def get_be_def put_le_get_le)

lemma Prune_eq:
  fixes E :: "('b, 'z) kv_env_scheme" and e :: epoch
  assumes "bolt_ok E" and "\<And>i. \<not> ctx_expired E i"
    and keys: "\<And>k r. bk_Get E (attestationDataRoots d) k = Some r \<Longrightarrow> 8 \<le> length k"
  defines "dropped \<equiv> filter (below e) (bk_Cursor E (attestationDataRoots d))"
  shows "PruneAttestationsAtEpoch E e d = (Ok (length dropped), pruned E dropped d)"
proof -
  let ?es = "bk_Cursor E (attestationDataRoots d)"
  have len: "\<forall>(k, v) \<in> set ?es. 8 \<le> length k"
    using keys bolt_okD(4)[OF assms(1)] distinct_cursor[OF assms(1)] by (auto simp flip: map_of_eq_Some_iff)
  have tw: "takeWhile (below e) ?es = dropped"
    unfolding dropped_def
  proof (rule takeWhile_sorted[OF bolt_okD(3)[OF assms(1)]])
    fix x y :: "bytes \<times> bytes" assume "fst x < fst y" and "below e y"
    then show "below e x"
      using take_mono_bytes[of "fst x" "fst y" 8] by (auto simp: below_def case_prod_beta)
  qed
  have prune: "prune_attestations E (put_be 8 e) 0 0 ?es d = (Ok (length dropped), pruned E dropped d)"
    using prune_attestations_eq[OF assms(2) len] tw by simp
  show ?thesis
  proof (cases ?es)
    case Nil
    then show ?thesis by (simp add: PruneAttestationsAtEpoch_def proc_simps dropped_def pruned_def)
  next
    case (Cons kv es)
    obtain k v where kv: "kv = (k, v)" by force
    have k8: "8 \<le> length k" using len Cons kv by auto
    have low: "e < get_be (take 8 k) \<longleftrightarrow> \<not> below e (k, v)"
      using k8 put_be_less_iff[of e "get_be (take 8 k)"] by (simp add: put_be_get_be below_def)
    show ?thesis
    proof (cases "below e (k, v)")
      case True
      then show ?thesis
        using Cons kv k8 low prune by (simp add: PruneAttestationsAtEpoch_def proc_simps tx_def)
    next
      case False
      then have "dropped = []" using tw Cons kv by auto
      with False show ?thesis
        using Cons kv k8 low by (simp add: PruneAttestationsAtEpoch_def proc_simps pruned_def)
    qed
  qed
qed

lemma Get_roots_pruned:
  assumes "bolt_ok E"
  shows "bk_Get E (attestationDataRoots (pruned E (filter (below e) (bk_Cursor E (attestationDataRoots d))) d)) k =
    (if put_be 8 e < take 8 k then bk_Get E (attestationDataRoots d) k else None)"
proof -
  have "k \<in> fst ` set (bk_Cursor E (attestationDataRoots d)) \<longleftrightarrow> bk_Get E (attestationDataRoots d) k \<noteq> None"
    using bolt_okD(4)[OF assms] by (metis map_of_eq_None_iff)
  then show ?thesis
    by (force simp: pruned_def Get_fold_Delete[OF assms] below_def image_iff)
qed

lemma Get_records_pruned:
  assumes "bolt_ok E" and "store_ok E R Ds d" and "has_record E d r w" and "e < w_target w"
  shows "has_record E (pruned E (filter (below e) (bk_Cursor E (attestationDataRoots d))) d) r w"
proof -
  let ?es = "bk_Cursor E (attestationDataRoots d)"
  have "r \<notin> snd ` set (filter (below e) ?es)"
  proof
    assume "r \<in> snd ` set (filter (below e) ?es)"
    then obtain k where "(k, r) \<in> set ?es" and low: "\<not> put_be 8 e < take 8 k"
      by (auto simp: below_def)
    then have "bk_Get E (attestationDataRoots d) k = Some r"
      using bolt_okD(4)[OF assms(1)] distinct_cursor[OF assms(1)] by (metis map_of_eq_Some_iff)
    then obtain w' v where "k = validatorEpochKey (w_target w') v" "has_record E d r w'"
      by (rule store_okD[OF assms(2)])
    with has_record_unique[OF assms(3)] have "k = validatorEpochKey (w_target w) v" by blast
    with low assms(4) show False by (simp add: put_be_less_iff)
  qed
  then have "r \<notin> set (map snd (filter (below e) ?es))" unfolding set_map .
  then have "bk_Get E (attestationRecords (pruned E (filter (below e) ?es) d)) r = bk_Get E (attestationRecords d) r"
    by (simp add: pruned_def Get_fold_Delete[OF assms(1)] del: set_map set_filter)
  with assms(3) show ?thesis unfolding has_record_def by auto
qed

lemma store_ok_pruned:
  assumes "bolt_ok E" and "store_ok E R Ds d"
  shows "store_ok E R Ds (pruned E (filter (below e) (bk_Cursor E (attestationDataRoots d))) d)"
  unfolding store_ok_def
proof (intro allI impI)
  fix k r
  assume "bk_Get E (attestationDataRoots (pruned E (filter (below e) (bk_Cursor E (attestationDataRoots d))) d)) k = Some r"
  then have high: "put_be 8 e < take 8 k" and get: "bk_Get E (attestationDataRoots d) k = Some r"
    by (auto simp: Get_roots_pruned[OF assms(1)] split: if_splits)
  from get obtain w v where w: "k = validatorEpochKey (w_target w) v" "has_record E d r w" "rooted R Ds w"
    by (rule store_okD[OF assms(2)])
  with high have "e < w_target w" by (simp add: put_be_less_iff)
  with w Get_records_pruned[OF assms w(2)]
  show "\<exists>w v. k = validatorEpochKey (w_target w) v \<and>
      has_record E (pruned E (filter (below e) (bk_Cursor E (attestationDataRoots d))) d) r w \<and> rooted R Ds w"
    by blast
qed

lemma AttestationRecord_has_record:
  assumes "store_ok E R Ds d"
  shows "AttestationRecordForValidator E d v t = Ok (Some w) \<longleftrightarrow>
      (\<exists>r. bk_Get E (attestationDataRoots d) (validatorEpochKey t v) = Some r \<and> has_record E d r w)" (is "?A \<longleftrightarrow> ?B")
    and "AttestationRecordForValidator E d v t = Ok None \<longleftrightarrow>
      bk_Get E (attestationDataRoots d) (validatorEpochKey t v) = None" (is "?C \<longleftrightarrow> ?D")
proof -
  have "(?A \<longleftrightarrow> ?B) \<and> (?C \<longleftrightarrow> ?D)"
  proof (cases "bk_Get E (attestationDataRoots d) (validatorEpochKey t v)")
    case (Some r)
    then obtain w' v' where "has_record E d r w'" by (rule store_okD[OF assms])
    with Some show ?thesis by (auto simp: AttestationRecordForValidator_def has_record_def)
  qed (simp add: AttestationRecordForValidator_def)
  then show "?A \<longleftrightarrow> ?B" "?C \<longleftrightarrow> ?D" by simp_all
qed

lemma AttestationRecord_pruned:
  assumes "bolt_ok E" and "store_ok E R Ds d"
  shows "AttestationRecordForValidator E (pruned E (filter (below e) (bk_Cursor E (attestationDataRoots d))) d) v t =
    (if t \<le> e then Ok None else AttestationRecordForValidator E d v t)"
proof (cases "bk_Get E (attestationDataRoots d) (validatorEpochKey t v)")
  case None
  then show ?thesis
    by (simp add: AttestationRecordForValidator_def Get_roots_pruned[OF assms(1)])
next
  case (Some r)
  then obtain w v' where w: "validatorEpochKey t v = validatorEpochKey (w_target w) v'" "has_record E d r w"
    by (rule store_okD[OF assms(2)])
  then have "put_be 8 t = put_be 8 (w_target w)" by (metis take_validatorEpochKey)
  then have t: "t = w_target w" by (simp add: put_be_inj)
  show ?thesis
  proof (cases "t \<le> e")
    case False
    then have "has_record E (pruned E (filter (below e) (bk_Cursor E (attestationDataRoots d))) d) r w"
      using t by (intro Get_records_pruned[OF assms w(2)]) simp
    with False Some w(2) show ?thesis
      by (auto simp: AttestationRecordForValidator_def Get_roots_pruned[OF assms(1)] put_be_less_iff has_record_def)
  next
    case True
    then have "\<not> e < t" by simp
    with True show ?thesis
      by (simp add: AttestationRecordForValidator_def Get_roots_pruned[OF assms(1)] put_be_less_iff)
  qed
qed

lemma cursor_below:
  assumes "bolt_ok E" and "\<And>k r. bk_Get E b k = Some r \<Longrightarrow> 8 \<le> length k"
  shows "set (map fst (filter (below e) (bk_Cursor E b))) = {k. bk_Get E b k \<noteq> None \<and> get_be (take 8 k) \<le> e}"
proof -
  have mem: "(k, r) \<in> set (bk_Cursor E b) \<longleftrightarrow> bk_Get E b k = Some r" for k r
    using bolt_okD(4)[OF assms(1)] distinct_cursor[OF assms(1)] by (metis map_of_eq_Some_iff)
  have "\<not> put_be 8 e < take 8 k \<longleftrightarrow> get_be (take 8 k) \<le> e" if "bk_Get E b k = Some r" for k r
    using assms(2)[OF that] put_be_less_iff[of e "get_be (take 8 k)"] by (auto simp: put_be_get_be)
  then show ?thesis by (force simp: below_def mem)
qed

section \<open>Double votes\<close>

definition double_vote ::
  "('b, 'z) kv_env_scheme \<Rightarrow> 'b slasher_store \<Rightarrow> indexed_attestation_wrapper list \<Rightarrow> nat \<Rightarrow> validator_index \<Rightarrow>
   double_vote_ref option" where
  "double_vote E d atts j v =
     (case AttestationRecordForValidator E d v (w_target (atts ! j)) of
        Ok (Some w) \<Rightarrow>
          if w_DataRoot w = w_DataRoot (atts ! j) then None
          else Some \<lparr>dvr_Target = w_target (atts ! j), dvr_ValidatorIndex = v, dvr_Wrapper_1 = w, dvr_Wrapper_2 = j\<rparr>
      | _ \<Rightarrow> None)"

lemma double_vote_Some_iff:
  "double_vote E d atts j v = Some dv \<longleftrightarrow>
     (\<exists>w. AttestationRecordForValidator E d v (w_target (atts ! j)) = Ok (Some w) \<and>
        w_DataRoot w \<noteq> w_DataRoot (atts ! j) \<and>
        dv = \<lparr>dvr_Target = w_target (atts ! j), dvr_ValidatorIndex = v, dvr_Wrapper_1 = w, dvr_Wrapper_2 = j\<rparr>)"
  by (auto simp: double_vote_def split: outcome.splits option.splits if_splits)

definition opt_list :: "'a option \<Rightarrow> 'a list" where
  "opt_list x = (case x of None \<Rightarrow> [] | Some y \<Rightarrow> [y])"

lemma set_opt_list: "y \<in> set (opt_list x) \<longleftrightarrow> x = Some y"
  by (auto simp: opt_list_def split: option.splits)

lemma ofold_collect:
  assumes "\<And>x acc. x \<in> set xs \<Longrightarrow> f x acc = Ok (acc @ g x)"
  shows "ofold f xs acc = Ok (acc @ concat (map g xs))"
  using assms by (induction xs arbitrary: acc) simp_all

lemma local_double_votes_eq:
  assumes "store_ok E R Ds d" and "storable E (atts ! j)"
  shows "local_double_votes E d atts j =
    Ok (concat (map (\<lambda>v. opt_list (double_vote E d atts j v)) (w_indices (atts ! j))))"
  unfolding local_double_votes_def storableD(1,2)[OF assms(2)] obind.simps
proof (subst ofold_collect[where g = "\<lambda>v. opt_list (double_vote E d atts j v)"])
  fix v acc
  show "(case bk_Get E (attestationDataRoots d) (validatorEpochKey (w_target (atts ! j)) v) of
        None \<Rightarrow> Ok acc
      | Some attRecordsKey \<Rightarrow>
          if length attRecordsKey < attestationRecordKeySize then Ok acc
          else (case bk_Get E (attestationRecords d) attRecordsKey of
              None \<Rightarrow> Ok acc
            | Some enc \<Rightarrow>
                if array32 (ToBytes32 (take rootSize attRecordsKey)) = w_DataRoot (atts ! j) then Ok acc
                else obind (decodeAttestationRecord E enc) (\<lambda>existing.
                  Ok (acc @ [\<lparr>dvr_Target = w_target (atts ! j), dvr_ValidatorIndex = v,
                    dvr_Wrapper_1 = existing, dvr_Wrapper_2 = j\<rparr>])))) =
    Ok (acc @ opt_list (double_vote E d atts j v))"
  proof (cases "bk_Get E (attestationDataRoots d) (validatorEpochKey (w_target (atts ! j)) v)")
    case (Some r)
    then obtain w v' where "has_record E d r w" by (rule store_okD[OF assms(1)])
    with Some show ?thesis
      by (auto simp: has_record_def double_vote_def AttestationRecordForValidator_def opt_list_def
          attestationRecordKeySize_def rootSize_def ToBytes32_id)
  qed (simp add: double_vote_def AttestationRecordForValidator_def opt_list_def)
qed simp

section \<open>A concrete database\<close>

text \<open>Buckets as association lists, and two attestations with the same data by different validators.\<close>

definition kv_data :: "u8 \<Rightarrow> attestation_data" where
  "kv_data r =
     \<lparr>d_Slot = 160, d_CommitteeIndex = 0, d_BeaconBlockRoot = [r],
      d_Source = Some \<lparr>c_Epoch = 4, c_Root = []\<rparr>, d_Target = Some \<lparr>c_Epoch = 5, c_Root = []\<rparr>\<rparr>"

definition kv_root :: "attestation_data \<Rightarrow> root" where
  "kv_root D = ucast (hd (d_BeaconBlockRoot D))"

definition kv_indexed :: "validator_index \<Rightarrow> u8 \<Rightarrow> indexed_att" where
  "kv_indexed v r = IndexedAttestation \<lparr>AttestingIndices = [v], Data = Some (kv_data r), Signature = []\<rparr>"

definition kv_att :: "validator_index \<Rightarrow> u8 \<Rightarrow> indexed_attestation_wrapper" where
  "kv_att v r = \<lparr>w_IndexedAttestation = Some (kv_indexed v r), w_DataRoot = ucast r\<rparr>"

definition empty_store :: "(bytes \<times> bytes) list slasher_store" where
  "empty_store = \<lparr>attestedEpochsByValidator = [], attestationRecords = [], attestationDataRoots = [],
     proposalRecords = [], slasherChunks = []\<rparr>"

definition example_kv :: "indexed_att list \<Rightarrow> (bytes \<times> bytes) list kv_env" where
  "example_kv atts =
     \<lparr>bk_Get = map_of,
      bk_Put = (\<lambda>k v b. if accepted k v then Some (AList.update k v b) else None),
      bk_Delete = AList.delete,
      bk_Cursor = (\<lambda>b. sort_key fst (AList.clearjunk b)),
      bk_Prev = (\<lambda>bs. case bs of [] \<Rightarrow> None
         | b # later \<Rightarrow>
             let es = rev (sort_key fst (AList.clearjunk b))
             in if length later < length es then Some (es ! length later) else None),
      snappy_Encode = id, snappy_Decode = Ok,
      att_MarshalSSZ = (\<lambda>a. case find (\<lambda>i. atts ! i = a) [0 ..< length atts] of
         None \<Rightarrow> Fail DecodeError | Some i \<Rightarrow> Ok (replicate i 0)),
      att_UnmarshalSSZ = (\<lambda>_ bs. if length bs < length atts then Ok (atts ! length bs) else Fail DecodeError),
      hdr_MarshalSSZ = (\<lambda>_. Fail DecodeError), hdr_UnmarshalSSZ = (\<lambda>_. Fail DecodeError),
      ssz_MarshalUint8 = (\<lambda>k. [k]),
      ssz_MarshalUint16 = (\<lambda>x. put_le 2 (ucast x)), ssz_UnmarshallUint16 = get_le,
      ssz_MarshalUint64 = put_le 8, ssz_UnmarshallUint64 = get_le,
      kv_config = mainnetBeaconConfig, ctx_expired = (\<lambda>_. False), eg_order = (\<lambda>n. [0 ..< n])\<rparr>"

lemma example_bolt_ok: "bolt_ok (example_kv atts)"
proof -
  have "sorted_wrt (\<lambda>x y. fst x < fst y) (sort_key fst (AList.clearjunk b))" for b :: "(bytes \<times> bytes) list"
  proof -
    have "sorted_wrt (<) (map fst (sort_key fst (AList.clearjunk b)))"
      using distinct_clearjunk[of b] by (simp add: strict_sorted_iff distinct_map)
    then show ?thesis by (simp add: sorted_wrt_map)
  qed
  moreover have "map_of (sort_key fst (AList.clearjunk b)) = map_of b" for b :: "(bytes \<times> bytes) list"
  proof -
    have "map_of (sort_key fst (AList.clearjunk b)) = map_of (AList.clearjunk b)"
      using distinct_clearjunk[of b] by (subst map_of_inject_set) (simp_all add: distinct_map)
    then show ?thesis by (simp add: map_of_clearjunk)
  qed
  ultimately show ?thesis by (simp add: bolt_ok_def example_kv_def update_conv' delete_conv')
qed

lemma get_le_put_le_u16: "get_le (put_le 2 (ucast (x :: u16))) = x"
proof (rule bit_word_eqI)
  fix n assume n: "n < LENGTH(16)"
  then have "n div 8 < 2" by simp
  then show "bit (get_le (put_le 2 (ucast x)) :: u16) n \<longleftrightarrow> bit x n"
    using n by (simp add: bit_get_le bit_put_le bit_simps)
qed

lemma example_codec_ok: "codec_ok (example_kv atts)"
proof -
  have "att_UnmarshalSSZ (example_kv atts) (att_Version a) bs = Ok a"
    if "att_MarshalSSZ (example_kv atts) a = Ok bs" for a bs
    using that by (auto simp: example_kv_def find_Some_iff split: option.splits)
  then show ?thesis
    by (simp add: codec_ok_def, simp add: example_kv_def get_le_put_le_u16 get_le_put_le inj_def)
qed

lemma kv_att_simps [simp]:
  "w_target (kv_att v r) = 5" "w_indices (kv_att v r) = [v]" "w_DataRoot (kv_att v r) = ucast r"
  by (simp_all add: kv_att_def w_target_def w_indices_def target_of_def indices_of_def w_data_def
      kv_indexed_def kv_data_def)

lemma rooted_kv_att: "r \<in> Rs \<Longrightarrow> rooted kv_root (kv_data ` Rs) (kv_att v r)"
  by (auto simp: rooted_def kv_att_def w_data_def kv_indexed_def kv_root_def kv_data_def)

lemma ucast_u8_inj: "(ucast (a :: u8) :: root) = ucast b \<longleftrightarrow> a = b"
proof
  assume eq: "(ucast a :: root) = ucast b"
  have "bit a n \<longleftrightarrow> bit b n" if "n < LENGTH(8)" for n
    using arg_cong[OF eq, of "\<lambda>x. bit x n"] that by (simp add: bit_simps)
  then show "a = b" by (intro bit_word_eqI) blast
qed simp

lemma inj_kv_root: "inj_on kv_root (kv_data ` Rs)"
  by (auto simp: inj_on_def kv_root_def kv_data_def ucast_u8_inj)

lemma store_ok_empty: "store_ok (example_kv atts) R Ds empty_store"
  by (simp add: store_ok_def example_kv_def empty_store_def)

lemma storable_kv_att:
  assumes "kv_indexed v r \<in> set atts" and "length atts \<le> 256"
  shows "storable (example_kv atts) (kv_att v r)"
proof -
  from assms(1) obtain i where "find (\<lambda>i. atts ! i = kv_indexed v r) [0 ..< length atts] = Some i"
    by (cases "find (\<lambda>i. atts ! i = kv_indexed v r) [0 ..< length atts]")
      (auto simp: find_None_iff in_set_conv_nth)
  moreover from this have "i < length atts" by (auto simp: find_Some_iff)
  ultimately have "\<exists>enc. encodeAttestationRecord (example_kv atts) (Some (kv_att v r)) = Ok enc \<and>
      length enc \<le> 2147483646"
    using assms(2)
    by (simp add: encodeAttestationRecord_def kv_att_def att_IsNil_def kv_indexed_def example_kv_def
        Electra_not_le_Phase0)
  moreover have "votes (kv_att v r) 4 5"
    by (simp add: votes_def source_of_def target_of_def w_data_def kv_att_def kv_indexed_def kv_data_def)
  moreover have "hd (root_bytes (ucast r)) = 0"
    by (rule bit_word_eqI) (auto simp: root_bytes_def hd_rev last_map bit_simps dest: bit_imp_le_length)
  then have "unambiguous (kv_att v r)"
    by (auto simp: unambiguous_def kv_att_def ElectraKey_def dest: arg_cong[where f = hd])
  ultimately show ?thesis by (auto simp: storable_def)
qed

section \<open>Properties\<close>

text \<open>C20: Saving a batch of attestations succeeds, keeps the invariant of the attestation buckets, and for a
  validator and a target epoch that occur in the batch the database then returns a record with the data
  root of the first such attestation: the first attestation of the batch with that data root. Records
  are shared by data root, so this attestation need not be by the validator.\<close>

theorem attestation_records_saved:
  assumes "bolt_ok E" and "codec_ok E" and "inj_on R Ds" and "store_ok E R Ds d"
    and "\<And>w. w \<in> set ws \<Longrightarrow> storable E w \<and> rooted R Ds w"
    and "\<And>w v. w \<in> set ws \<Longrightarrow> v \<in> set (w_indices w) \<Longrightarrow> v < 2 ^ 40"
  shows "\<exists>d'. SaveAttestationRecordsForValidators E ws d = (Ok (), d') \<and> store_ok E R Ds d' \<and>
    (\<forall>v t w. v < 2 ^ 40 \<and> find (\<lambda>w. w_target w = t \<and> v \<in> set (w_indices w)) ws = Some w \<longrightarrow>
       (\<exists>w'. find (\<lambda>x. w_DataRoot x = w_DataRoot w) ws = Some w' \<and>
         AttestationRecordForValidator E d' v t = Ok (Some w')))"
  using Save_eq[OF assms(1)] store_ok_saved[OF assms(1,2,5,3,4)] AttestationRecord_saved[OF assms(1,2)] assms(5,6)
  by simp

theorem attestation_records_saved_witness:
  "\<exists>d'. SaveAttestationRecordsForValidators (example_kv [kv_indexed 1 7, kv_indexed 2 7])
      [kv_att 1 7, kv_att 2 7] empty_store = (Ok (), d') \<and>
    AttestationRecordForValidator (example_kv [kv_indexed 1 7, kv_indexed 2 7]) d' 2 5 = Ok (Some (kv_att 1 7))"
proof -
  let ?atts = "[kv_indexed 1 7, kv_indexed 2 7]" and ?ws = "[kv_att 1 7, kv_att 2 7]"
  have "\<exists>d'. SaveAttestationRecordsForValidators (example_kv ?atts) ?ws empty_store = (Ok (), d') \<and>
      store_ok (example_kv ?atts) kv_root (kv_data ` {7}) d' \<and>
      (\<forall>v t w. v < 2 ^ 40 \<and> find (\<lambda>w. w_target w = t \<and> v \<in> set (w_indices w)) ?ws = Some w \<longrightarrow>
       (\<exists>w'. find (\<lambda>x. w_DataRoot x = w_DataRoot w) ?ws = Some w' \<and>
         AttestationRecordForValidator (example_kv ?atts) d' v t = Ok (Some w')))"
    by (rule attestation_records_saved[OF example_bolt_ok example_codec_ok inj_kv_root store_ok_empty])
      (use rooted_kv_att[of 7 "{7}"] in \<open>auto simp: storable_kv_att\<close>)
  then obtain d' where "SaveAttestationRecordsForValidators (example_kv ?atts) ?ws empty_store = (Ok (), d')"
    and *: "\<And>v t w. v < 2 ^ 40 \<and> find (\<lambda>w. w_target w = t \<and> v \<in> set (w_indices w)) ?ws = Some w \<Longrightarrow>
       (\<exists>w'. find (\<lambda>x. w_DataRoot x = w_DataRoot w) ?ws = Some w' \<and>
         AttestationRecordForValidator (example_kv ?atts) d' v t = Ok (Some w'))" by blast
  moreover have "AttestationRecordForValidator (example_kv ?atts) d' 2 5 = Ok (Some (kv_att 1 7))"
    using *[of 2 5 "kv_att 2 7"] by simp
  ultimately show ?thesis by blast
qed

text \<open>C21: Double votes are reported exactly. The check of a batch against the database succeeds, and it reports
  a validator of an attestation if and only if the database has a record for the validator and the target
  epoch whose data root is a different one.\<close>

theorem double_votes_reported:
  assumes "store_ok E R Ds d" and "\<And>w. w \<in> set atts \<Longrightarrow> storable E w"
    and "set (eg_order E (length atts)) = {..< length atts}"
  shows "\<exists>dvs. CheckAttesterDoubleVotes E d atts = Ok dvs \<and>
    (\<forall>dv. dv \<in> set dvs \<longleftrightarrow> (\<exists>j v w. j < length atts \<and> v \<in> set (w_indices (atts ! j)) \<and>
       AttestationRecordForValidator E d v (w_target (atts ! j)) = Ok (Some w) \<and>
       w_DataRoot w \<noteq> w_DataRoot (atts ! j) \<and>
       dv = \<lparr>dvr_Target = w_target (atts ! j), dvr_ValidatorIndex = v, dvr_Wrapper_1 = w, dvr_Wrapper_2 = j\<rparr>))"
proof (intro exI conjI allI)
  let ?local = "\<lambda>j. concat (map (\<lambda>v. opt_list (double_vote E d atts j v)) (w_indices (atts ! j)))"
  show "CheckAttesterDoubleVotes E d atts = Ok (concat (map ?local (eg_order E (length atts))))"
    unfolding CheckAttesterDoubleVotes_def
    by (subst ofold_collect[where g = ?local])
      (use assms(3) local_double_votes_eq[OF assms(1)] assms(2) in auto)
  show "dv \<in> set (concat (map ?local (eg_order E (length atts)))) \<longleftrightarrow>
      (\<exists>j v w. j < length atts \<and> v \<in> set (w_indices (atts ! j)) \<and>
       AttestationRecordForValidator E d v (w_target (atts ! j)) = Ok (Some w) \<and>
       w_DataRoot w \<noteq> w_DataRoot (atts ! j) \<and>
       dv = \<lparr>dvr_Target = w_target (atts ! j), dvr_ValidatorIndex = v, dvr_Wrapper_1 = w, dvr_Wrapper_2 = j\<rparr>)" for dv
    by (simp add: assms(3) set_opt_list Bex_def double_vote_Some_iff)
qed

theorem double_votes_witness:
  "\<exists>d dvs. SaveAttestationRecordsForValidators (example_kv [kv_indexed 1 7, kv_indexed 1 9]) [kv_att 1 7] empty_store =
      (Ok (), d) \<and>
    CheckAttesterDoubleVotes (example_kv [kv_indexed 1 7, kv_indexed 1 9]) d [kv_att 1 7, kv_att 1 9] = Ok dvs \<and>
    \<lparr>dvr_Target = 5, dvr_ValidatorIndex = 1, dvr_Wrapper_1 = kv_att 1 7, dvr_Wrapper_2 = 1\<rparr> \<in> set dvs"
proof -
  let ?E = "example_kv [kv_indexed 1 7, kv_indexed 1 9]" and ?Ds = "kv_data ` {7, 9}"
  let ?atts = "[kv_att 1 7, kv_att 1 9]"
  define d where "d = fold (with_record ?E) (rev [kv_att 1 7]) empty_store"
  have st: "storable ?E w \<and> rooted kv_root ?Ds w" if "w \<in> set ?atts" for w
    using that rooted_kv_att[of 7 "{7, 9}"] rooted_kv_att[of 9 "{7, 9}"] by (auto simp: storable_kv_att)
  have save: "SaveAttestationRecordsForValidators ?E [kv_att 1 7] empty_store = (Ok (), d)"
    unfolding d_def by (rule Save_eq[OF example_bolt_ok]) (use st in auto)
  have ok: "store_ok ?E kv_root ?Ds d"
    unfolding d_def
    by (rule store_ok_saved[OF example_bolt_ok example_codec_ok _ inj_kv_root store_ok_empty]) (use st in auto)
  have "\<exists>w'. find (\<lambda>x. w_DataRoot x = w_DataRoot (kv_att 1 7)) [kv_att 1 7] = Some w' \<and>
      AttestationRecordForValidator ?E d 1 5 = Ok (Some w')"
    unfolding d_def by (rule AttestationRecord_saved[OF example_bolt_ok example_codec_ok]) (use st in auto)
  then have rec: "AttestationRecordForValidator ?E d 1 5 = Ok (Some (kv_att 1 7))" by simp
  have "set (eg_order ?E (length ?atts)) = {..< length ?atts}" by (auto simp: example_kv_def)
  then obtain dvs where "CheckAttesterDoubleVotes ?E d ?atts = Ok dvs"
    and dvs: "\<And>dv. dv \<in> set dvs \<longleftrightarrow> (\<exists>j v w. j < length ?atts \<and> v \<in> set (w_indices (?atts ! j)) \<and>
       AttestationRecordForValidator ?E d v (w_target (?atts ! j)) = Ok (Some w) \<and>
       w_DataRoot w \<noteq> w_DataRoot (?atts ! j) \<and>
       dv = \<lparr>dvr_Target = w_target (?atts ! j), dvr_ValidatorIndex = v, dvr_Wrapper_1 = w, dvr_Wrapper_2 = j\<rparr>)"
    using double_votes_reported[OF ok, of ?atts] st by (metis (no_types, lifting))
  moreover have "\<lparr>dvr_Target = 5, dvr_ValidatorIndex = 1, dvr_Wrapper_1 = kv_att 1 7, dvr_Wrapper_2 = 1\<rparr> \<in> set dvs"
    unfolding dvs by (intro exI[of _ 1] exI[of _ "kv_att 1 7"] conjI) (simp_all add: rec ucast_u8_inj)
  ultimately show ?thesis using save by blast
qed

text \<open>C22: Pruning is exact. Unless its context expires, pruning at an epoch removes every record with a target up
  to that epoch, keeps all others and the invariant, and returns the number of entries it has
  removed. The walk is over the entries the bucket had when it began: it deletes only behind its cursor.\<close>

theorem PruneAttestations_exact:
  assumes "bolt_ok E" and "store_ok E R Ds d" and "\<And>i. \<not> ctx_expired E i"
  shows "\<exists>n d'. PruneAttestationsAtEpoch E e d = (Ok n, d') \<and> store_ok E R Ds d' \<and>
    n = card {k. bk_Get E (attestationDataRoots d) k \<noteq> None \<and> get_be (take 8 k) \<le> e} \<and>
    (\<forall>v t. AttestationRecordForValidator E d' v t =
       (if t \<le> e then Ok None else AttestationRecordForValidator E d v t))"
proof -
  let ?es = "bk_Cursor E (attestationDataRoots d)"
  have len: "8 \<le> length k" if "bk_Get E (attestationDataRoots d) k = Some r" for k r
    using that by (rule store_okD[OF assms(2)]) simp
  have "length (filter (below e) ?es) = card (set (map fst (filter (below e) ?es)))"
    using distinct_cursor[OF assms(1)] by (subst distinct_card) (simp_all add: distinct_map_filter)
  also have "set (map fst (filter (below e) ?es)) =
      {k. bk_Get E (attestationDataRoots d) k \<noteq> None \<and> get_be (take 8 k) \<le> e}"
    by (rule cursor_below[OF assms(1)]) (use len in blast)
  finally have count: "length (filter (below e) ?es) =
      card {k. bk_Get E (attestationDataRoots d) k \<noteq> None \<and> get_be (take 8 k) \<le> e}" .
  show ?thesis
  proof (intro exI conjI allI)
    show "PruneAttestationsAtEpoch E e d = (Ok (length (filter (below e) ?es)), pruned E (filter (below e) ?es) d)"
      by (rule Prune_eq[OF assms(1,3)]) (use len in blast)
  qed (rule store_ok_pruned[OF assms(1,2)] count AttestationRecord_pruned[OF assms(1,2)])+
qed

theorem PruneAttestations_witness:
  "\<exists>d n d'. SaveAttestationRecordsForValidators (example_kv [kv_indexed 1 7]) [kv_att 1 7] empty_store = (Ok (), d) \<and>
    AttestationRecordForValidator (example_kv [kv_indexed 1 7]) d 1 5 = Ok (Some (kv_att 1 7)) \<and>
    PruneAttestationsAtEpoch (example_kv [kv_indexed 1 7]) 5 d = (Ok n, d') \<and>
    AttestationRecordForValidator (example_kv [kv_indexed 1 7]) d' 1 5 = Ok None"
proof -
  let ?E = "example_kv [kv_indexed 1 7]" and ?Ds = "kv_data ` {7}"
  define d where "d = fold (with_record ?E) (rev [kv_att 1 7]) empty_store"
  have st: "storable ?E w \<and> rooted kv_root ?Ds w" if "w \<in> set [kv_att 1 7]" for w
    using that rooted_kv_att[of 7 "{7}"] by (auto simp: storable_kv_att)
  have save: "SaveAttestationRecordsForValidators ?E [kv_att 1 7] empty_store = (Ok (), d)"
    unfolding d_def by (rule Save_eq[OF example_bolt_ok]) (use st in blast)
  have ok: "store_ok ?E kv_root ?Ds d"
    unfolding d_def by (rule store_ok_saved[OF example_bolt_ok example_codec_ok st inj_kv_root store_ok_empty])
  have "\<exists>w'. find (\<lambda>x. w_DataRoot x = w_DataRoot (kv_att 1 7)) [kv_att 1 7] = Some w' \<and>
      AttestationRecordForValidator ?E d 1 5 = Ok (Some w')"
    unfolding d_def by (rule AttestationRecord_saved[OF example_bolt_ok example_codec_ok]) (use st in auto)
  moreover have "\<not> ctx_expired ?E i" for i by (simp add: example_kv_def)
  note PruneAttestations_exact[OF example_bolt_ok ok this, of 5]
  ultimately show ?thesis using save by auto
qed

end
