(* ===== verification/Slasher_Spans.thy ===== *)
theory Slasher_Spans
  imports Slasher_Chunks
begin

text \<open>
  What the spans of a validator mean. For a list \<open>A\<close> of attestations (source, target), the min span of
  epoch \<open>e\<close> stands for the least target of an attestation whose source is after \<open>e\<close>, the max span for
  the greatest target of one whose source is before \<open>e\<close>. Both are instances of one locale: an order
  \<open>better\<close> on targets, a neutral target for every epoch, the epochs an attestation covers, and the
  order in which an update visits them. The locale shows that stopping an update at the first cell it
  does not improve loses nothing, and that a cell tells exactly whether an attestation is in conflict
  with an earlier one. The second half shows that the update loops of the chunks are such walks.
\<close>

section \<open>Spans as a specification\<close>

definition span_best ::
  "(nat \<Rightarrow> nat \<Rightarrow> bool) \<Rightarrow> (nat \<Rightarrow> nat) \<Rightarrow> (nat \<Rightarrow> nat \<Rightarrow> bool) \<Rightarrow> (nat \<times> nat) list \<Rightarrow> nat \<Rightarrow> nat" where
  "span_best better neutral covers A e =
     foldr (\<lambda>(s, t) b. if covers s e \<and> better t b then t else b) A (neutral e)"

primrec span_walk ::
  "(nat \<Rightarrow> nat \<Rightarrow> bool) \<Rightarrow> nat \<Rightarrow> nat list \<Rightarrow> (nat \<Rightarrow> nat) \<Rightarrow> bool \<times> (nat \<Rightarrow> nat)" where
  "span_walk better t [] f = (True, f)"
| "span_walk better t (e # es) f =
     (if better t (f e) then span_walk better t es (f(e := t)) else (False, f))"

definition min_target :: "(nat \<times> nat) list \<Rightarrow> nat \<Rightarrow> nat" where
  "min_target = span_best (<) (\<lambda>e. e + 65535) (\<lambda>s e. e < s)"

definition max_target :: "(nat \<times> nat) list \<Rightarrow> nat \<Rightarrow> nat" where
  "max_target = span_best (>) (\<lambda>e. e) (\<lambda>s e. s < e)"

lemma span_walk_append:
  "span_walk better t (xs @ ys) f =
     (case span_walk better t xs f of (c, g) \<Rightarrow> if c then span_walk better t ys g else (False, g))"
  by (induction xs arbitrary: f) auto

locale span_order =
  fixes better :: "nat \<Rightarrow> nat \<Rightarrow> bool" and neutral :: "nat \<Rightarrow> nat"
    and covers :: "nat \<Rightarrow> nat \<Rightarrow> bool" and before :: "nat \<Rightarrow> nat \<Rightarrow> bool"
  assumes better_irrefl: "\<not> better a a"
    and better_trans: "better a b \<Longrightarrow> better b c \<Longrightarrow> better a c"
    and better_total: "better a b \<or> a = b \<or> better b a"
    and covers_before: "before e e' \<Longrightarrow> covers s e \<Longrightarrow> covers s e'"
    and neutral_before: "before e e' \<Longrightarrow> \<not> better (neutral e) (neutral e')"
begin

lemma best_Nil: "span_best better neutral covers [] e = neutral e"
  by (simp add: span_best_def)

lemma best_Cons:
  "span_best better neutral covers ((s, t) # A) e =
     (if covers s e \<and> better t (span_best better neutral covers A e) then t
      else span_best better neutral covers A e)"
  by (simp add: span_best_def)

lemma best_detects:
  assumes "\<not> better (neutral e) t"
  shows "better (span_best better neutral covers A e) t \<longleftrightarrow>
    (\<exists>(s', t') \<in> set A. covers s' e \<and> better t' t)"
proof (induction A)
  case Nil
  then show ?case using assms by (simp add: best_Nil)
next
  case (Cons a A)
  obtain s' t' where a: "a = (s', t')" by (cases a)
  let ?b = "span_best better neutral covers A e"
  have "better t' t \<Longrightarrow> \<not> better t' ?b \<Longrightarrow> better ?b t"
    using better_total[of t' ?b] better_trans by blast
  moreover have "better t' ?b \<Longrightarrow> better ?b t \<Longrightarrow> better t' t"
    by (rule better_trans)
  ultimately show ?case using Cons.IH by (auto simp: a best_Cons)
qed

lemma best_attained:
  assumes "better (span_best better neutral covers A e) t" and "\<not> better (neutral e) t"
  shows "\<exists>s'. (s', span_best better neutral covers A e) \<in> set A \<and> covers s' e"
  using assms
proof (induction A)
  case (Cons a A)
  then show ?case by (cases a) (auto simp: best_Cons split: if_splits)
qed (simp add: best_Nil)

lemma best_before:
  assumes "before e e'"
  shows "\<not> better (span_best better neutral covers A e) (span_best better neutral covers A e')"
proof (induction A)
  case Nil
  then show ?case using neutral_before[OF assms] by (simp add: best_Nil)
next
  case (Cons a A)
  obtain s t where a: "a = (s, t)" by (cases a)
  show ?case
    using Cons.IH covers_before[OF assms, of s] better_irrefl better_trans
    by (auto simp: a best_Cons)
qed

lemma walk_best:
  assumes "sorted_wrt before es" and "distinct es" and "\<forall>e \<in> set es. covers s e"
    and "\<forall>e \<in> set es. f e = span_best better neutral covers A e"
  shows "snd (span_walk better t es f) =
    (\<lambda>e. if e \<in> set es then span_best better neutral covers ((s, t) # A) e else f e)"
  using assms
proof (induction es arbitrary: f)
  case (Cons e es)
  show ?case
  proof (cases "better t (f e)")
    case True
    have "snd (span_walk better t es (f(e := t))) =
      (\<lambda>x. if x \<in> set es then span_best better neutral covers ((s, t) # A) x else (f(e := t)) x)"
      using Cons.prems by (intro Cons.IH) auto
    then show ?thesis using True Cons.prems by (auto simp: best_Cons fun_eq_iff)
  next
    case False
    have "\<not> better t (span_best better neutral covers A x)" if "x \<in> set es" for x
    proof -
      have "before e x" using that Cons.prems(1) by simp
      then have "\<not> better (f e) (span_best better neutral covers A x)"
        using best_before[of e x A] Cons.prems(4) by simp
      then show ?thesis using False better_total[of t "f e"] better_trans by blast
    qed
    then show ?thesis using False Cons.prems by (auto simp: best_Cons fun_eq_iff)
  qed
qed simp

end

interpretation min_span: span_order "(<)" "\<lambda>e. e + 65535" "\<lambda>s e. e < s" "(>)"
  by unfold_locales auto

interpretation max_span: span_order "(>)" "\<lambda>e. e" "\<lambda>s e. s < e" "(<)"
  by unfold_locales auto

section \<open>The targets that chunks stand for\<close>

text \<open>
  \<open>g i\<close> is the slice of chunk \<open>i\<close>. \<open>view p g v e\<close> is the target epoch that the cell of validator \<open>v\<close> and
  epoch \<open>e\<close> stands for.
\<close>

definition view :: "slasher_params \<Rightarrow> (nat \<Rightarrow> u16 list) \<Rightarrow> validator_index \<Rightarrow> nat \<Rightarrow> nat" where
  "view p g v e = e + unat (g (e div unat (chunkSize p)) ! cell_no p v e)"

definition chunks_ok :: "slasher_params \<Rightarrow> (nat \<Rightarrow> u16 list) \<Rightarrow> bool" where
  "chunks_ok p g \<longleftrightarrow> (\<forall>i. length (g i) = unat (chunkSize p) * unat (validatorChunkSize p))"

definition other_rows :: "slasher_params \<Rightarrow> validator_index \<Rightarrow> (nat \<Rightarrow> u16 list) \<Rightarrow> (nat \<Rightarrow> u16 list) \<Rightarrow> bool" where
  "other_rows p v g g' \<longleftrightarrow> (\<forall>v'. v' mod validatorChunkSize p \<noteq> v mod validatorChunkSize p \<longrightarrow>
     view p g' v' = view p g v')"

text \<open>The epochs whose spans fit the slices: one history, far below the range of an epoch.\<close>

definition history_fits :: "slasher_params \<Rightarrow> bool" where
  "history_fits p \<longleftrightarrow> params_ok p \<and> unat (historyLength p) \<le> 65535"

lemma history_fitsD: "history_fits p \<Longrightarrow> params_ok p" "history_fits p \<Longrightarrow> unat (historyLength p) \<le> 65535"
  by (simp_all add: history_fits_def)

lemma other_rows_refl [simp]: "other_rows p v g g"
  by (simp add: other_rows_def)

lemma other_rows_trans: "other_rows p v g g1 \<Longrightarrow> other_rows p v g1 g2 \<Longrightarrow> other_rows p v g g2"
  by (simp add: other_rows_def)

lemma chunks_ok_upd:
  "chunks_ok p g \<Longrightarrow> length d = unat (chunkSize p) * unat (validatorChunkSize p) \<Longrightarrow> chunks_ok p (g(i := d))"
  by (simp add: chunks_ok_def)

lemma required_len:
  assumes "params_ok p"
  shows "unat (chunkSize p * validatorChunkSize p) = unat (chunkSize p) * unat (validatorChunkSize p)"
  using assms by (intro unat_mult_u64) (simp add: params_ok_def)

lemma slice_len:
  assumes "params_ok p" and "length d = unat (chunkSize p) * unat (validatorChunkSize p)"
  shows "(of_nat (length d) :: u64) = chunkSize p * validatorChunkSize p"
    and "unat (of_nat (length d) :: u64) = length d"
proof -
  show l: "unat (of_nat (length d) :: u64) = length d"
    using assms by (intro unat_of_nat_u64) (simp add: params_ok_def)
  show "(of_nat (length d) :: u64) = chunkSize p * validatorChunkSize p"
    using l assms(2) required_len[OF assms(1)] by (simp add: word_unat_eq_iff)
qed

lemma unat_u16_bound: "unat (x :: u16) < 65536"
  using unsigned_less[of x] by simp

lemma unat_ucast_u16 [simp]: "unat (ucast (x :: u16) :: u64) = unat x"
proof -
  have "unat x < 18446744073709551616" using unat_u16_bound[of x] by linarith
  then show ?thesis by (simp add: unsigned_ucast_eq take_bit_nat_eq_self)
qed

lemma chunkDataAtEpoch_view:
  assumes "params_ok p" and "chunks_ok p g" and "i = unat e div unat (chunkSize p)"
    and "unat e \<le> 65535"
  shows "\<exists>r. chunkDataAtEpoch p (g i) v e = Ok r \<and> unat r = view p g v (unat e)"
proof -
  have len: "length (g i) = unat (chunkSize p) * unat (validatorChunkSize p)"
    using assms(2) by (simp add: chunks_ok_def)
  obtain c where c: "cellIndex p v e = (Ok c :: (slasher_error, u64) outcome)" "unat c = cell_no p v (unat e)"
    using cellIndex_eq[OF assms(1)] by blast
  have "\<not> of_nat (length (g i)) \<le> c"
    using cell_no_bound[OF assms(1), of v "unat e"] c(2) slice_len(2)[OF assms(1) len] len
    by (simp add: word_le_nat_alt)
  moreover have fits: "unat e + unat (ucast (g i ! unat c) :: u64) < 2 ^ 64"
  proof -
    have "unat e + unat (g i ! unat c) < 65535 + 65536"
      using assms(4) unat_u16_bound[of "g i ! unat c"] by linarith
    also have "\<dots> < 2 ^ 64" by simp
    finally show ?thesis by simp
  qed
  ultimately have "chunkDataAtEpoch p (g i) v e = Ok (e + ucast (g i ! unat c))"
    using slice_len(1)[OF assms(1) len] c(1)
    by (simp add: chunkDataAtEpoch_def epoch_arith.panicking_eq)
  moreover have "unat (e + ucast (g i ! unat c)) = view p g v (unat e)"
    using unat_add_u64[OF fits] c(2) assms(3) by (simp add: view_def)
  ultimately show ?thesis by blast
qed

lemma setChunkRawDistance_view:
  assumes "params_ok p" and "chunks_ok p g" and "i = unat e div unat (chunkSize p)"
  shows "\<exists>d. setChunkRawDistance p (g i) v e x = Ok d \<and>
    length d = unat (chunkSize p) * unat (validatorChunkSize p) \<and>
    view p (g(i := d)) v = (view p g v)(unat e := unat e + unat x) \<and> other_rows p v g (g(i := d))"
proof -
  have len: "length (g i) = unat (chunkSize p) * unat (validatorChunkSize p)"
    using assms(2) by (simp add: chunks_ok_def)
  obtain c where c: "cellIndex p v e = (Ok c :: (slasher_error, u64) outcome)" "unat c = cell_no p v (unat e)"
    using cellIndex_eq[OF assms(1)] by blast
  have lt: "cell_no p v (unat e) < length (g i)" using cell_no_bound[OF assms(1)] len by simp
  then have "\<not> of_nat (length (g i)) \<le> c"
    using c(2) slice_len(2)[OF assms(1) len] by (simp add: word_le_nat_alt)
  then have "setChunkRawDistance p (g i) v e x = Ok ((g i)[cell_no p v (unat e) := x])"
    using c by (simp add: setChunkRawDistance_def)
  moreover have "view p (g(i := (g i)[cell_no p v (unat e) := x])) v =
      (view p g v)(unat e := unat e + unat x)"
    using lt assms(3) same_cell[of _ "unat (chunkSize p)" "unat e"]
    by (fastforce simp: fun_eq_iff view_def nth_list_update cell_no_eq_iff[OF assms(1)])
  moreover have "other_rows p v g (g(i := (g i)[cell_no p v (unat e) := x]))"
    by (auto simp: other_rows_def view_def fun_eq_iff nth_list_update cell_no_eq_iff[OF assms(1)])
  ultimately show ?thesis using len by auto
qed

lemma setChunkDataAtEpoch_view:
  assumes "params_ok p" and "chunks_ok p g" and "i = unat e div unat (chunkSize p)"
    and "unat e \<le> unat t" and "unat t < unat e + 65536"
  shows "\<exists>d. setChunkDataAtEpoch p (g i) v e t = Ok d \<and>
    length d = unat (chunkSize p) * unat (validatorChunkSize p) \<and>
    view p (g(i := d)) v = (view p g v)(unat e := unat t) \<and> other_rows p v g (g(i := d))"
proof -
  have le: "e \<le> t" using assms(4) by (simp add: word_le_nat_alt)
  have "unat (ucast (t - e) :: u16) = unat t - unat e"
    using assms(4,5) by (simp add: unsigned_ucast_eq take_bit_nat_eq_self unat_sub_u64[OF le])
  moreover have "epochDistance t e = Ok (ucast (t - e))"
    using le by (simp add: epochDistance_def epoch_arith.panicking_eq not_less)
  ultimately show ?thesis
    using setChunkRawDistance_view[OF assms(1-3), of v "ucast (t - e)"] assms(4)
    by (simp add: setChunkDataAtEpoch_def)
qed

section \<open>Update loops are walks\<close>

declare min_update_loop.simps [simp del] max_update_loop.simps [simp del]

lemma chunkIndex_in_history:
  assumes "params_ok p" and "unat e < unat (historyLength p)"
  shows "chunkIndex p e = Ok (of_nat (unat e div unat (chunkSize p)))"
    and "unat (of_nat (unat e div unat (chunkSize p)) :: u64) = unat e div unat (chunkSize p)"
proof -
  have "unat e div unat (chunkSize p) < 2 ^ 64"
    using le_less_trans[OF div_le_dividend unat_less_2p64] by simp
  then show u: "unat (of_nat (unat e div unat (chunkSize p)) :: u64) = unat e div unat (chunkSize p)"
    by (rule unat_of_nat_u64)
  have "e mod historyLength p div chunkSize p = of_nat (unat e div unat (chunkSize p))"
    using assms(2) u by (simp add: word_unat_eq_iff unat_div unat_mod)
  then show "chunkIndex p e = Ok (of_nat (unat e div unat (chunkSize p)))"
    by (simp add: chunkIndex_eq[OF assms(1)])
qed

text \<open>
  The postcondition of an update of chunk \<open>i\<close> by a walk over the epochs \<open>es\<close>: the walk is done on the
  slice of that chunk, and the other validators of the chunk keep their spans.
\<close>

definition walked ::
  "(nat \<Rightarrow> nat \<Rightarrow> bool) \<Rightarrow> slasher_params \<Rightarrow> (nat \<Rightarrow> u16 list) \<Rightarrow> nat \<Rightarrow> validator_index \<Rightarrow> nat \<Rightarrow> nat list \<Rightarrow>
   bool \<Rightarrow> u16 list \<Rightarrow> bool" where
  "walked better p g i v t es c d \<longleftrightarrow>
     length d = unat (chunkSize p) * unat (validatorChunkSize p) \<and>
     span_walk better t es (view p g v) = (c, view p (g(i := d)) v) \<and> other_rows p v g (g(i := d))"

lemma walked_step:
  assumes "walked better p (g(i := d1)) i v t es c d" and "better t (view p g v e)"
    and "view p (g(i := d1)) v = (view p g v)(e := t)" and "other_rows p v g (g(i := d1))"
  shows "walked better p g i v t (e # es) c d"
  using assms other_rows_trans[of p v g "g(i := d1)" "g(i := d)"] by (simp add: walked_def)

lemma walked_stop:
  assumes "chunks_ok p g" and "\<not> better t (view p g v e)"
  shows "walked better p g i v t (e # es) False (g i)"
  using assms by (simp add: walked_def chunks_ok_def)

lemma walked_end:
  assumes "chunks_ok p g"
  shows "walked better p g i v t [] True (g i)"
  using assms by (simp add: walked_def chunks_ok_def)

lemma upt_rev_Suc: "a \<le> b \<Longrightarrow> rev [a..<Suc b] = b # rev [a..<b]"
  by simp

lemma chunk_below:
  fixes e c :: nat
  assumes "0 < c" and "0 < e"
  shows "(e - 1) div c = e div c \<longleftrightarrow> e div c * c < e"
proof
  assume "(e - 1) div c = e div c"
  then have "e div c * c \<le> e - 1" by (metis times_div_less_eq_dividend mult.commute)
  then show "e div c * c < e" using assms(2) by linarith
next
  assume "e div c * c < e"
  then have "e div c \<le> (e - 1) div c" using assms(1) by (simp add: less_eq_div_iff_mult_less_eq)
  moreover have "(e - 1) div c \<le> e div c" by (rule div_le_mono) simp
  ultimately show "(e - 1) div c = e div c" by simp
qed

lemma min_update_step:
  assumes "history_fits p" and "chunks_ok p g" and "unat e < unat (historyLength p)"
    and "i = unat e div unat (chunkSize p)" and "unat e \<le> unat t"
  obtains (stop) "\<not> unat t < view p g v (unat e)"
      "\<And>n. min_update_loop (Suc n) p (of_nat i) 0 v t e (g i) = Ok (False, g i)"
  | (set) d1 where "unat t < view p g v (unat e)"
      "\<And>n. min_update_loop (Suc n) p (of_nat i) 0 v t e (g i) =
        min_update_loop n p (of_nat i) 0 v t (if e > 0 then e - 1 else e) d1"
      "chunks_ok p (g(i := d1))" "view p (g(i := d1)) v = (view p g v)(unat e := unat t)"
      "other_rows p v g (g(i := d1))"
proof -
  note p = history_fitsD(1)[OF assms(1)]
  have e: "unat e \<le> 65535" using assms(1,3) history_fitsD(2) by fastforce
  obtain r where r: "chunkDataAtEpoch p (g i) v e = Ok r" "unat r = view p g v (unat e)"
    using chunkDataAtEpoch_view[OF p assms(2,4) e] by blast
  note idx = chunkIndex_in_history[OF p assms(3), folded assms(4)]
  show thesis
  proof (cases "t < r")
    case False
    show thesis
    proof (rule stop)
      show "\<not> unat t < view p g v (unat e)" using False r(2) by (simp add: word_less_nat_alt)
      show "min_update_loop (Suc n) p (of_nat i) 0 v t e (g i) = Ok (False, g i)" for n
        using False by (simp add: min_update_loop.simps idx r)
    qed
  next
    case True
    then have tr: "unat t < view p g v (unat e)" using r(2) by (simp add: word_less_nat_alt)
    then have near: "unat t < unat e + 65536"
      using unat_u16_bound[of "g (unat e div unat (chunkSize p)) ! cell_no p v (unat e)"]
      by (simp add: view_def)
    obtain d1 where d1: "setChunkDataAtEpoch p (g i) v e t = Ok d1"
        "length d1 = unat (chunkSize p) * unat (validatorChunkSize p)"
        "view p (g(i := d1)) v = (view p g v)(unat e := unat t)" "other_rows p v g (g(i := d1))"
      using setChunkDataAtEpoch_view[OF p assms(2,4,5) near] by blast
    show thesis
    proof (rule set[OF tr _ chunks_ok_upd[OF assms(2) d1(2)] d1(3,4)])
      show "min_update_loop (Suc n) p (of_nat i) 0 v t e (g i) =
        min_update_loop n p (of_nat i) 0 v t (if e > 0 then e - 1 else e) d1" for n
        using True by (simp add: min_update_loop.simps idx r d1(1))
    qed
  qed
qed

lemma min_update_leave:
  assumes "params_ok p" and "unat e < unat (historyLength p)" and "i < 2 ^ 64"
    and "unat e div unat (chunkSize p) \<noteq> i"
  shows "min_update_loop (Suc n) p (of_nat i) 0 v t e d = Ok (True, d)"
proof -
  note idx = chunkIndex_in_history[OF assms(1,2)]
  have "(of_nat (unat e div unat (chunkSize p)) :: u64) \<noteq> of_nat i"
    using idx(2) assms(4) unat_of_nat_u64[OF assms(3)] by metis
  then show ?thesis by (simp add: min_update_loop.simps idx(1))
qed

lemma min_update_rest:
  assumes "history_fits p" and "chunks_ok p g" and "unat e < unat (historyLength p)"
    and "unat e = i * unat (chunkSize p)" and "view p g v (unat e) = unat t" and "unat e \<le> unat t"
  shows "min_update_loop (Suc n) p (of_nat i) 0 v t (if e > 0 then e - 1 else e) (g i) = Ok (0 < i, g i)"
proof -
  note p = history_fitsD(1)[OF assms(1)]
  have C: "0 < unat (chunkSize p)" by (simp add: params_okD[OF p])
  then have i: "i = unat e div unat (chunkSize p)" using assms(4) by simp
  show ?thesis
  proof (cases "e > 0")
    case False
    then have "e = 0" "i = 0" using assms(4) C by (simp_all add: word_gt_0)
    from assms(1-3) i assms(6) show ?thesis
      by (cases rule: min_update_step[where v = v]) (use assms(5) False \<open>i = 0\<close> in simp_all)
  next
    case True
    then have e: "0 < unat e" "unat (e - 1) = unat e - 1"
      by (simp_all add: word_less_nat_alt unat_sub_u64 word_le_nat_alt)
    have "i < 2 ^ 64" using le_less_trans[OF div_le_dividend unat_less_2p64] i by simp
    moreover have "\<not> unat e div unat (chunkSize p) * unat (chunkSize p) < unat e"
      using assms(4) i by (metis less_irrefl)
    then have "unat (e - 1) div unat (chunkSize p) \<noteq> i"
      using chunk_below[OF C e(1)] e(2) i by metis
    moreover have "unat (e - 1) < unat (historyLength p)" using assms(3) e(2) by linarith
    moreover have "0 < i" using assms(4) e(1) by (cases i) simp_all
    ultimately show ?thesis using min_update_leave[OF p, of "e - 1" i n v t "g i"] True by simp
  qed
qed

lemma min_update_loop_walk:
  assumes "history_fits p" and "chunks_ok p g" and "unat e < unat (historyLength p)"
    and "i = unat e div unat (chunkSize p)" and "unat e \<le> unat t"
    and "unat e + 1 < i * unat (chunkSize p) + n"
  shows "\<exists>c d. min_update_loop n p (of_nat i) 0 v t e (g i) = Ok (c \<and> 0 < i, d) \<and>
    walked (<) p g i v (unat t) (rev [i * unat (chunkSize p)..<Suc (unat e)]) c d"
  using assms
proof (induction n arbitrary: e g)
  case 0
  have "i * unat (chunkSize p) \<le> unat e" using 0(4) by simp
  with 0(6) have False by linarith
  then show ?case ..
next
  case (Suc n)
  let ?C = "unat (chunkSize p)"
  have C: "0 < ?C" by (rule params_okD(4)[OF history_fitsD(1)[OF Suc.prems(1)]])
  have lo: "i * ?C \<le> unat e" using Suc.prems(4) by simp
  have rev_lo: "rev [i * ?C..<Suc (unat e)] = unat e # rev [i * ?C..<unat e]"
    by (rule upt_rev_Suc[OF lo])
  from Suc.prems(1-5) show ?case
  proof (cases rule: min_update_step[where v = v])
    case stop
    show ?thesis unfolding rev_lo stop(2)
      using walked_stop[where better = "(<)", OF Suc.prems(2) stop(1)] by (intro exI[of _ False] exI[of _ "g i"]) simp
  next
    case (set d1)
    let ?g = "g(i := d1)" and ?e' = "if e > 0 then e - 1 else e"
    have "\<exists>c d. min_update_loop n p (of_nat i) 0 v t ?e' (?g i) = Ok (c \<and> 0 < i, d) \<and>
      walked (<) p ?g i v (unat t) (rev [i * ?C..<unat e]) c d"
    proof (cases "i * ?C < unat e")
      case True
      then have e: "0 < unat e" "unat (e - 1) = unat e - 1" "e > 0" "Suc (unat (e - 1)) = unat e"
        by (simp_all add: word_less_nat_alt unat_sub_u64 word_le_nat_alt)
      have "i = unat (e - 1) div ?C"
        using chunk_below[OF C e(1)] True Suc.prems(4) e(2) by metis
      then have "\<exists>c d. min_update_loop n p (of_nat i) 0 v t (e - 1) (?g i) = Ok (c \<and> 0 < i, d) \<and>
          walked (<) p ?g i v (unat t) (rev [i * ?C..<Suc (unat (e - 1))]) c d"
        using Suc.prems(3,5,6) e(1,2) by (intro Suc.IH[OF Suc.prems(1) set(3)]) simp_all
      then show ?thesis using e(3) by (simp only: e(4) if_True)
    next
      case False
      then have eq: "unat e = i * ?C" using lo by simp
      then obtain m where m: "n = Suc m" using Suc.prems(6) by (cases n) simp_all
      have "min_update_loop n p (of_nat i) 0 v t ?e' (?g i) = Ok (0 < i, ?g i)"
        unfolding m using set(4) by (intro min_update_rest[OF Suc.prems(1) set(3) Suc.prems(3) eq _ Suc.prems(5)]) simp
      then show ?thesis
        using walked_end[OF set(3), of "(<)" i v "unat t"] eq by (intro exI[of _ True] exI[of _ "?g i"]) simp
    qed
    then obtain c d where "min_update_loop n p (of_nat i) 0 v t ?e' (?g i) = Ok (c \<and> 0 < i, d)"
      and w: "walked (<) p ?g i v (unat t) (rev [i * ?C..<unat e]) c d" by blast
    then show ?thesis
      unfolding rev_lo using set(2)[of n] walked_step[OF w set(1,4,5)] by auto
  qed
qed

lemma max_update_step:
  assumes "history_fits p" and "chunks_ok p g" and "unat e \<le> unat cur" and "unat cur < unat (historyLength p)"
    and "i = unat e div unat (chunkSize p)" and "unat t \<le> unat cur"
  obtains (stop) "\<not> view p g v (unat e) < unat t"
      "\<And>n. max_update_loop (Suc n) p (of_nat i) cur v t e (g i) = Ok (False, g i)"
  | (set) d1 where "view p g v (unat e) < unat t"
      "\<And>n. max_update_loop (Suc n) p (of_nat i) cur v t e (g i) =
        max_update_loop n p (of_nat i) cur v t (e + 1) d1"
      "chunks_ok p (g(i := d1))" "view p (g(i := d1)) v = (view p g v)(unat e := unat t)"
      "other_rows p v g (g(i := d1))"
proof -
  note p = history_fitsD(1)[OF assms(1)]
  have e: "unat e \<le> 65535" "e \<le> cur" using assms(1,3,4) history_fitsD(2)
    by (fastforce simp: word_le_nat_alt)+
  obtain r where r: "chunkDataAtEpoch p (g i) v e = Ok r" "unat r = view p g v (unat e)"
    using chunkDataAtEpoch_view[OF p assms(2,5) e(1)] by blast
  have h: "unat e < unat (historyLength p)" using assms(3,4) by linarith
  note idx = chunkIndex_in_history[OF p h, folded assms(5)]
  show thesis
  proof (cases "r < t")
    case False
    show thesis
    proof (rule stop)
      show "\<not> view p g v (unat e) < unat t" using False r(2) by (simp add: word_less_nat_alt)
      show "max_update_loop (Suc n) p (of_nat i) cur v t e (g i) = Ok (False, g i)" for n
        using False e(2) by (simp add: max_update_loop.simps idx r)
    qed
  next
    case True
    then have tr: "view p g v (unat e) < unat t" using r(2) by (simp add: word_less_nat_alt)
    then have le: "unat e \<le> unat t" by (simp add: view_def)
    have near: "unat t < unat e + 65536" using assms(1,4,6) history_fitsD(2)[OF assms(1)] by linarith
    obtain d1 where d1: "setChunkDataAtEpoch p (g i) v e t = Ok d1"
        "length d1 = unat (chunkSize p) * unat (validatorChunkSize p)"
        "view p (g(i := d1)) v = (view p g v)(unat e := unat t)" "other_rows p v g (g(i := d1))"
      using setChunkDataAtEpoch_view[OF p assms(2,5) le near] by blast
    show thesis
    proof (rule set[OF tr _ chunks_ok_upd[OF assms(2) d1(2)] d1(3,4)])
      show "max_update_loop (Suc n) p (of_nat i) cur v t e (g i) =
        max_update_loop n p (of_nat i) cur v t (e + 1) d1" for n
        using True e(2) by (simp add: max_update_loop.simps idx r d1(1))
    qed
  qed
qed

lemma max_update_leave:
  assumes "params_ok p" and "unat e < unat (historyLength p) \<longrightarrow> unat e div unat (chunkSize p) \<noteq> i \<or> cur < e"
    and "i < 2 ^ 64" and "unat (historyLength p) \<le> unat e \<longrightarrow> cur < e"
  shows "max_update_loop (Suc n) p (of_nat i) cur v t e d = Ok (e \<le> cur, d)"
proof (cases "cur < e")
  case True
  then show ?thesis by (simp add: max_update_loop.simps chunkIndex_eq[OF assms(1)] not_le[symmetric])
next
  case False
  then have h: "unat e < unat (historyLength p)" using assms(4) by linarith
  note idx = chunkIndex_in_history[OF assms(1) h]
  have "(of_nat (unat e div unat (chunkSize p)) :: u64) \<noteq> of_nat i"
    using idx(2) assms(2) h False unat_of_nat_u64[OF assms(3)] by metis
  then show ?thesis by (simp add: max_update_loop.simps idx(1))
qed

lemma chunk_above:
  fixes e c :: nat
  assumes "0 < c"
  shows "Suc e div c = e div c \<longleftrightarrow> Suc e < Suc (e div c) * c"
proof
  assume "Suc e div c = e div c"
  then show "Suc e < Suc (e div c) * c" using assms by (metis dividend_less_times_div mult.commute mult_Suc_right mult_Suc)
next
  assume "Suc e < Suc (e div c) * c"
  then have "Suc e div c < Suc (e div c)" using assms by (simp add: div_less_iff_less_mult)
  moreover have "e div c \<le> Suc e div c" by (rule div_le_mono) simp
  ultimately show "Suc e div c = e div c" by linarith
qed

lemma max_update_loop_walk:
  assumes "history_fits p" and "chunks_ok p g" and "unat e \<le> unat cur" and "unat cur < unat (historyLength p)"
    and "i = unat e div unat (chunkSize p)" and "unat t \<le> unat cur" and "unat cur + 1 < unat e + n"
  shows "\<exists>c d. max_update_loop n p (of_nat i) cur v t e (g i) = Ok (c \<and> Suc i * unat (chunkSize p) \<le> unat cur, d) \<and>
    walked (>) p g i v (unat t) [unat e..<min (Suc (unat cur)) (Suc i * unat (chunkSize p))] c d"
  using assms
proof (induction n arbitrary: e g)
  case 0
  then show ?case by simp
next
  case (Suc n)
  note p = history_fitsD(1)[OF Suc.prems(1)]
  let ?C = "unat (chunkSize p)"
  let ?hi = "min (Suc (unat cur)) (Suc i * ?C)"
  have C: "0 < ?C" by (rule params_okD(4)[OF p])
  have in_chunk: "unat e < Suc i * ?C"
    using Suc.prems(5) C by (metis dividend_less_times_div mult.commute mult_Suc)
  have i64: "i < 2 ^ 64" using le_less_trans[OF div_le_dividend unat_less_2p64] Suc.prems(5) by simp
  have e1: "unat (e + 1) = Suc (unat e)"
    using Suc.prems(3,4) by (intro unat_Suc_u64[of e "historyLength p"]) (simp add: word_less_nat_alt)
  have up: "[unat e..<?hi] = unat e # [Suc (unat e)..<?hi]"
    using in_chunk Suc.prems(3) by (intro upt_conv_Cons) simp
  from Suc.prems(1-6) show ?case
  proof (cases rule: max_update_step[where v = v])
    case stop
    show ?thesis unfolding up stop(2)
      using walked_stop[where better = "(>)", OF Suc.prems(2) stop(1)]
      by (intro exI[of _ False] exI[of _ "g i"]) simp
  next
    case (set d1)
    let ?g = "g(i := d1)"
    have "\<exists>c d. max_update_loop n p (of_nat i) cur v t (e + 1) (?g i) = Ok (c \<and> Suc i * ?C \<le> unat cur, d) \<and>
      walked (>) p ?g i v (unat t) [Suc (unat e)..<?hi] c d"
    proof (cases "Suc (unat e) < ?hi")
      case True
      then have "i = unat (e + 1) div ?C"
        using chunk_above[OF C, of "unat e"] Suc.prems(5) e1 by simp
      then have "\<exists>c d. max_update_loop n p (of_nat i) cur v t (e + 1) (?g i) = Ok (c \<and> Suc i * ?C \<le> unat cur, d) \<and>
          walked (>) p ?g i v (unat t) [unat (e + 1)..<?hi] c d"
        using True e1 Suc.prems(7)
        by (intro Suc.IH[OF Suc.prems(1) set(3) _ Suc.prems(4) _ Suc.prems(6)]) simp_all
      then show ?thesis by (simp only: e1)
    next
      case False
      obtain m where m: "n = Suc m" using Suc.prems(3,7) by (cases n) simp_all
      have "max_update_loop n p (of_nat i) cur v t (e + 1) (?g i) = Ok (e + 1 \<le> cur, ?g i)"
        unfolding m
      proof (rule max_update_leave[OF p _ i64])
        show "unat (e + 1) < unat (historyLength p) \<longrightarrow> unat (e + 1) div ?C \<noteq> i \<or> cur < e + 1"
          using False chunk_above[OF C, of "unat e"] Suc.prems(5) e1
          by (auto simp: word_less_nat_alt min_def split: if_splits)
        show "unat (historyLength p) \<le> unat (e + 1) \<longrightarrow> cur < e + 1"
          using Suc.prems(4) by (simp add: word_less_nat_alt)
      qed
      moreover have "e + 1 \<le> cur \<longleftrightarrow> Suc i * ?C \<le> unat cur"
        using False in_chunk Suc.prems(3) e1 by (auto simp: word_le_nat_alt)
      moreover have nil: "[Suc (unat e)..<?hi] = []" using False by (intro upt_conv_Nil) linarith
      ultimately show ?thesis
        unfolding nil using walked_end[OF set(3), of "(>)" i v "unat t"] by (intro exI[of _ True] exI[of _ "?g i"]) simp
    qed
    then obtain c d where "max_update_loop n p (of_nat i) cur v t (e + 1) (?g i) = Ok (c \<and> Suc i * ?C \<le> unat cur, d)"
      and w: "walked (>) p ?g i v (unat t) [Suc (unat e)..<?hi] c d" by blast
    then show ?thesis
      unfolding up using set(2)[of n] walked_step[OF w set(1,4,5)] by auto
  qed
qed

section \<open>One update of a chunk\<close>

lemma Min_Update_walk:
  assumes "history_fits p" and "chunks_ok p g" and "unat cur < unat (historyLength p)"
    and "unat e \<le> unat cur" and "i = unat e div unat (chunkSize p)" and "unat e \<le> unat t"
    and "sl_params m = p" and "sl_data m = g i"
  shows "\<exists>c d. Min_Update m (of_nat i) cur v e t = Ok (c \<and> 0 < i, m\<lparr>sl_data := d\<rparr>) \<and>
    walked (<) p g i v (unat t) (rev [i * unat (chunkSize p)..<Suc (unat e)]) c d"
proof -
  have "unat (historyLength p - 1) = unat (historyLength p) - 1"
    using assms(3) unat_sub_u64[of 1 "historyLength p"] by (simp add: word_le_nat_alt)
  then have "\<not> historyLength p - 1 < cur" using assms(3) by (simp add: word_less_nat_alt)
  moreover obtain c d where "min_update_loop (unat e + 2) p (of_nat i) 0 v t e (g i) = Ok (c \<and> 0 < i, d)"
    and w: "walked (<) p g i v (unat t) (rev [i * unat (chunkSize p)..<Suc (unat e)]) c d"
    using min_update_loop_walk[of p g e i t "unat e + 2" v] assms by auto
  ultimately have "Min_Update m (of_nat i) cur v e t = Ok (c \<and> 0 < i, m\<lparr>sl_data := d\<rparr>)"
    by (simp add: Min_Update_def assms(7,8))
  with w show ?thesis by blast
qed

lemma Max_Update_walk:
  assumes "history_fits p" and "chunks_ok p g" and "unat cur < unat (historyLength p)"
    and "unat e \<le> unat cur" and "i = unat e div unat (chunkSize p)" and "unat t \<le> unat cur"
    and "sl_params m = p" and "sl_data m = g i"
  shows "\<exists>c d. Max_Update m (of_nat i) cur v e t = Ok (c \<and> Suc i * unat (chunkSize p) \<le> unat cur, m\<lparr>sl_data := d\<rparr>) \<and>
    walked (>) p g i v (unat t) [unat e..<min (Suc (unat cur)) (Suc i * unat (chunkSize p))] c d"
proof -
  obtain c d where "max_update_loop (unat cur + 2) p (of_nat i) cur v t e (g i) =
        Ok (c \<and> Suc i * unat (chunkSize p) \<le> unat cur, d)"
    and w: "walked (>) p g i v (unat t) [unat e..<min (Suc (unat cur)) (Suc i * unat (chunkSize p))] c d"
    using max_update_loop_walk[OF assms(1,2,4,3,5,6), of "unat cur + 2" v] by auto
  then have "Max_Update m (of_nat i) cur v e t =
      Ok (c \<and> Suc i * unat (chunkSize p) \<le> unat cur, m\<lparr>sl_data := d\<rparr>)"
    by (simp add: Max_Update_def assms(7,8))
  with w show ?thesis by blast
qed

end
