(* ===== verification/Slasher_Surround.thy ===== *)
theory Slasher_Surround
  imports Slasher_Spans Slasher_Detect
begin

text \<open>
  Surround votes are detected exactly. The spans of a validator, read through the chunks in memory and
  on disk, stand for the attestations seen so far (\<open>represents\<close>). Applying one more attestation
  reports a slashing exactly when it surrounds an earlier one (min spans) or is surrounded by one (max
  spans), and otherwise brings the spans up to date and leaves those of other validators alone.

  This holds as long as the current epoch is within the first \<open>historyLength\<close> epochs. The last section
  shows that it fails afterwards: \<open>NextChunkStartEpoch\<close> continues in the first history, so a
  surrounding vote whose source lies in an earlier chunk goes undetected.
\<close>

section \<open>Chunks in memory and on disk\<close>

fun span_chunk :: "ChunkKind \<Rightarrow> span_slice \<Rightarrow> chunker" where
  "span_chunk MinSpan m = MinSpanChunksSlice m"
| "span_chunk MaxSpan m = MaxSpanChunksSlice m"

lemma Chunk_span_chunk [simp]: "Chunk (span_chunk k m) = sl_data m"
  by (cases k) simp_all

definition chunk_count :: "slasher_params \<Rightarrow> nat" where
  "chunk_count p = Suc ((unat (historyLength p) - 1) div unat (chunkSize p))"

definition chunks_load ::
  "('d, 'z) slasher_env_scheme \<Rightarrow> 'd \<Rightarrow> ChunkKind \<Rightarrow> u64 \<Rightarrow> chunk_map \<Rightarrow> bool" where
  "chunks_load E d kind vci chunks \<longleftrightarrow> (\<forall>i < chunk_count (se_params E). \<exists>m.
     chunk_for E d kind vci chunks (of_nat i) = Ok (span_chunk kind m) \<and> sl_params m = se_params E \<and>
     length (sl_data m) = unat (chunkSize (se_params E)) * unat (validatorChunkSize (se_params E)))"

definition slices_of ::
  "('d, 'z) slasher_env_scheme \<Rightarrow> 'd \<Rightarrow> ChunkKind \<Rightarrow> u64 \<Rightarrow> chunk_map \<Rightarrow> nat \<Rightarrow> u16 list" where
  "slices_of E d kind vci chunks i =
     (if i < chunk_count (se_params E) then
        (case chunk_for E d kind vci chunks (of_nat i) of Ok c \<Rightarrow> Chunk c | _ \<Rightarrow> [])
      else replicate (unat (chunkSize (se_params E)) * unat (validatorChunkSize (se_params E))) 0)"

lemma slices_ok: "chunks_load E d kind vci chunks \<Longrightarrow> chunks_ok (se_params E) (slices_of E d kind vci chunks)"
  by (fastforce simp: chunks_ok_def slices_of_def chunks_load_def)

lemma chunk_count_bound:
  assumes "params_ok p"
  shows "chunk_count p < 2 ^ 64"
proof -
  have "chunk_count p \<le> unat (historyLength p)"
    using div_le_dividend[of "unat (historyLength p) - 1" "unat (chunkSize p)"] params_okD(6)[OF assms]
    unfolding chunk_count_def by linarith
  from le_less_trans[OF this unat_less_2p64] show ?thesis by simp
qed

lemma epoch_chunk_counted:
  assumes "e < unat (historyLength p)"
  shows "e div unat (chunkSize p) < chunk_count p"
  using assms by (auto simp: chunk_count_def less_Suc_eq_le intro: div_le_mono)

lemma chunk_for_update:
  assumes "params_ok (se_params E)" and "i < chunk_count (se_params E)" and "j < chunk_count (se_params E)"
  shows "chunk_for E d kind vci (AList.update (of_nat i) c chunks) (of_nat j) =
    (if j = i then Ok c else chunk_for E d kind vci chunks (of_nat j))"
proof -
  have "(of_nat j :: u64) = of_nat i \<longleftrightarrow> j = i"
    using assms chunk_count_bound[OF assms(1)] by (metis less_trans unat_of_nat_u64)
  then show ?thesis by (simp add: chunk_for_def update_conv')
qed

lemma chunk_put:
  assumes "params_ok (se_params E)" and "i < chunk_count (se_params E)" and "chunks_load E d kind vci chunks"
    and "sl_params m = se_params E"
    and "length (sl_data m) = unat (chunkSize (se_params E)) * unat (validatorChunkSize (se_params E))"
  shows "chunks_load E d kind vci (AList.update (of_nat i) (span_chunk kind m) chunks)"
    and "slices_of E d kind vci (AList.update (of_nat i) (span_chunk kind m) chunks) =
      (slices_of E d kind vci chunks)(i := sl_data m)"
  using assms
  by (auto simp: chunks_load_def slices_of_def fun_eq_iff chunk_for_update)

lemma chunk_get:
  assumes "chunks_load E d kind vci chunks" and "i < chunk_count (se_params E)"
  obtains m where "chunk_for E d kind vci chunks (of_nat i) = Ok (span_chunk kind m)"
    "sl_params m = se_params E" "sl_data m = slices_of E d kind vci chunks i"
  using assms by (auto simp: chunks_load_def slices_of_def)

section \<open>The update across chunks is one walk\<close>

text \<open>What an update over the epochs \<open>es\<close> gives, for any number of chunks.\<close>

definition walked_all ::
  "(nat \<Rightarrow> nat \<Rightarrow> bool) \<Rightarrow> ('d, 'z) slasher_env_scheme \<Rightarrow> 'd \<Rightarrow> ChunkKind \<Rightarrow> u64 \<Rightarrow> validator_index \<Rightarrow> nat \<Rightarrow>
   nat list \<Rightarrow> chunk_map \<Rightarrow> chunk_map \<Rightarrow> bool" where
  "walked_all better E d kind vci v t es chunks chunks' \<longleftrightarrow>
     chunks_load E d kind vci chunks' \<and>
     view (se_params E) (slices_of E d kind vci chunks') v =
       snd (span_walk better t es (view (se_params E) (slices_of E d kind vci chunks) v)) \<and>
     other_rows (se_params E) v (slices_of E d kind vci chunks) (slices_of E d kind vci chunks')"

lemma walked_chunk:
  assumes "se_params E = p" and "params_ok p" and "i < chunk_count p" and "chunks_load E d kind vci chunks"
    and "sl_params m = p" and "walked better p (slices_of E d kind vci chunks) i v t es c dt"
  shows "walked_all better E d kind vci v t es chunks (AList.update (of_nat i) (span_chunk kind (m\<lparr>sl_data := dt\<rparr>)) chunks)"
    and "c = fst (span_walk better t es (view p (slices_of E d kind vci chunks) v))"
  using assms chunk_put[of E i d kind vci chunks "m\<lparr>sl_data := dt\<rparr>"]
  by (simp_all add: walked_all_def walked_def)

lemma walked_append:
  assumes "se_params E = p" and "walked_all better E d kind vci v t es chunks chunks1"
    and "fst (span_walk better t es (view p (slices_of E d kind vci chunks) v))"
    and "walked_all better E d kind vci v t es' chunks1 chunks2"
  shows "walked_all better E d kind vci v t (es @ es') chunks chunks2"
  using assms
  by (auto simp: walked_all_def span_walk_append split: prod.splits intro: other_rows_trans)

lemma walked_cut:
  assumes "se_params E = p" and "walked_all better E d kind vci v t es chunks chunks1"
    and "\<not> fst (span_walk better t es (view p (slices_of E d kind vci chunks) v))"
  shows "walked_all better E d kind vci v t (es @ es') chunks chunks1"
  using assms by (auto simp: walked_all_def span_walk_append split: prod.splits)

lemma Min_next_chunk:
  assumes "params_ok p" and "unat e < unat (historyLength p)" and "i = unat e div unat (chunkSize p)"
    and "0 < i" and "sl_params m = p"
  shows "\<exists>e'. Min_NextChunkStartEpoch m e = Ok e' \<and> Suc (unat e') = i * unat (chunkSize p)"
proof -
  let ?C = "unat (chunkSize p)"
  note idx = chunkIndex_in_history[OF assms(1,2), folded assms(3)]
  have C: "0 < ?C" by (rule params_okD(4)[OF assms(1)])
  have le: "i * ?C \<le> unat e" using assms(3) by simp
  have "(of_nat i :: u64) \<noteq> 0" using idx(2) assms(4) by (metis unat_0 less_irrefl)
  then have pred: "unat (of_nat i - 1 :: u64) = i - 1"
    using unat_sub_u64[of 1 "of_nat i"] idx(2) assms(4) by (simp add: word_le_nat_alt)
  obtain k where k: "i = Suc k" using assms(4) by (cases i) auto
  have small: "k * ?C + (?C - 1) < 18446744073709551616"
    using le C unat_less_2p64[of e] unfolding k mult_Suc by linarith
  have "unat ((of_nat i - 1) * chunkSize p :: u64) = k * ?C"
    using small pred by (subst unat_mult_u64) (simp_all add: k)
  moreover have C1: "unat (chunkSize p - 1) = ?C - 1"
    using unat_sub_u64[of 1 "chunkSize p"] C by (simp add: word_le_nat_alt)
  ultimately have "unat ((of_nat i - 1) * chunkSize p + (chunkSize p - 1)) = k * ?C + (?C - 1)"
    and "unat ((of_nat i - 1) * chunkSize p) + unat (chunkSize p - 1) < 2 ^ 64"
    using small unat_add_u64[of "(of_nat i - 1) * chunkSize p" "chunkSize p - 1"] by simp_all
  then show ?thesis
    using C \<open>of_nat i \<noteq> 0\<close>
    by (simp add: Min_NextChunkStartEpoch_def assms(5) idx(1) word_gt_0 lastEpoch_def firstEpoch_def
        epoch_arith.panicking_eq k)
qed

lemma Max_next_chunk:
  assumes "params_ok p" and "unat e < unat (historyLength p)" and "i = unat e div unat (chunkSize p)"
    and "Suc i * unat (chunkSize p) < 2 ^ 64" and "sl_params m = p"
  shows "\<exists>e'. Max_NextChunkStartEpoch m e = Ok e' \<and> unat e' = Suc i * unat (chunkSize p)"
proof -
  note idx = chunkIndex_in_history[OF assms(1,2), folded assms(3)]
  have "i < Suc i * unat (chunkSize p)" using params_okD(4)[OF assms(1)] by (cases "unat (chunkSize p)") auto
  then have "unat (of_nat i + 1 :: u64) = Suc i"
    using assms(4) idx(2) by (subst unat_add_u64) simp_all
  then have "unat ((of_nat i + 1) * chunkSize p :: u64) = Suc i * unat (chunkSize p)"
    using assms(4) by (subst unat_mult_u64) (simp_all del: mult_Suc)
  then show ?thesis by (simp add: Max_NextChunkStartEpoch_def assms(5) idx(1) firstEpoch_def)
qed

lemma upt_split: "a \<le> b \<Longrightarrow> b \<le> c \<Longrightarrow> [a..<c] = [a..<b] @ [b..<c]"
  by (metis le_Suc_ex upt_add_eq_append)

lemma rev_upt_split: "a \<le> b \<Longrightarrow> rev [0..<b] = rev [a..<b] @ rev [0..<a]"
  by (simp add: upt_split[of 0 a b])

lemma update_chunks_min:
  assumes "se_params E = p" and "history_fits p" and "chunks_load E d MinSpan vci chunks"
    and "unat cur < unat (historyLength p)" and "unat e \<le> unat cur" and "unat e \<le> unat t"
    and "unat e div unat (chunkSize p) < n"
  shows "\<exists>chunks'. update_chunks n E d MinSpan vci v cur t e chunks = Ok chunks' \<and>
    walked_all (<) E d MinSpan vci v (unat t) (rev [0..<Suc (unat e)]) chunks chunks'"
  using assms(3,5-7)
proof (induction n arbitrary: e chunks)
  case (Suc n)
  note p = history_fitsD(1)[OF assms(2)]
  let ?C = "unat (chunkSize p)" and ?g = "slices_of E d MinSpan vci chunks"
  define i where i: "i = unat e div ?C"
  have h: "unat e < unat (historyLength p)" using Suc.prems(2) assms(4) by linarith
  have ic: "i < chunk_count p" using epoch_chunk_counted[OF h] by (simp add: i)
  note idx = chunkIndex_in_history[OF p h, folded i]
  obtain m where m: "chunk_for E d MinSpan vci chunks (of_nat i) = Ok (MinSpanChunksSlice m)"
      "sl_params m = p" "sl_data m = ?g i"
    using chunk_get[OF Suc.prems(1), unfolded assms(1), OF ic] by (metis span_chunk.simps(1))
  obtain c dt where u: "Min_Update m (of_nat i) cur v e t = Ok (c \<and> 0 < i, m\<lparr>sl_data := dt\<rparr>)"
      "walked (<) p ?g i v (unat t) (rev [i * ?C..<Suc (unat e)]) c dt"
    using Min_Update_walk[OF assms(2) slices_ok[OF Suc.prems(1), unfolded assms(1)] assms(4) Suc.prems(2) i
        Suc.prems(3) m(2,3)] by blast
  let ?chunks = "AList.update (of_nat i) (MinSpanChunksSlice (m\<lparr>sl_data := dt\<rparr>)) chunks"
  note w = walked_chunk[OF assms(1) p ic Suc.prems(1) m(2) u(2), unfolded span_chunk.simps]
  have split: "rev [0..<Suc (unat e)] = rev [i * ?C..<Suc (unat e)] @ rev [0..<i * ?C]"
    by (rule rev_upt_split) (simp add: i le_SucI)
  have run: "update_chunks (Suc n) E d MinSpan vci v cur t e chunks =
      (if c \<and> 0 < i then obind (Min_NextChunkStartEpoch m e) (\<lambda>e'.
         update_chunks n E d MinSpan vci v cur t e' ?chunks) else Ok ?chunks)"
    by (simp add: assms(1) idx(1) m(1) u(1) Min_NextChunkStartEpoch_def)
  show ?case
  proof (cases "c \<and> 0 < i")
    case True
    obtain e' where e': "Min_NextChunkStartEpoch m e = Ok e'" "Suc (unat e') = i * ?C"
      using Min_next_chunk[OF p h i conjunct2[OF True] m(2)] by blast
    have le: "unat e' \<le> unat e" using e'(2) div_times_less_eq_dividend[of "unat e" ?C] unfolding i by linarith
    have "unat e' div ?C < i" using e'(2) params_okD(4)[OF p] by (simp add: div_less_iff_less_mult)
    then have "unat e' div ?C < n" using Suc.prems(4) by (simp add: i)
    then obtain chunks' where "update_chunks n E d MinSpan vci v cur t e' ?chunks = Ok chunks'"
      and w': "walked_all (<) E d MinSpan vci v (unat t) (rev [0..<Suc (unat e')]) ?chunks chunks'"
      using Suc.IH[of ?chunks e'] w(1) le Suc.prems(2,3) by (auto simp: walked_all_def)
    then have "update_chunks (Suc n) E d MinSpan vci v cur t e chunks = Ok chunks'"
      unfolding run using True e'(1) by simp
    moreover have "walked_all (<) E d MinSpan vci v (unat t) (rev [0..<Suc (unat e)]) chunks chunks'"
      unfolding split using w(2) True by (intro walked_append[OF assms(1) w(1) _ w'[unfolded e'(2)]]) blast
    ultimately show ?thesis by blast
  next
    case False
    then have "walked_all (<) E d MinSpan vci v (unat t) (rev [0..<Suc (unat e)]) chunks ?chunks"
      unfolding split using w walked_cut[OF assms(1) w(1)] by (cases "i = 0") (simp_all del: upt_Suc)
    then show ?thesis unfolding run using False by auto
  qed
qed simp

lemma update_chunks_max:
  assumes "se_params E = p" and "history_fits p" and "unat cur < unat (historyLength p)" and "unat t \<le> unat cur"
    and "chunks_load E d MaxSpan vci chunks" and "unat e \<le> unat cur"
    and "unat cur div unat (chunkSize p) < unat e div unat (chunkSize p) + n"
  shows "\<exists>chunks'. update_chunks n E d MaxSpan vci v cur t e chunks = Ok chunks' \<and>
    walked_all (>) E d MaxSpan vci v (unat t) [unat e..<Suc (unat cur)] chunks chunks'"
  using assms(5-7)
proof (induction n arbitrary: e chunks)
  case 0
  then show ?case using div_le_mono[OF 0(2), of "unat (chunkSize p)"] by simp
next
  case (Suc n)
  note p = history_fitsD(1)[OF assms(2)]
  let ?C = "unat (chunkSize p)" and ?g = "slices_of E d MaxSpan vci chunks"
  define i where i: "i = unat e div ?C"
  let ?hi = "min (Suc (unat cur)) (Suc i * ?C)"
  have C: "0 < ?C" by (rule params_okD(4)[OF p])
  have h: "unat e < unat (historyLength p)" using Suc.prems(2) assms(3) by linarith
  have ic: "i < chunk_count p" using epoch_chunk_counted[OF h] by (simp add: i)
  note idx = chunkIndex_in_history[OF p h, folded i]
  obtain m where m: "chunk_for E d MaxSpan vci chunks (of_nat i) = Ok (MaxSpanChunksSlice m)"
      "sl_params m = p" "sl_data m = ?g i"
    using chunk_get[OF Suc.prems(1), unfolded assms(1), OF ic] by (metis span_chunk.simps(2))
  obtain c dt where u: "Max_Update m (of_nat i) cur v e t = Ok (c \<and> Suc i * ?C \<le> unat cur, m\<lparr>sl_data := dt\<rparr>)"
      "walked (>) p ?g i v (unat t) [unat e..<?hi] c dt"
    using Max_Update_walk[OF assms(2) slices_ok[OF Suc.prems(1), unfolded assms(1)] assms(3) Suc.prems(2) i
        assms(4) m(2,3)] by blast
  let ?chunks = "AList.update (of_nat i) (MaxSpanChunksSlice (m\<lparr>sl_data := dt\<rparr>)) chunks"
  note w = walked_chunk[OF assms(1) p ic Suc.prems(1) m(2) u(2), unfolded span_chunk.simps]
  have in_chunk: "unat e < Suc i * ?C"
    using i C by (metis dividend_less_times_div mult.commute mult_Suc)
  have split: "[unat e..<Suc (unat cur)] = [unat e..<?hi] @ [?hi..<Suc (unat cur)]"
    using Suc.prems(2) in_chunk by (intro upt_split) simp_all
  have run: "update_chunks (Suc n) E d MaxSpan vci v cur t e chunks =
      (if c \<and> Suc i * ?C \<le> unat cur then obind (Max_NextChunkStartEpoch m e) (\<lambda>e'.
         update_chunks n E d MaxSpan vci v cur t e' ?chunks) else Ok ?chunks)"
    by (simp add: assms(1) idx(1) m(1) u(1) Max_NextChunkStartEpoch_def del: mult_Suc)
  show ?case
  proof (cases "c \<and> Suc i * ?C \<le> unat cur")
    case True
    then have "Suc i * ?C < 2 ^ 64" using le_less_trans[OF _ unat_less_2p64[of cur]] by simp
    then obtain e' where e': "Max_NextChunkStartEpoch m e = Ok e'" "unat e' = Suc i * ?C"
      using Max_next_chunk[OF p h i _ m(2)] by blast
    have "unat e' div ?C = Suc i" using e'(2) C by simp
    then have "unat cur div ?C < unat e' div ?C + n" using Suc.prems(3) by (simp add: i)
    then obtain chunks' where "update_chunks n E d MaxSpan vci v cur t e' ?chunks = Ok chunks'"
      and w': "walked_all (>) E d MaxSpan vci v (unat t) [unat e'..<Suc (unat cur)] ?chunks chunks'"
      using Suc.IH[of ?chunks e'] w(1) True e'(2) by (auto simp: walked_all_def)
    then have "update_chunks (Suc n) E d MaxSpan vci v cur t e chunks = Ok chunks'"
      unfolding run using True e'(1) by simp
    moreover have "?hi = unat e'" using True e'(2) by (simp add: min_def del: mult_Suc)
    then have "walked_all (>) E d MaxSpan vci v (unat t) [unat e..<Suc (unat cur)] chunks chunks'"
      unfolding split using w(2) True w' by (intro walked_append[OF assms(1) w(1)]) simp_all
    ultimately show ?thesis by blast
  next
    case False
    have "walked_all (>) E d MaxSpan vci v (unat t) [unat e..<Suc (unat cur)] chunks ?chunks"
    proof (cases c)
      case True
      then have "[?hi..<Suc (unat cur)] = []" using False by (intro upt_conv_Nil) (simp add: min_def del: mult_Suc)
      then show ?thesis unfolding split using w(1) by simp
    next
      case False
      then show ?thesis unfolding split using w(2) by (intro walked_cut[OF assms(1) w(1)]) blast
    qed
    then show ?thesis unfolding run using False by auto
  qed
qed

section \<open>Applying one attestation\<close>

text \<open>An attestation as its source and target epoch, and when two of them are a surround vote.\<close>

type_synonym vote_span = "epoch \<times> epoch"

fun conflicts :: "ChunkKind \<Rightarrow> vote_span \<Rightarrow> vote_span \<Rightarrow> bool" where
  "conflicts MinSpan (s, t) (s', t') \<longleftrightarrow> s < s' \<and> t' < t"
| "conflicts MaxSpan (s, t) (s', t') \<longleftrightarrow> s' < s \<and> t < t'"

definition nat_spans :: "vote_span list \<Rightarrow> (nat \<times> nat) list" where
  "nat_spans A = map (\<lambda>(s, t). (unat s, unat t)) A"

fun span_target :: "ChunkKind \<Rightarrow> (nat \<times> nat) list \<Rightarrow> nat \<Rightarrow> nat" where
  "span_target MinSpan A e = min_target A e"
| "span_target MaxSpan A e = max_target A e"

definition represents ::
  "('d, 'z) slasher_env_scheme \<Rightarrow> 'd \<Rightarrow> ChunkKind \<Rightarrow> u64 \<Rightarrow> epoch \<Rightarrow> validator_index \<Rightarrow> vote_span list \<Rightarrow> chunk_map \<Rightarrow> bool" where
  "represents E d kind vci cur v A chunks \<longleftrightarrow>
     chunks_load E d kind vci chunks \<and>
     (\<forall>e \<le> unat cur. view (se_params E) (slices_of E d kind vci chunks) v e = span_target kind (nat_spans A) e)"

text \<open>The database has a record of every attestation, and so no two of them with one target.\<close>

definition recorded ::
  "(validator_index \<Rightarrow> epoch \<Rightarrow> (slasher_error, indexed_attestation_wrapper option) outcome) \<Rightarrow>
   validator_index \<Rightarrow> vote_span list \<Rightarrow> bool" where
  "recorded db v A \<longleftrightarrow> (\<forall>(s, t) \<in> set A. \<exists>w. db v t = Ok (Some w) \<and> votes w s t)"

text \<open>The verdict on an attestation \<open>w\<close> with span \<open>(s, t)\<close>.\<close>

definition verdict ::
  "(validator_index \<Rightarrow> epoch \<Rightarrow> (slasher_error, indexed_attestation_wrapper option) outcome) \<Rightarrow>
   ChunkKind \<Rightarrow> validator_index \<Rightarrow> vote_span list \<Rightarrow> vote_span \<Rightarrow> indexed_attestation_wrapper \<Rightarrow>
   att_slashing option \<Rightarrow> bool" where
  "verdict db kind v A a w sl \<longleftrightarrow>
     (case sl of
        None \<Rightarrow> \<forall>b \<in> set A. \<not> conflicts kind a b
      | Some x \<Rightarrow> \<exists>(s, t) \<in> set A. conflicts kind a (s, t) \<and>
          (\<exists>existing. db v t = Ok (Some existing) \<and> votes existing s t \<and> holds_pair x existing w))"

lemma nat_spans_Cons: "nat_spans ((s, t) # A) = (unat s, unat t) # nat_spans A"
  by (simp add: nat_spans_def)

lemma in_nat_spans: "(unat s, unat t) \<in> set (nat_spans A) \<longleftrightarrow> (s, t) \<in> set A"
proof -
  have "inj (\<lambda>(s :: epoch, t :: epoch). (unat s, unat t))"
    by (auto intro!: injI simp: word_unat_eq_iff)
  then show ?thesis
    using inj_image_mem_iff[of "\<lambda>(s :: epoch, t :: epoch). (unat s, unat t)" "(s, t)" "set A"]
    by (simp add: nat_spans_def)
qed

lemma nat_conflicts:
  "(\<exists>(s', t') \<in> set (nat_spans A). unat s < s' \<and> t' < unat t) \<longleftrightarrow> (\<exists>a \<in> set A. conflicts MinSpan (s, t) a)"
  "(\<exists>(s', t') \<in> set (nat_spans A). s' < unat s \<and> unat t < t') \<longleftrightarrow> (\<exists>a \<in> set A. conflicts MaxSpan (s, t) a)"
  by (force simp: nat_spans_def word_less_nat_alt)+

lemma conflict_found:
  assumes "recorded db v A" and "(unat s', unat r) \<in> set (nat_spans A)" and "votes w s t"
    and "conflicts kind (s, t) (s', r)"
  shows "\<exists>existing x u w'. db v r = Ok (Some existing) \<and> source_of existing = (Ok s' :: (slasher_error, epoch) outcome) \<and>
    build_slashing existing w = Ok (x, u, w') \<and> same_att w w' \<and> verdict db kind v A (s, t) w (Some x)"
proof -
  have A: "(s', r) \<in> set A" using assms(2) by (simp add: in_nat_spans)
  then obtain existing where e: "db v r = Ok (Some existing)" "votes existing s' r"
    using assms(1) by (force simp: recorded_def)
  obtain a1 a2 where "w_IndexedAttestation existing = Some a1" "w_IndexedAttestation w = Some a2"
    using votesD(3)[OF e(2)] votesD(3)[OF assms(3)] by blast
  then obtain x u w' where "build_slashing existing w = Ok (x, u, w')" "holds_pair x existing w" "same_att w w'"
    using build_slashing_total by blast
  with e A assms(4) votesD(1)[OF e(2)] show ?thesis
    by (fastforce simp: verdict_def)
qed

lemma Min_check:
  assumes "history_fits p" and "chunks_ok p g" and "sl_params m = p" and "sl_data m = g (unat s div unat (chunkSize p))"
    and "view p g v (unat s) = min_target (nat_spans A) (unat s)" and "recorded db v A"
    and "votes w s t" and "s \<le> t" and "unat t < unat (historyLength p)"
  shows "\<exists>sl w'. Min_CheckSlashable db m v w = Ok (sl, w') \<and> same_att w w' \<and> verdict db MinSpan v A (s, t) w sl"
proof -
  have b: "unat s \<le> 65535" "\<not> unat s + 65535 < unat t"
    using assms(8,9) history_fitsD(2)[OF assms(1)] by (simp_all add: word_le_nat_alt)
  obtain r where r: "chunkDataAtEpoch p (sl_data m) v s = Ok r" "unat r = min_target (nat_spans A) (unat s)"
    using chunkDataAtEpoch_view[OF history_fitsD(1)[OF assms(1)] assms(2) refl b(1), of v] assms(4,5) by auto
  have detects: "r < t \<longleftrightarrow> (\<exists>a \<in> set A. conflicts MinSpan (s, t) a)"
    using min_span.best_detects[where e = "unat s" and t = "unat t" and A = "nat_spans A"] b(2) r(2)
    by (simp add: min_target_def word_less_nat_alt nat_conflicts)
  note run = Min_CheckSlashable_def votesD(1,2)[OF assms(7)] assms(3) r(1)
  show ?thesis
  proof (cases "r < t")
    case False
    then show ?thesis using detects by (simp add: run not_less verdict_def)
  next
    case True
    obtain n where n: "(n, unat r) \<in> set (nat_spans A)" "unat s < n"
      using min_span.best_attained[where e = "unat s" and t = "unat t" and A = "nat_spans A"] True b(2) r(2)
      by (auto simp: min_target_def word_less_nat_alt)
    then obtain s' :: epoch where s': "n = unat s'" by (auto simp: nat_spans_def)
    then have c: "conflicts MinSpan (s, t) (s', r)" using n(2) True by (simp add: word_less_nat_alt)
    from conflict_found[OF assms(6) n(1)[unfolded s'] assms(7) c] True c show ?thesis
      by (auto simp: run not_le[symmetric])
  qed
qed

lemma Max_check:
  assumes "history_fits p" and "chunks_ok p g" and "sl_params m = p" and "sl_data m = g (unat s div unat (chunkSize p))"
    and "view p g v (unat s) = max_target (nat_spans A) (unat s)" and "recorded db v A"
    and "votes w s t" and "s \<le> t" and "unat t < unat (historyLength p)"
  shows "\<exists>sl w'. Max_CheckSlashable db m v w = Ok (sl, w') \<and> same_att w w' \<and> verdict db MaxSpan v A (s, t) w sl"
proof -
  have b: "unat s \<le> 65535" "\<not> unat t < unat s"
    using assms(8,9) history_fitsD(2)[OF assms(1)] by (simp_all add: word_le_nat_alt)
  obtain r where r: "chunkDataAtEpoch p (sl_data m) v s = Ok r" "unat r = max_target (nat_spans A) (unat s)"
    using chunkDataAtEpoch_view[OF history_fitsD(1)[OF assms(1)] assms(2) refl b(1), of v] assms(4,5) by auto
  have detects: "t < r \<longleftrightarrow> (\<exists>a \<in> set A. conflicts MaxSpan (s, t) a)"
    using max_span.best_detects[where e = "unat s" and t = "unat t" and A = "nat_spans A"] b(2) r(2)
    by (simp add: max_target_def word_less_nat_alt nat_conflicts)
  note run = Max_CheckSlashable_def votesD(1,2)[OF assms(7)] assms(3) r(1)
  show ?thesis
  proof (cases "t < r")
    case False
    then show ?thesis using detects by (simp add: run not_less verdict_def)
  next
    case True
    obtain n where n: "(n, unat r) \<in> set (nat_spans A)" "n < unat s"
      using max_span.best_attained[where e = "unat s" and t = "unat t" and A = "nat_spans A"] True b(2) r(2)
      by (auto simp: max_target_def word_less_nat_alt)
    then obtain s' :: epoch where s': "n = unat s'" by (auto simp: nat_spans_def)
    then have c: "conflicts MaxSpan (s, t) (s', r)" using n(2) True by (simp add: word_less_nat_alt)
    from conflict_found[OF assms(6) n(1)[unfolded s'] assms(7) c] True c show ?thesis
      by (auto simp: run not_le[symmetric])
  qed
qed

text \<open>The part of \<open>applyAttestationForValidator\<close> after the check: where no slashing was found, the spans advance.\<close>

definition advance ::
  "('d, 'z) slasher_env_scheme \<Rightarrow> 'd \<Rightarrow> ChunkKind \<Rightarrow> u64 \<Rightarrow> validator_index \<Rightarrow> epoch \<Rightarrow> epoch \<Rightarrow> epoch \<Rightarrow> chunker \<Rightarrow>
   chunk_map \<Rightarrow> (slasher_error, chunk_map) outcome" where
  "advance E d kind vci v cur s t c chunks =
     obind (StartEpoch c s cur) (\<lambda>start.
       case start of None \<Rightarrow> Ok chunks
       | Some e \<Rightarrow> update_chunks (unat cur + 2) E d kind vci v cur t e chunks)"

lemma walked_represents:
  assumes "se_params E = p" and "represents E d kind vci cur v A chunks"
    and "walked_all better E d kind vci v t es chunks chunks'"
    and "snd (span_walk better t es (view p (slices_of E d kind vci chunks) v)) =
      (\<lambda>e. if e \<in> set es then span_target kind (nat_spans B) e else view p (slices_of E d kind vci chunks) v e)"
    and "\<And>e. e \<notin> set es \<Longrightarrow> e \<le> unat cur \<Longrightarrow> span_target kind (nat_spans B) e = span_target kind (nat_spans A) e"
  shows "represents E d kind vci cur v B chunks' \<and>
    other_rows p v (slices_of E d kind vci chunks) (slices_of E d kind vci chunks')"
  using assms by (auto simp: represents_def walked_all_def)

lemma Min_advance:
  assumes "se_params E = p" and "history_fits p" and "unat cur < unat (historyLength p)"
    and "represents E d MinSpan vci cur v A chunks" and "s \<le> t" and "t \<le> cur" and "sl_params m = p"
  shows "\<exists>chunks'. advance E d MinSpan vci v cur s t (MinSpanChunksSlice m) chunks = Ok chunks' \<and>
    represents E d MinSpan vci cur v ((s, t) # A) chunks' \<and>
    other_rows p v (slices_of E d MinSpan vci chunks) (slices_of E d MinSpan vci chunks')"
proof (cases "s = 0")
  case True
  then show ?thesis using assms(4)
    by (simp add: advance_def Min_StartEpoch_def represents_def nat_spans_Cons min_target_def min_span.best_Cons)
next
  case False
  let ?f = "view p (slices_of E d MinSpan vci chunks) v"
  have s1: "unat (s - 1) = unat s - 1" "Suc (unat (s - 1)) = unat s" "1 \<le> s"
    using False unat_sub_u64[of 1 s] by (simp_all add: word_le_nat_alt unat_gt_0 word_gt_0 Suc_le_eq)
  have le: "unat s \<le> unat t" "unat t \<le> unat cur" using assms(5,6) by (simp_all add: word_le_nat_alt)
  have "\<not> historyLength p < cur" using assms(3) by (simp add: word_less_nat_alt)
  then have start: "Min_StartEpoch m s cur = Ok (Some (s - 1))"
    using False s1(3) by (simp add: Min_StartEpoch_def assms(7) epoch_arith.panicking_eq)
  have "unat (s - 1) div unat (chunkSize p) < unat cur + 2"
    using div_le_dividend[of "unat (s - 1)" "unat (chunkSize p)"] s1 le by linarith
  then obtain chunks' where u: "update_chunks (unat cur + 2) E d MinSpan vci v cur t (s - 1) chunks = Ok chunks'"
    and w: "walked_all (<) E d MinSpan vci v (unat t) (rev [0..<unat s]) chunks chunks'"
    using update_chunks_min[OF assms(1,2) _ assms(3), of d vci chunks "s - 1" t "unat cur + 2" v] assms(4) s1 le
    by (auto simp: represents_def)
  have "snd (span_walk (<) (unat t) (rev [0..<unat s]) ?f) =
      (\<lambda>e. if e \<in> set (rev [0..<unat s]) then span_target MinSpan (nat_spans ((s, t) # A)) e else ?f e)"
    unfolding nat_spans_Cons span_target.simps min_target_def
    using assms(4) le
    by (intro min_span.walk_best) (auto simp: represents_def assms(1) min_target_def sorted_wrt_rev)
  then have "represents E d MinSpan vci cur v ((s, t) # A) chunks' \<and>
      other_rows p v (slices_of E d MinSpan vci chunks) (slices_of E d MinSpan vci chunks')"
    by (rule walked_represents[OF assms(1,4) w])
      (simp add: nat_spans_Cons min_target_def min_span.best_Cons)
  then show ?thesis using start u by (simp add: advance_def)
qed

lemma Max_advance:
  assumes "se_params E = p" and "history_fits p" and "unat cur < unat (historyLength p)"
    and "represents E d MaxSpan vci cur v A chunks" and "s \<le> t" and "t \<le> cur" and "sl_params m = p"
  shows "\<exists>chunks'. advance E d MaxSpan vci v cur s t (MaxSpanChunksSlice m) chunks = Ok chunks' \<and>
    represents E d MaxSpan vci cur v ((s, t) # A) chunks' \<and>
    other_rows p v (slices_of E d MaxSpan vci chunks) (slices_of E d MaxSpan vci chunks')"
proof (cases "s < cur")
  case False
  then have "\<not> unat s < e" if "e \<le> unat cur" for e using that by (simp add: word_less_nat_alt)
  moreover have "cur \<le> s" using False by simp
  ultimately show ?thesis using assms(4)
    by (simp add: advance_def Max_StartEpoch_def represents_def nat_spans_Cons max_target_def max_span.best_Cons)
next
  case True
  let ?f = "view p (slices_of E d MaxSpan vci chunks) v"
  have s1: "unat (s + 1) = Suc (unat s)" by (rule unat_Suc_u64[OF True])
  have le: "unat s < unat cur" "unat t \<le> unat cur" using True assms(6) by (simp_all add: word_le_nat_alt word_less_nat_alt)
  have "unat s + 1 \<le> unat cur" using le(1) by simp
  from le_less_trans[OF this unat_less_2p64] have "unat s + 1 < 2 ^ 64" by simp
  then have start: "Max_StartEpoch m s cur = Ok (Some (s + 1))"
    using True by (simp add: Max_StartEpoch_def epoch_arith.panicking_eq not_le[symmetric])
  have "unat cur div unat (chunkSize p) < unat (s + 1) div unat (chunkSize p) + (unat cur + 2)"
    using div_le_dividend[of "unat cur" "unat (chunkSize p)"] by linarith
  then obtain chunks' where u: "update_chunks (unat cur + 2) E d MaxSpan vci v cur t (s + 1) chunks = Ok chunks'"
    and w: "walked_all (>) E d MaxSpan vci v (unat t) [Suc (unat s)..<Suc (unat cur)] chunks chunks'"
    using update_chunks_max[OF assms(1,2,3) le(2), of d vci chunks "s + 1" "unat cur + 2" v] assms(4) s1 le
    by (auto simp: represents_def simp del: upt_Suc)
  have "snd (span_walk (>) (unat t) [Suc (unat s)..<Suc (unat cur)] ?f) =
      (\<lambda>e. if e \<in> set [Suc (unat s)..<Suc (unat cur)] then span_target MaxSpan (nat_spans ((s, t) # A)) e else ?f e)"
    unfolding nat_spans_Cons span_target.simps max_target_def
    using assms(4) le
    by (intro max_span.walk_best) (auto simp: represents_def assms(1) max_target_def simp del: upt_Suc)
  then have "represents E d MaxSpan vci cur v ((s, t) # A) chunks' \<and>
      other_rows p v (slices_of E d MaxSpan vci chunks) (slices_of E d MaxSpan vci chunks')"
    by (rule walked_represents[OF assms(1,4) w])
      (auto simp: nat_spans_Cons max_target_def max_span.best_Cons simp del: upt_Suc)
  then show ?thesis using start u by (simp add: advance_def)
qed

lemma applyAttestation_eq:
  assumes "votes w s t" and "chunkIndex (se_params E) s = (Ok i :: (slasher_error, u64) outcome)" and "chunk_for E d kind vci chunks i = Ok c"
    and "CheckSlashable (db_AttestationRecord (se_db E) d) c v w = Ok (sl, w')"
  shows "applyAttestationForValidator E d kind vci v cur w chunks =
    (if sl \<noteq> None then Ok (sl, w', chunks)
     else obind (advance E d kind vci v cur s t c chunks) (\<lambda>chunks'. Ok (None, w', chunks')))"
proof (cases "StartEpoch c s cur")
  case (Ok start)
  then show ?thesis
    by (cases start) (simp_all add: applyAttestationForValidator_def votesD(1,2)[OF assms(1)] assms(2-4) advance_def)
qed (simp_all add: applyAttestationForValidator_def votesD(1,2)[OF assms(1)] assms(2-4) advance_def)

lemma applyAttestation_exact:
  assumes "history_fits (se_params E)" and "cur < historyLength (se_params E)"
    and "represents E d kind vci cur v A chunks" and "recorded (db_AttestationRecord (se_db E) d) v A"
    and "votes w s t" and "s \<le> t" and "t \<le> cur"
  shows "\<exists>sl w' chunks'. applyAttestationForValidator E d kind vci v cur w chunks = Ok (sl, w', chunks') \<and>
    same_att w w' \<and> verdict (db_AttestationRecord (se_db E) d) kind v A (s, t) w sl \<and>
    represents E d kind vci cur v (if sl = None then (s, t) # A else A) chunks' \<and>
    other_rows (se_params E) v (slices_of E d kind vci chunks) (slices_of E d kind vci chunks')"
proof -
  let ?p = "se_params E" and ?g = "slices_of E d kind vci chunks"
  let ?i = "unat s div unat (chunkSize ?p)" and ?db = "db_AttestationRecord (se_db E) d"
  have le: "unat s \<le> unat cur" "unat t < unat (historyLength ?p)" "unat cur < unat (historyLength ?p)"
    using assms(2,6,7) by (simp_all add: word_le_nat_alt word_less_nat_alt)
  have h: "unat s < unat (historyLength ?p)" using le by linarith
  note idx = chunkIndex_in_history(1)[OF history_fitsD(1)[OF assms(1)] h]
  have load: "chunks_load E d kind vci chunks" and view: "view ?p ?g v (unat s) = span_target kind (nat_spans A) (unat s)"
    using assms(3) le(1) by (simp_all add: represents_def)
  obtain m where m: "chunk_for E d kind vci chunks (of_nat ?i) = Ok (span_chunk kind m)"
      "sl_params m = ?p" "sl_data m = ?g ?i"
    by (rule chunk_get[OF load epoch_chunk_counted[OF h]])
  obtain sl w' where check: "CheckSlashable ?db (span_chunk kind m) v w = Ok (sl, w')"
      "same_att w w'" "verdict ?db kind v A (s, t) w sl"
    using Min_check[OF assms(1) slices_ok[OF load] m(2,3) _ assms(4,5,6) le(2)]
      Max_check[OF assms(1) slices_ok[OF load] m(2,3) _ assms(4,5,6) le(2)] view
    by (cases kind) auto
  obtain chunks' where adv: "advance E d kind vci v cur s t (span_chunk kind m) chunks = Ok chunks'"
      "represents E d kind vci cur v ((s, t) # A) chunks'" "other_rows ?p v ?g (slices_of E d kind vci chunks')"
    using Min_advance[OF refl assms(1) le(3) _ assms(6,7) m(2), of d vci v A chunks]
      Max_advance[OF refl assms(1) le(3) _ assms(6,7) m(2), of d vci v A chunks] assms(3) by (cases kind) auto
  show ?thesis
    using applyAttestation_eq[OF assms(5) idx m(1) check(1), of cur] check(2,3) adv assms(3)
    by (cases sl) auto
qed

section \<open>An example database\<close>

text \<open>A database without chunks, which keeps the attestations of a list for every validator.\<close>

definition example_att :: "vote_span \<Rightarrow> indexed_attestation_wrapper" where
  "example_att a =
     \<lparr>w_IndexedAttestation = Some (IndexedAttestation
        \<lparr>AttestingIndices = [0],
         Data = Some \<lparr>d_Slot = 0, d_CommitteeIndex = 0, d_BeaconBlockRoot = [],
           d_Source = Some \<lparr>c_Epoch = fst a, c_Root = []\<rparr>, d_Target = Some \<lparr>c_Epoch = snd a, c_Root = []\<rparr>\<rparr>,
         Signature = []\<rparr>),
      w_DataRoot = ucast (snd a)\<rparr>"

definition example_db :: "vote_span list \<Rightarrow> unit slasher_db" where
  "example_db A =
     \<lparr>db_SaveLastEpochWritten = (\<lambda>_. ret ()), db_LastEpochWritten = (\<lambda>_ _. Ok []),
      db_SaveAttestationRecords = (\<lambda>_. ret ()),
      db_AttestationRecord = (\<lambda>_ v t. Ok (map_option example_att (find (\<lambda>a. snd a = t) A))),
      db_CheckAttesterDoubleVotes = (\<lambda>_ _. Ok []),
      db_LoadSlasherChunks = (\<lambda>_ _ keys. Ok (map (\<lambda>_. []) keys, map (\<lambda>_. False) keys)),
      db_SaveSlasherChunks = (\<lambda>_ _ _. ret ()),
      db_CheckDoubleBlockProposals = (\<lambda>_ _. Ok []),
      db_SaveBlockProposals = (\<lambda>_. ret ()),
      db_PruneAttestationsAtEpoch = (\<lambda>_. ret 0),
      db_PruneProposalsAtEpoch = (\<lambda>_. ret 0), db_Migrate = (\<lambda>_ _ _. ret ())\<rparr>"

definition example_slasher :: "vote_span list \<Rightarrow> unit slasher_env" where
  "example_slasher A =
     \<lparr>se_db = example_db A, se_params = NewParams 2 1 8, se_config = mainnetBeaconConfig,
      MarshalUint64 = put_le 8, slashing_root = (\<lambda>_. Ok 0), data_root = (\<lambda>_. Ok 0), header_root = (\<lambda>_. Ok 0),
      map_order = (\<lambda>ks. ks), slashing_order = (\<lambda>m. m), head_state = Ok (),
      num_validators = 1, head_slot = 0,
      verifyAttSignature = (\<lambda>_. True), verifyBlockSignature = (\<lambda>_. True)\<rparr>"

lemma votes_example_att: "votes (example_att (s, t)) s t"
  by (simp add: votes_def source_of_def target_of_def w_data_def example_att_def)

text \<open>Before anything is on disk the spans stand for no attestation.\<close>

definition empty_chunk :: "slasher_params \<Rightarrow> ChunkKind \<Rightarrow> span_slice" where
  "empty_chunk p kind = \<lparr>sl_params = p,
     sl_data = replicate (unat (chunkSize p) * unat (validatorChunkSize p))
       (case kind of MinSpan \<Rightarrow> Min_NeutralElement | MaxSpan \<Rightarrow> Max_NeutralElement)\<rparr>"

lemma represents_empty:
  assumes "history_fits (se_params E)" and "cur < historyLength (se_params E)"
    and "\<And>i. i < chunk_count (se_params E) \<Longrightarrow>
      chunk_for E d kind vci chunks (of_nat i) = Ok (span_chunk kind (empty_chunk (se_params E) kind))"
  shows "represents E d kind vci cur v [] chunks"
proof -
  let ?p = "se_params E"
  have "view ?p (slices_of E d kind vci chunks) v e = span_target kind [] e" if "e \<le> unat cur" for e
  proof -
    have "e < unat (historyLength ?p)" using that assms(2) by (simp add: word_less_nat_alt)
    note c = epoch_chunk_counted[OF this]
    note b = cell_no_bound[OF history_fitsD(1)[OF assms(1)], of v e]
    show ?thesis
      using assms(3)[OF c] c b
      by (cases kind) (simp_all add: view_def slices_of_def empty_chunk_def Min_NeutralElement_def
          Max_NeutralElement_def min_target_def max_target_def span_best_def)
  qed
  then show ?thesis
    using assms(3) by (auto simp: represents_def nat_spans_def chunks_load_def empty_chunk_def)
qed

lemma example_chunk:
  assumes "i < 4"
  shows "chunk_for (example_slasher A) () MinSpan 0 [] (of_nat i) =
    Ok (span_chunk MinSpan (empty_chunk (NewParams 2 1 8) MinSpan))"
proof -
  from assms have "i = 0 \<or> i = 1 \<or> i = 2 \<or> i = 3" by linarith
  then show ?thesis
    by (auto simp: chunk_for_def getChunkFromDatabase_def loadChunksFromDisk_def flatSliceID_def
        epoch_arith.panicking_eq example_slasher_def example_db_def NewParams_def init_chunk_def
        EmptyMinSpanChunksSlice_def empty_chunk_def)
qed

section \<open>Properties\<close>

text \<open>C17: Surround votes are detected exactly. When the spans of a validator stand for the attestations seen
  so far and the database has their records, applying an attestation that passed the filter succeeds;
  it reports a slashing if and only if the attestation surrounds an earlier one (min spans) or is
  surrounded by one (max spans); the slashing holds such a pair, lower data root first; and afterwards
  the spans stand for the earlier attestations and, if it was not slashable, this one too, while the
  spans of the other validators in the chunk have not changed. The current epoch must lie in the first
  history.\<close>

theorem surround_votes_detected:
  assumes "history_fits (se_params E)" and "cur < historyLength (se_params E)"
    and "represents E d kind vci cur v A chunks" and "recorded (db_AttestationRecord (se_db E) d) v A"
    and "votes w s t" and "s \<le> t" and "t \<le> cur"
  shows "\<exists>sl w' chunks'. applyAttestationForValidator E d kind vci v cur w chunks = Ok (sl, w', chunks') \<and>
    (sl = None \<longleftrightarrow> (\<forall>b \<in> set A. \<not> conflicts kind (s, t) b)) \<and>
    (\<forall>x. sl = Some x \<longrightarrow> (\<exists>s' t' existing. (s', t') \<in> set A \<and> conflicts kind (s, t) (s', t') \<and>
       db_AttestationRecord (se_db E) d v t' = Ok (Some existing) \<and> votes existing s' t' \<and>
       holds_pair x existing w)) \<and>
    represents E d kind vci cur v (if sl = None then (s, t) # A else A) chunks' \<and>
    other_rows (se_params E) v (slices_of E d kind vci chunks) (slices_of E d kind vci chunks')"
proof -
  obtain sl w' chunks' where r: "applyAttestationForValidator E d kind vci v cur w chunks = Ok (sl, w', chunks')"
      "verdict (db_AttestationRecord (se_db E) d) kind v A (s, t) w sl"
      "represents E d kind vci cur v (if sl = None then (s, t) # A else A) chunks'"
      "other_rows (se_params E) v (slices_of E d kind vci chunks) (slices_of E d kind vci chunks')"
    using applyAttestation_exact[OF assms] by blast
  then show ?thesis by (cases sl) (fastforce simp: verdict_def)+
qed

lemma example_params: "se_params (example_slasher A) = NewParams 2 1 8"
  by (simp add: example_slasher_def)

lemma example_fits: "history_fits (NewParams 2 1 8)" "chunk_count (NewParams 2 1 8) = 4"
  by (simp_all add: history_fits_def params_ok_def NewParams_def chunk_count_def)

theorem surround_votes_witness:
  "\<exists>w1 chunks1 x w2 chunks2.
     applyAttestationForValidator (example_slasher [(3, 4)]) () MinSpan 0 0 7 (example_att (3, 4)) [] =
       Ok (None, w1, chunks1) \<and>
     applyAttestationForValidator (example_slasher [(3, 4)]) () MinSpan 0 0 7 (example_att (1, 5)) chunks1 =
       Ok (Some x, w2, chunks2)"
proof -
  let ?E = "example_slasher [(3, 4)]"
  note fits = example_fits(1)[folded example_params[of "[(3, 4)]"]]
  have cur: "(7 :: epoch) < historyLength (se_params ?E)" by (simp add: example_params NewParams_def)
  have "represents ?E () MinSpan 0 7 0 [] []"
    by (rule represents_empty[OF fits cur]) (simp add: example_params example_fits example_chunk)
  from surround_votes_detected[OF fits cur this _ votes_example_att[of 3 4]]
  obtain w1 chunks1 where 1: "applyAttestationForValidator ?E () MinSpan 0 0 7 (example_att (3, 4)) [] =
      Ok (None, w1, chunks1)" and r: "represents ?E () MinSpan 0 7 0 [(3, 4)] chunks1"
    by (auto simp: recorded_def)
  have "recorded (db_AttestationRecord (se_db ?E) ()) 0 [(3, 4)]"
    by (simp add: recorded_def example_slasher_def example_db_def votes_example_att)
  from surround_votes_detected[OF fits cur r this votes_example_att[of 1 5]]
  obtain x w2 chunks2 where "applyAttestationForValidator ?E () MinSpan 0 0 7 (example_att (1, 5)) chunks1 =
      Ok (Some x, w2, chunks2)"
    by auto
  with 1 show ?thesis by blast
qed

section \<open>After the first history\<close>

text \<open>All chunks are min span chunks with the parameters of the service.\<close>

definition min_chunks :: "('d, 'z) slasher_env_scheme \<Rightarrow> 'd \<Rightarrow> u64 \<Rightarrow> chunk_map \<Rightarrow> bool" where
  "min_chunks E d vci chunks \<longleftrightarrow> (\<forall>j c. chunk_for E d MinSpan vci chunks j = Ok c \<longrightarrow>
     (\<exists>m. c = MinSpanChunksSlice m \<and> sl_params m = se_params E))"

lemma Min_next_in_first_history:
  assumes "params_ok p" and "sl_params m = p" and "Min_NextChunkStartEpoch m e = Ok e'"
  shows "unat e' < unat (historyLength p)"
proof -
  define i where "i = e mod historyLength p div chunkSize p"
  let ?j = "if i > 0 then i - 1 else i" and ?C = "unat (chunkSize p)" and ?H = "unat (historyLength p)"
  note pos = params_okD[OF assms(1)]
  have "lastEpoch p ?j = (Ok e' :: (slasher_error, epoch) outcome)"
    using assms(3) by (simp add: Min_NextChunkStartEpoch_def assms(2) chunkIndex_eq[OF assms(1)] i_def split: if_splits)
  then have e': "e' = ?j * chunkSize p + (chunkSize p - 1)"
    by (simp add: lastEpoch_def firstEpoch_def epoch_arith.panicking_eq split: if_splits)
  have C1: "unat (chunkSize p - 1) = ?C - 1"
    using unat_sub_u64[of 1 "chunkSize p"] pos(4) by (simp add: word_le_nat_alt)
  have "unat i = unat e mod ?H div ?C" by (simp add: i_def unat_div unat_mod)
  then have "unat i * ?C \<le> unat e mod ?H" by simp
  then have iC: "unat i * ?C < ?H" using pos(6) by (meson le_less_trans mod_less_divisor)
  have j: "unat ?j * ?C + (?C - 1) < ?H"
  proof (cases "i > 0")
    case True
    then have "unat (i - 1) = unat i - 1" "0 < unat i"
      using unat_sub_u64[of 1 i] by (simp_all add: word_less_nat_alt word_le_nat_alt)
    then show ?thesis using iC pos(4) True by (cases "unat i") simp_all
  next
    case False
    then have "i = 0" by (simp add: word_gt_0)
    then show ?thesis using pos(4,7) by simp
  qed
  then have "unat e' = unat ?j * ?C + (?C - 1)"
    using less_trans[OF j unat_less_2p64[of "historyLength p"]] C1 unfolding e' by (simp add: unat_word_ariths)
  then show ?thesis using j by simp
qed

lemma Min_Update_too_old:
  assumes "params_ok (sl_params m)" and "unat e < unat (historyLength (sl_params m))"
    and "2 * unat (historyLength (sl_params m)) \<le> Suc (unat cur)"
  shows "Min_Update m ci cur v e t = Ok (False, m)"
proof -
  let ?H = "historyLength (sl_params m)"
  have H1: "unat (?H - 1) = unat ?H - 1"
    using unat_sub_u64[of 1 ?H] params_okD(6)[OF assms(1)] by (simp add: word_le_nat_alt)
  then have c: "?H - 1 < cur" using assms(3) params_okD(6)[OF assms(1)] by (simp add: word_less_nat_alt)
  then have "unat (cur - (?H - 1)) = unat cur - (unat ?H - 1)"
    using H1 by (simp add: unat_sub_u64 less_imp_le)
  then have "\<not> cur - (?H - 1) \<le> e" using assms(2,3) by (simp add: word_le_nat_alt)
  then have "min_update_loop (Suc n) (sl_params m) ci (cur - (?H - 1)) v t e (sl_data m) = Ok (False, sl_data m)" for n
    by (simp add: min_update_loop.simps chunkIndex_eq[OF assms(1)])
  from this[of "Suc (unat e)"] show ?thesis using c by (simp add: Min_Update_def)
qed

lemma chunk_for_put: "chunk_for E d k vci (AList.update i c chunks) j = (if j = i then Ok c else chunk_for E d k vci chunks j)"
  by (simp add: chunk_for_def update_conv')

lemma update_chunks_one_chunk:
  assumes "params_ok (se_params E)" and "2 * unat (historyLength (se_params E)) \<le> Suc (unat cur)"
    and "min_chunks E d vci chunks" and "chunkIndex (se_params E) e = (Ok i :: (slasher_error, u64) outcome)"
    and "update_chunks n E d MinSpan vci v cur t e chunks = Ok chunks'" and "j \<noteq> i"
  shows "chunk_for E d MinSpan vci chunks' j = chunk_for E d MinSpan vci chunks j"
proof -
  obtain n1 where n1: "n = Suc n1" using assms(5) by (cases n) simp_all
  obtain c k c1 where c: "chunk_for E d MinSpan vci chunks i = Ok c" "Update c i cur v e t = Ok (k, c1)"
    and rest: "(if \<not> k then Ok (AList.update i c1 chunks) else obind (NextChunkStartEpoch c1 e) (\<lambda>next.
      update_chunks n1 E d MinSpan vci v cur t next (AList.update i c1 chunks))) = Ok chunks'"
    using assms(5) by (auto simp: n1 assms(4) outcome_iff Let_def)
  obtain m where m: "c = MinSpanChunksSlice m" "sl_params m = se_params E"
    using assms(3) c(1) by (auto simp: min_chunks_def)
  obtain dt where c1: "c1 = MinSpanChunksSlice (m\<lparr>sl_data := dt\<rparr>)"
    using c(2) by (auto simp: m Min_Update_def outcome_iff Let_def)
  show ?thesis
  proof (cases k)
    case False
    then show ?thesis using rest assms(6) by (auto simp: chunk_for_put)
  next
    case True
    let ?ch = "AList.update i c1 chunks"
    obtain e1 where e1: "Min_NextChunkStartEpoch (m\<lparr>sl_data := dt\<rparr>) e = Ok e1"
      "update_chunks n1 E d MinSpan vci v cur t e1 ?ch = Ok chunks'"
      using rest True by (auto simp: c1 outcome_iff)
    have h: "unat e1 < unat (historyLength (se_params E))"
      by (rule Min_next_in_first_history[OF assms(1) _ e1(1)]) (simp add: m(2))
    obtain n2 where n2: "n1 = Suc n2" using e1(2) by (cases n1) simp_all
    obtain i2 c2 k2 c3 where s: "chunk_for E d MinSpan vci ?ch i2 = Ok c2" "Update c2 i2 cur v e1 t = Ok (k2, c3)"
      and rest2: "(if \<not> k2 then Ok (AList.update i2 c3 ?ch) else obind (NextChunkStartEpoch c3 e1) (\<lambda>next.
        update_chunks n2 E d MinSpan vci v cur t next (AList.update i2 c3 ?ch))) = Ok chunks'"
      using e1(2) by (auto simp: n2 outcome_iff Let_def)
    obtain m2 where m2: "c2 = MinSpanChunksSlice m2" "sl_params m2 = se_params E"
      using assms(3) s(1) c1 m(2) by (auto simp: min_chunks_def chunk_for_put split: if_splits)
    have "\<not> k2 \<and> c3 = c2"
      using s(2) Min_Update_too_old[of m2 e1 cur] assms(1,2) h by (simp add: m2)
    then show ?thesis using rest2 s(1) assms(6) by (auto simp: chunk_for_put split: if_splits)
  qed
qed

lemma numeral_fuel:
  "min_update_loop (numeral k) p ci minEpoch v t e d =
     obind (chunkIndex p e) (\<lambda>i.
       if i = ci \<and> e \<ge> minEpoch then
         obind (chunkDataAtEpoch p d v e) (\<lambda>chunkTarget.
           if t < chunkTarget then
             obind (setChunkDataAtEpoch p d v e t)
               (min_update_loop (pred_numeral k) p ci minEpoch v t (if e > 0 then e - 1 else e))
           else Ok (False, d))
       else Ok (e \<ge> minEpoch, d))"
  "update_chunks (numeral k) E db kind vci v cur target start chunks =
     obind (chunkIndex (se_params E) start) (\<lambda>i.
     obind (chunk_for E db kind vci chunks i) (\<lambda>c.
     obind (Update c i cur v start target) (\<lambda>(keepGoing, c').
       let chunks' = AList.update i c' chunks in
       if \<not> keepGoing then Ok chunks'
       else obind (NextChunkStartEpoch c' start) (\<lambda>next.
         update_chunks (pred_numeral k) E db kind vci v cur target next chunks'))))"
  by (simp_all add: numeral_eq_Suc min_update_loop.simps)

lemmas cell_eval = chunkDataAtEpoch_def setChunkDataAtEpoch_def epochDistance_def setChunkRawDistance_def
  cellIndex_def validatorOffset_def chunkOffset_def ValidatorIndex_Mod_def epoch_arith.panicking_eq chunkIndex_def

lemma example_min_chunk:
  "chunk_for (example_slasher A) () MinSpan 0 [] i = Ok c \<Longrightarrow> c = MinSpanChunksSlice (empty_chunk (NewParams 2 1 8) MinSpan)"
  by (auto simp: chunk_for_def getChunkFromDatabase_def loadChunksFromDisk_def outcome_iff
      example_slasher_def example_db_def init_chunk_def EmptyMinSpanChunksSlice_def empty_chunk_def NewParams_def)

lemma empty_example_chunk:
  "empty_chunk (NewParams 2 1 8) MinSpan = \<lparr>sl_params = NewParams 2 1 8, sl_data = [65535, 65535]\<rparr>"
proof -
  have "replicate 2 x = [x, x]" for x :: u16 by (simp add: numeral_2_eq_2)
  then show ?thesis by (simp add: empty_chunk_def NewParams_def Min_NeutralElement_def)
qed

lemma two_not_le_one: "\<not> (2 :: u64) \<le> 1"
  by (simp add: word_le_nat_alt)

lemma example_wrapped_update:
  "\<exists>chunks'. update_chunks 20 (example_slasher A) () MinSpan 0 0 18 17 15 [] = Ok chunks'"
  using example_chunk[of 3 A, unfolded span_chunk.simps empty_example_chunk]
    example_chunk[of 2 A, unfolded span_chunk.simps empty_example_chunk]
  by (simp add: numeral_fuel cell_eval NewParams_def example_params Min_Update_def Min_NextChunkStartEpoch_def
      lastEpoch_def firstEpoch_def two_not_le_one chunk_for_def)

text \<open>C18: Once the current epoch is past twice the history, a min span update reaches one chunk only: after
  applying an attestation, every chunk but that of the epoch before its source is what it was, since
  \<open>NextChunkStartEpoch\<close> continues in the first history, where nothing is recent enough to update. So the
  check of a later attestation with a source in another chunk says what it said before, even if it
  surrounds the first one: the surround vote is missed.\<close>

theorem surround_vote_missed_after_history:
  assumes "params_ok (se_params E)" and "2 * unat (historyLength (se_params E)) \<le> Suc (unat cur)"
    and "min_chunks E d vci chunks" and "votes w s t" and "0 < s"
    and "applyAttestationForValidator E d MinSpan vci v cur w chunks = Ok (sl, w', chunks')"
    and "chunkIndex (se_params E) (s - 1) = (Ok i :: (slasher_error, u64) outcome)" and "j \<noteq> i"
  shows "chunk_for E d MinSpan vci chunks' j = chunk_for E d MinSpan vci chunks j"
proof -
  obtain k c where c: "chunkIndex (se_params E) s = (Ok k :: (slasher_error, u64) outcome)"
    "chunk_for E d MinSpan vci chunks k = Ok c"
    and "\<exists>w1. CheckSlashable (db_AttestationRecord (se_db E) d) c v w = Ok (sl, w1)"
    using assms(6) by (auto simp: applyAttestationForValidator_def votesD(1,2)[OF assms(4)] outcome_iff
        split: if_splits option.splits)
  then obtain w1 where chk: "CheckSlashable (db_AttestationRecord (se_db E) d) c v w = Ok (sl, w1)" by blast
  obtain m where m: "c = MinSpanChunksSlice m" "sl_params m = se_params E"
    using assms(3) c(2) by (auto simp: min_chunks_def)
  have "chunks' = chunks \<or> update_chunks (unat cur + 2) E d MinSpan vci v cur t (s - 1) chunks = Ok chunks'"
    using trans[OF applyAttestation_eq[OF assms(4) c chk, of cur, symmetric] assms(6)]
    by (auto simp: advance_def m Min_StartEpoch_def epoch_arith.panicking_eq outcome_iff Let_def
        simp del: update_chunks.simps split: if_splits option.splits)
  then show ?thesis
    using update_chunks_one_chunk[OF assms(1-3,7) _ assms(8)] by blast
qed

theorem surround_vote_missed_witness:
  "conflicts MinSpan (12, 18) (16, 17) \<and>
   (\<exists>w' chunks'. applyAttestationForValidator (example_slasher [(16, 17)]) () MinSpan 0 0 18 (example_att (16, 17)) [] =
       Ok (None, w', chunks') \<and>
     chunk_for (example_slasher [(16, 17)]) () MinSpan 0 chunks' 2 =
       chunk_for (example_slasher [(16, 17)]) () MinSpan 0 [] 2 \<and>
     (\<exists>w2. obind (chunk_for (example_slasher [(16, 17)]) () MinSpan 0 chunks' 2) (\<lambda>c.
        CheckSlashable (db_AttestationRecord (example_db [(16, 17)]) ()) c 0 (example_att (12, 18))) = Ok (None, w2)))"
proof -
  let ?E = "example_slasher [(16, 17)]"
  note chunk = example_chunk[of _ "[(16, 17)]", unfolded span_chunk.simps empty_example_chunk]
  have p: "params_ok (se_params ?E)" using history_fitsD(1)[OF example_fits(1)] by (simp add: example_params)
  obtain chunks' where u: "update_chunks 20 ?E () MinSpan 0 0 18 17 15 [] = Ok chunks'"
    using example_wrapped_update by blast
  have chk: "CheckSlashable (db_AttestationRecord (se_db ?E) ()) (MinSpanChunksSlice \<lparr>sl_params = NewParams 2 1 8, sl_data = [65535, 65535]\<rparr>)
      0 (example_att (16, 17)) = Ok (None, example_att (16, 17))"
    by (simp add: Min_CheckSlashable_def votesD[OF votes_example_att] cell_eval NewParams_def)
  have "chunkIndex (se_params ?E) 16 = Ok 0" by (simp add: example_params NewParams_def cell_eval)
  from applyAttestation_eq[OF votes_example_att this chunk[of 0, simplified] chk, of 18] u
  have run: "applyAttestationForValidator ?E () MinSpan 0 0 18 (example_att (16, 17)) [] =
      Ok (None, example_att (16, 17), chunks')"
    by (simp add: advance_def Min_StartEpoch_def NewParams_def epoch_arith.panicking_eq)
  moreover have keep: "chunk_for ?E () MinSpan 0 chunks' 2 = chunk_for ?E () MinSpan 0 [] 2"
    by (rule surround_vote_missed_after_history[OF p _ _ votes_example_att _ run, where i = 3])
      (auto simp: example_params NewParams_def cell_eval min_chunks_def dest!: example_min_chunk simp: empty_chunk_def)
  moreover have "obind (chunk_for ?E () MinSpan 0 chunks' 2) (\<lambda>c.
      CheckSlashable (db_AttestationRecord (example_db [(16, 17)]) ()) c 0 (example_att (12, 18))) =
      Ok (None, example_att (12, 18))"
    using chunk[of 2] unfolding keep
    by (simp add: Min_CheckSlashable_def votesD[OF votes_example_att] cell_eval NewParams_def)
  ultimately show ?thesis by auto
qed

end
