(* ===== verification/Slasher_Flush.thy ===== *)
theory Slasher_Flush
  imports Slasher_Store Slasher_Surround
begin

text \<open>
  Flushing span chunks to the database. The locale \<open>slasher_chunk_db\<close> is what the detection service relies on
  of the chunk methods of \<open>SlasherDatabase\<close>: loading returns the chunk stored under each key, and saving
  stores the given chunks and changes no other. Inside it the service's \<open>saveChunksToDisk\<close> is shown to
  keep what the spans stand for. The store of \<open>Slasher_KV\<close> is an instance.
\<close>

section \<open>What the service relies on\<close>

locale slasher_chunk_db =
  fixes db :: "'d slasher_db" and good :: "'d \<Rightarrow> bool"
    and chunk_at :: "'d \<Rightarrow> ChunkKind \<Rightarrow> bytes \<Rightarrow> u16 list option"
    and fits :: "bytes \<Rightarrow> u16 list \<Rightarrow> bool"
  assumes load: "good d \<Longrightarrow> db_LoadSlasherChunks db d kind keys =
      Ok (map (\<lambda>k. case chunk_at d kind k of None \<Rightarrow> [] | Some c \<Rightarrow> c) keys, map (\<lambda>k. chunk_at d kind k \<noteq> None) keys)"
    and save: "good d \<Longrightarrow> length keys = length chunks \<Longrightarrow> list_all2 fits keys chunks \<Longrightarrow>
      \<exists>d'. db_SaveSlasherChunks db kind keys chunks d = (Ok (), d') \<and> good d' \<and>
        (\<forall>kind'. chunk_at d' kind' =
           (if kind' = kind then chunk_at d kind ++ map_of (rev (zip keys chunks)) else chunk_at d kind'))"

section \<open>The keys of a flush\<close>

definition slice_key :: "('d, 'z) slasher_env_scheme \<Rightarrow> u64 \<Rightarrow> u64 \<Rightarrow> bytes" where
  "slice_key E vci i =
     (case flatSliceID (MarshalUint64 E) (se_params E) vci i :: (slasher_error, bytes) outcome of Ok k \<Rightarrow> k | _ \<Rightarrow> [])"

definition in_window :: "slasher_params \<Rightarrow> u64 \<Rightarrow> u64 \<Rightarrow> bool" where
  "in_window p vci i \<longleftrightarrow>
     unat i < unat (historyLength p) div unat (chunkSize p) \<and>
     unat vci * (unat (historyLength p) div unat (chunkSize p)) + unat i < 2 ^ 64"

lemma flatSliceID_key:
  assumes "params_ok (se_params E)" and "in_window (se_params E) vci i"
  shows "flatSliceID (MarshalUint64 E) (se_params E) vci i = (Ok (slice_key E vci i) :: (slasher_error, bytes) outcome)"
proof -
  have "\<exists>k. flatSliceID (MarshalUint64 E) (se_params E) vci i = (Ok (MarshalUint64 E k) :: (slasher_error, bytes) outcome) \<and>
      unat k = unat vci * (unat (historyLength (se_params E)) div unat (chunkSize (se_params E))) + unat i"
    by (rule flatSliceID_eq[OF assms(1)]) (use assms(2) in \<open>simp add: in_window_def\<close>)
  then show ?thesis by (auto simp: slice_key_def)
qed

lemma slice_key_inj:
  assumes "params_ok (se_params E)" and "inj (MarshalUint64 E)"
    and "in_window (se_params E) vci i" and "in_window (se_params E) vci' i'"
  shows "slice_key E vci i = slice_key E vci' i' \<longleftrightarrow> vci = vci' \<and> i = i'"
proof
  let ?w = "unat (historyLength (se_params E)) div unat (chunkSize (se_params E))"
  assume eq: "slice_key E vci i = slice_key E vci' i'"
  obtain k k' where k: "slice_key E vci i = MarshalUint64 E k" "unat k = unat vci * ?w + unat i"
    and k': "slice_key E vci' i' = MarshalUint64 E k'" "unat k' = unat vci' * ?w + unat i'"
    using flatSliceID_number[OF assms(1) flatSliceID_key[OF assms(1,3)]]
      flatSliceID_number[OF assms(1) flatSliceID_key[OF assms(1,4)]] by blast
  have "k = k'" using eq k(1) k'(1) assms(2) by (simp add: inj_eq)
  then have sum: "unat vci * ?w + unat i = unat vci' * ?w + unat i'" using k(2) k'(2) by simp
  have "unat i < ?w" "unat i' < ?w" using assms(3,4) by (simp_all add: in_window_def)
  then have "unat vci = unat vci'" "unat i = unat i'"
    using arg_cong[OF sum, of "\<lambda>x. x div ?w"] arg_cong[OF sum, of "\<lambda>x. x mod ?w"] by simp_all
  then show "vci = vci' \<and> i = i'" by (simp add: word_unat_eq_iff)
qed simp

text \<open>The chunks of a flush: in the window, of the given kind and of full length.\<close>

definition flushable ::
  "('d, 'z) slasher_env_scheme \<Rightarrow> (bytes \<Rightarrow> u16 list \<Rightarrow> bool) \<Rightarrow> ChunkKind \<Rightarrow> (u64 \<times> chunk_map) list \<Rightarrow> bool" where
  "flushable E fits kind by_vci \<longleftrightarrow>
     (\<forall>vci m i c. map_of by_vci vci = Some m \<and> map_of m i = Some c \<longrightarrow>
        in_window (se_params E) vci i \<and> fits (slice_key E vci i) (Chunk c) \<and>
        init_chunk (se_params E) kind True (Chunk c) = Ok c)"

definition flushed_at :: "('d, 'z) slasher_env_scheme \<Rightarrow> chunk_map \<Rightarrow> u64 \<Rightarrow> (bytes \<times> u16 list) list" where
  "flushed_at E m vci = map (\<lambda>i. (slice_key E vci i, Chunk (the (map_of m i)))) (range_keys E m)"

definition flushed :: "('d, 'z) slasher_env_scheme \<Rightarrow> (u64 \<times> chunk_map) list \<Rightarrow> (bytes \<times> u16 list) list" where
  "flushed E by_vci =
     concat (map (\<lambda>vci. flushed_at E (the (map_of by_vci vci)) vci) (range_keys E by_vci))"

lemma in_range_keys:
  assumes "\<And>ks. set (map_order E ks) = set ks"
  shows "i \<in> set (range_keys E m) \<longleftrightarrow> (\<exists>c. map_of m i = Some c)"
proof -
  have "i \<in> fst ` set m \<longleftrightarrow> map_of m i \<noteq> None" by (metis map_of_eq_None_iff)
  then show ?thesis by (auto simp: range_keys_def assms)
qed

lemma obind_Ok_right: "obind m Ok = m"
  by (cases m) simp_all

lemma ofold_pairs:
  assumes "\<And>x. x \<in> set xs \<Longrightarrow> f x = (\<lambda>(ks, cs). Ok (ks @ map fst (g x), cs @ map snd (g x)))"
  shows "ofold f xs (ks, cs) = Ok (ks @ map fst (concat (map g xs)), cs @ map snd (concat (map g xs)))"
  using assms by (induction xs arbitrary: ks cs) simp_all

lemma saveChunks_collect:
  assumes "params_ok (se_params E)" and "\<And>ks. set (map_order E ks) = set ks" and "flushable E fits kind by_vci"
  shows "saveChunksToDisk E kind by_vci s =
    on_db (db_SaveSlasherChunks (se_db E) kind (map fst (flushed E by_vci)) (map snd (flushed E by_vci))) s"
proof -
  have inner: "ofold (\<lambda>i (keys, chunks). case map_of m i of None \<Rightarrow> Ok (keys, chunks)
      | Some c \<Rightarrow> obind (flatSliceID (MarshalUint64 E) (se_params E) vci i) (\<lambda>key.
           Ok (keys @ [key], chunks @ [Chunk c]))) (range_keys E m) acc =
      (Ok (fst acc @ map fst (flushed_at E m vci), snd acc @ map snd (flushed_at E m vci)) ::
        (slasher_error, bytes list \<times> u16 list list) outcome)"
    if "map_of by_vci vci = Some m" for m vci acc
  proof (cases acc)
    case (Pair ks cs)
    have "ofold (\<lambda>i (keys, chunks). case map_of m i of None \<Rightarrow> Ok (keys, chunks)
      | Some c \<Rightarrow> obind (flatSliceID (MarshalUint64 E) (se_params E) vci i) (\<lambda>key.
           Ok (keys @ [key], chunks @ [Chunk c]))) (range_keys E m) (ks, cs) =
      (Ok (ks @ map fst (concat (map (\<lambda>i. [(slice_key E vci i, Chunk (the (map_of m i)))]) (range_keys E m))),
           cs @ map snd (concat (map (\<lambda>i. [(slice_key E vci i, Chunk (the (map_of m i)))]) (range_keys E m)))) ::
        (slasher_error, bytes list \<times> u16 list list) outcome)"
      by (rule ofold_pairs)
        (use that assms(3) in \<open>auto simp: in_range_keys[OF assms(2)] flushable_def flatSliceID_key[OF assms(1)] fun_eq_iff\<close>)
    then show ?thesis using Pair by (simp add: flushed_at_def concat_map_singleton comp_def)
  qed
  have "ofold (\<lambda>vci acc. case map_of by_vci vci of None \<Rightarrow> Ok acc
      | Some m \<Rightarrow> ofold (\<lambda>i (keys, chunks). case map_of m i of None \<Rightarrow> Ok (keys, chunks)
      | Some c \<Rightarrow> obind (flatSliceID (MarshalUint64 E) (se_params E) vci i) (\<lambda>key.
           Ok (keys @ [key], chunks @ [Chunk c]))) (range_keys E m) acc) (range_keys E by_vci) ([], []) =
      (Ok ([] @ map fst (flushed E by_vci), [] @ map snd (flushed E by_vci)) ::
        (slasher_error, bytes list \<times> u16 list list) outcome)"
    unfolding flushed_def by (rule ofold_pairs) (auto simp: in_range_keys[OF assms(2)] inner fun_eq_iff)
  then show ?thesis by (simp add: saveChunksToDisk_def proc_simps)
qed

lemma in_flushed_at:
  assumes "\<And>ks. set (map_order E ks) = set ks"
  shows "(k, x) \<in> set (flushed_at E m vci) \<longleftrightarrow> (\<exists>i c. map_of m i = Some c \<and> k = slice_key E vci i \<and> x = Chunk c)"
proof -
  have "(k, x) \<in> set (flushed_at E m vci) \<longleftrightarrow>
      (\<exists>i \<in> set (range_keys E m). k = slice_key E vci i \<and> x = Chunk (the (map_of m i)))"
    unfolding flushed_at_def set_map image_iff prod.inject ..
  then show ?thesis unfolding in_range_keys[OF assms] Bex_def by (metis option.sel)
qed

lemma in_flushed:
  assumes "\<And>ks. set (map_order E ks) = set ks"
  shows "(k, x) \<in> set (flushed E by_vci) \<longleftrightarrow>
    (\<exists>vci m i c. map_of by_vci vci = Some m \<and> map_of m i = Some c \<and> k = slice_key E vci i \<and> x = Chunk c)"
proof -
  have "(k, x) \<in> set (flushed E by_vci) \<longleftrightarrow>
      (\<exists>vci \<in> set (range_keys E by_vci). (k, x) \<in> set (flushed_at E (the (map_of by_vci vci)) vci))"
    unfolding flushed_def by simp
  also have "\<dots> \<longleftrightarrow> (\<exists>vci m. map_of by_vci vci = Some m \<and> (k, x) \<in> set (flushed_at E m vci))"
    unfolding Bex_def in_range_keys[OF assms] by (metis option.sel)
  finally show ?thesis unfolding in_flushed_at[OF assms] by blast
qed

lemma flushed_key:
  assumes "params_ok (se_params E)" and "inj (MarshalUint64 E)" and "\<And>ks. set (map_order E ks) = set ks"
    and "flushable E fits kind by_vci" and "in_window (se_params E) vci i"
  shows "map_of (rev (flushed E by_vci)) (slice_key E vci i) =
    (case map_of by_vci vci of None \<Rightarrow> None | Some m \<Rightarrow> map_option Chunk (map_of m i))"
proof -
  have win: "in_window (se_params E) vci' i'" if "map_of by_vci vci' = Some m" "map_of m i' = Some c" for vci' i' m c
    using assms(4) that unfolding flushable_def by blast
  have mem: "(slice_key E vci i, x) \<in> set (flushed E by_vci) \<longleftrightarrow>
      (\<exists>m c. map_of by_vci vci = Some m \<and> map_of m i = Some c \<and> x = Chunk c)" for x
    unfolding in_flushed[OF assms(3)] using slice_key_inj[OF assms(1,2,5) win] by blast
  show ?thesis
  proof (cases "map_of (rev (flushed E by_vci)) (slice_key E vci i)")
    case None
    then have "slice_key E vci i \<notin> fst ` set (flushed E by_vci)" unfolding map_of_eq_None_iff by simp
    then have "map_of m i = None" if "map_of by_vci vci = Some m" for m
      using that mem by (cases "map_of m i") (blast, metis fst_conv image_eqI)
    with None show ?thesis by (simp split: option.split)
  next
    case (Some x)
    then have "(slice_key E vci i, x) \<in> set (rev (flushed E by_vci))" by (rule map_of_SomeD)
    then obtain m c where "map_of by_vci vci = Some m" "map_of m i = Some c" "x = Chunk c"
      using mem unfolding set_rev by blast
    with Some show ?thesis by simp
  qed
qed

context slasher_chunk_db
begin

lemma getChunk:
  assumes "se_db E = db" and "good d" and "params_ok (se_params E)" and "in_window (se_params E) vci i"
  shows "getChunkFromDatabase E d kind vci i =
    (case chunk_at d kind (slice_key E vci i) of
       None \<Rightarrow> init_chunk (se_params E) kind False []
     | Some raw \<Rightarrow> init_chunk (se_params E) kind True raw)"
  unfolding getChunkFromDatabase_def loadChunksFromDisk_def
  by (simp add: flatSliceID_key[OF assms(3,4)] assms(1) load[OF assms(2)] obind_assoc obind_Ok_right split: option.splits)

lemma chunks_survive_flush:
  assumes "se_db E = db" and "good (sv_db s)" and "params_ok (se_params E)" and "inj (MarshalUint64 E)"
    and "\<And>ks. set (map_order E ks) = set ks" and "flushable E fits kind by_vci"
  shows "\<exists>s'. saveChunksToDisk E kind by_vci s = (Ok (), s') \<and> good (sv_db s') \<and> s' = s\<lparr>sv_db := sv_db s'\<rparr> \<and>
    (\<forall>vci i. in_window (se_params E) vci i \<longrightarrow>
       chunk_for E (sv_db s') kind vci [] i =
       chunk_for E (sv_db s) kind vci (case map_of by_vci vci of None \<Rightarrow> [] | Some m \<Rightarrow> m) i)"
proof -
  let ?kc = "flushed E by_vci"
  have "fits (fst x) (snd x)" if "x \<in> set ?kc" for x
    using that assms(6) by (auto simp: flushable_def flushed_def flushed_at_def in_range_keys[OF assms(5)])
  then have "list_all2 fits (map fst ?kc) (map snd ?kc)"
    by (simp add: list_all2_map1 list_all2_map2 list_all2_same)
  from save[OF assms(2) _ this, of kind] obtain d' where d': "db_SaveSlasherChunks db kind (map fst ?kc) (map snd ?kc) (sv_db s) = (Ok (), d')"
    "good d'" and at: "chunk_at d' kind = chunk_at (sv_db s) kind ++ map_of (rev ?kc)"
    by (auto simp: zip_map_fst_snd)
  have "saveChunksToDisk E kind by_vci s = (Ok (), s\<lparr>sv_db := d'\<rparr>)"
    using d'(1) by (simp add: saveChunks_collect[OF assms(3,5,6)] on_db_def assms(1) proc_simps)
  moreover have "chunk_for E d' kind vci [] i =
      chunk_for E (sv_db s) kind vci (case map_of by_vci vci of None \<Rightarrow> [] | Some m \<Rightarrow> m) i"
    if win: "in_window (se_params E) vci i" for vci i
  proof -
    let ?m = "case map_of by_vci vci of None \<Rightarrow> [] | Some m \<Rightarrow> m"
    have key: "map_of (rev ?kc) (slice_key E vci i) = map_option Chunk (map_of ?m i)"
      using flushed_key[OF assms(3,4,5,6) win] by (cases "map_of by_vci vci") simp_all
    note get = getChunk[OF assms(1) _ assms(3) win, of _ kind]
    show ?thesis
    proof (cases "map_of ?m i")
      case None
      then have "chunk_at d' kind (slice_key E vci i) = chunk_at (sv_db s) kind (slice_key E vci i)"
        using key by (simp add: at map_add_def)
      with None show ?thesis by (simp add: chunk_for_def get[OF d'(2)] get[OF assms(2)])
    next
      case (Some c)
      then have "init_chunk (se_params E) kind True (Chunk c) = Ok c"
        using assms(6) by (cases "map_of by_vci vci") (auto simp: flushable_def)
      with Some key show ?thesis by (simp add: chunk_for_def get[OF d'(2)] at)
    qed
  qed
  ultimately show ?thesis using d'(2) by (intro exI[of _ "s\<lparr>sv_db := d'\<rparr>"]) simp
qed

end

section \<open>The store of the slasher provides it\<close>

definition kv_chunk_at ::
  "('b, 'z) kv_env_scheme \<Rightarrow> 'b slasher_store \<Rightarrow> ChunkKind \<Rightarrow> bytes \<Rightarrow> u16 list option" where
  "kv_chunk_at K d kind key =
     (case bk_Get K (slasherChunks d) (ssz_MarshalUint8 K (kind_byte kind) @ key) of
        None \<Rightarrow> None
      | Some enc \<Rightarrow> (case decodeSlasherChunk K enc of Ok c \<Rightarrow> Some c | _ \<Rightarrow> None))"

definition kv_good :: "('b, 'z) kv_env_scheme \<Rightarrow> 'b slasher_store \<Rightarrow> bool" where
  "kv_good K d \<longleftrightarrow> bolt_ok K \<and> codec_ok K \<and>
     (\<forall>k enc. bk_Get K (slasherChunks d) k = Some enc \<longrightarrow> is_Ok (decodeSlasherChunk K enc))"

definition chunk_encoding :: "('b, 'z) kv_env_scheme \<Rightarrow> u16 list \<Rightarrow> bytes" where
  "chunk_encoding K chunk = snappy_Encode K (concat (map (ssz_MarshalUint16 K) chunk))"

definition kv_fits :: "('b, 'z) kv_env_scheme \<Rightarrow> bytes \<Rightarrow> u16 list \<Rightarrow> bool" where
  "kv_fits K key chunk \<longleftrightarrow>
     chunk \<noteq> [] \<and> length key < 32768 \<and> length (chunk_encoding K chunk) \<le> 2147483646"

lemma decode_u16s_concat:
  assumes "\<And>x. length (g x) = 2 \<and> f (g x) = x"
  shows "decode_u16s f (concat (map g chunk)) = chunk"
proof (induction chunk)
  case (Cons x xs)
  from assms[of x] obtain a b where "g x = [a, b]" by (auto simp: length_Suc_conv numeral_2_eq_2)
  with Cons assms[of x] show ?case by simp
qed simp

lemma length_concat_u16s: "(\<And>x. length (g x) = 2) \<Longrightarrow> length (concat (map g chunk)) = 2 * length chunk"
  by (induction chunk) simp_all

lemma chunk_roundtrip:
  assumes "codec_ok K"
  shows "decodeSlasherChunk K (chunk_encoding K chunk) = Ok chunk"
    and "chunk \<noteq> [] \<Longrightarrow> encodeSlasherChunk K chunk = Ok (chunk_encoding K chunk)"
proof -
  have u16: "length (ssz_MarshalUint16 K x) = 2 \<and> ssz_UnmarshallUint16 K (ssz_MarshalUint16 K x) = x" for x
    using assms by (simp add: codec_ok_def)
  show "decodeSlasherChunk K (chunk_encoding K chunk) = Ok chunk"
    using assms u16 by (simp add: decodeSlasherChunk_def chunk_encoding_def codec_ok_def length_concat_u16s
        decode_u16s_concat)
  show "encodeSlasherChunk K chunk = Ok (chunk_encoding K chunk)" if "chunk \<noteq> []"
  proof -
    have "length (concat (map (ssz_MarshalUint16 K) chunk)) = 2 * length chunk"
      by (rule length_concat_u16s) (simp add: u16)
    then show ?thesis
      unfolding encodeSlasherChunk_def chunk_encoding_def Let_def using that by (simp only:) simp
  qed
qed

lemma LoadSlasherChunks_eq:
  assumes "kv_good K d"
  shows "LoadSlasherChunks K d kind keys =
    Ok (map (\<lambda>k. case kv_chunk_at K d kind k of None \<Rightarrow> [] | Some c \<Rightarrow> c) keys,
        map (\<lambda>k. kv_chunk_at K d kind k \<noteq> None) keys)"
proof -
  let ?b = "ssz_MarshalUint8 K (kind_byte kind)"
  have "ofold (\<lambda>encodedKey (chunks, exists).
        case bk_Get K (slasherChunks d) encodedKey of
          None \<Rightarrow> Ok (chunks @ [[]], exists @ [False])
        | Some chunkBytes \<Rightarrow>
            obind (decodeSlasherChunk K chunkBytes) (\<lambda>chunk. Ok (chunks @ [chunk], exists @ [True])))
        (map (\<lambda>k. ?b @ k) keys) (cs, es) =
      Ok (cs @ map (\<lambda>k. case kv_chunk_at K d kind k of None \<Rightarrow> [] | Some c \<Rightarrow> c) keys,
          es @ map (\<lambda>k. kv_chunk_at K d kind k \<noteq> None) keys)" for cs es
  proof (induction keys arbitrary: cs es)
    case (Cons k keys)
    show ?case
    proof (cases "bk_Get K (slasherChunks d) (?b @ k)")
      case (Some enc)
      with assms have "is_Ok (decodeSlasherChunk K enc)" unfolding kv_good_def by blast
      then obtain c where "decodeSlasherChunk K enc = Ok c" by (cases "decodeSlasherChunk K enc") simp_all
      with Some Cons show ?thesis by (simp add: kv_chunk_at_def)
    qed (simp add: Cons kv_chunk_at_def)
  qed simp
  from this[of "[]" "[]"] show ?thesis by (simp add: LoadSlasherChunks_def Let_def)
qed

definition chunk_puts ::
  "('b, 'z) kv_env_scheme \<Rightarrow> ChunkKind \<Rightarrow> (bytes \<times> u16 list) list \<Rightarrow> (bytes \<times> bytes) list" where
  "chunk_puts K kind kcs = map (\<lambda>(k, c). (ssz_MarshalUint8 K (kind_byte kind) @ k, chunk_encoding K c)) kcs"

lemma accepted_chunk:
  assumes "codec_ok K" and "list_all2 (kv_fits K) keys chunks" and "(k, c) \<in> set (chunk_puts K kind (zip keys chunks))"
  shows "accepted k c"
proof -
  from assms(3) obtain k' c' where "(k', c') \<in> set (zip keys chunks)"
    and k: "k = ssz_MarshalUint8 K (kind_byte kind) @ k'" and c: "c = chunk_encoding K c'"
    by (auto simp: chunk_puts_def)
  with assms(2) have "kv_fits K k' c'" unfolding list_all2_iff by blast
  moreover have one: "length (ssz_MarshalUint8 K (kind_byte kind)) = 1" using assms(1) by (simp add: codec_ok_def)
  then have "k \<noteq> []" unfolding k by (metis append_is_Nil_conv length_0_conv zero_neq_one)
  ultimately show ?thesis using one by (simp add: accepted_def kv_fits_def c k)
qed

lemma SaveSlasherChunks_eq:
  assumes "bolt_ok K" and "codec_ok K" and "length keys = length chunks" and "list_all2 (kv_fits K) keys chunks"
  shows "SaveSlasherChunks K kind keys chunks d =
    (Ok (), d\<lparr>slasherChunks := fold (put_to K) (chunk_puts K kind (zip keys chunks)) (slasherChunks d)\<rparr>)"
proof -
  let ?b = "ssz_MarshalUint8 K (kind_byte kind)" and ?items = "chunk_puts K kind (zip keys chunks)"
  have fits: "kv_fits K k c" if "(k, c) \<in> set (zip keys chunks)" for k c
    using assms(4) that unfolding list_all2_iff by blast
  have items: "omap (\<lambda>(chunkKey, chunk). obind (encodeSlasherChunk K chunk) (\<lambda>encodedChunk.
      Ok (?b @ chunkKey, encodedChunk))) (zip keys chunks) = Ok ?items"
    unfolding chunk_puts_def
    by (rule omap_Ok) (use fits in \<open>auto simp: kv_fits_def chunk_roundtrip(2)[OF assms(2)]\<close>)
  have step: "(\<lambda>(k, c). put_in K slasherChunks slasherChunks_update k c) x d =
      (Ok (), d\<lparr>slasherChunks := put_to K x (slasherChunks d)\<rparr>)" if "x \<in> set ?items" for x d
  proof (cases x)
    case (Pair k c)
    with that have "accepted k c" using accepted_chunk[OF assms(2,4)] by blast
    with Pair show ?thesis by (simp add: put_in_accepted[OF assms(1)])
  qed
  have "for_each (batches ?items) (\<lambda>batch. tx (for_each (id batch) (\<lambda>(k, c).
      put_in K slasherChunks slasherChunks_update k c))) d =
    (Ok (), fold (\<lambda>x d. d\<lparr>slasherChunks := put_to K x (slasherChunks d)\<rparr>) (concat (map id (batches ?items))) d)"
    by (rule for_each_tx) (use set_batches step in blast, simp)
  also have "\<dots> = (Ok (), d\<lparr>slasherChunks := fold (put_to K) ?items (slasherChunks d)\<rparr>)"
  proof -
    have "fold (\<lambda>x d. d\<lparr>slasherChunks := put_to K x (slasherChunks d)\<rparr>) xs d =
        d\<lparr>slasherChunks := fold (put_to K) xs (slasherChunks d)\<rparr>" for xs d
      by (induction xs arbitrary: d) simp_all
    then show ?thesis by (simp add: concat_batches)
  qed
  finally show ?thesis using items assms(3) by (simp add: SaveSlasherChunks_def Let_def proc_simps)
qed

lemma chunk_key_eq_iff:
  assumes "codec_ok K"
  shows "ssz_MarshalUint8 K (kind_byte kind') @ key = ssz_MarshalUint8 K (kind_byte kind) @ k \<longleftrightarrow> kind' = kind \<and> key = k"
proof -
  have "length (ssz_MarshalUint8 K b) = 1" for b using assms unfolding codec_ok_def by blast
  then have "ssz_MarshalUint8 K (kind_byte kind') @ key = ssz_MarshalUint8 K (kind_byte kind) @ k \<longleftrightarrow>
      ssz_MarshalUint8 K (kind_byte kind') = ssz_MarshalUint8 K (kind_byte kind) \<and> key = k" by simp
  also have "ssz_MarshalUint8 K (kind_byte kind') = ssz_MarshalUint8 K (kind_byte kind) \<longleftrightarrow> kind_byte kind' = kind_byte kind"
    using assms unfolding codec_ok_def by (simp add: inj_eq)
  also have "kind_byte kind' = kind_byte kind \<longleftrightarrow> kind' = kind" by (cases kind; cases kind') simp_all
  finally show ?thesis .
qed

lemma map_of_chunk_puts:
  assumes "codec_ok K"
  shows "map_of (chunk_puts K kind kcs) (ssz_MarshalUint8 K (kind_byte kind') @ key) =
    (if kind' = kind then map_option (chunk_encoding K) (map_of kcs key) else None)"
proof (induction kcs)
  case (Cons kc kcs)
  obtain k c where kc: "kc = (k, c)" by force
  have "map_of (chunk_puts K kind (kc # kcs)) (ssz_MarshalUint8 K (kind_byte kind') @ key) =
      (if kind' = kind \<and> key = k then Some (chunk_encoding K c)
       else map_of (chunk_puts K kind kcs) (ssz_MarshalUint8 K (kind_byte kind') @ key))"
    unfolding kc chunk_puts_def list.map prod.case map_of.simps fst_conv snd_conv fun_upd_apply
      chunk_key_eq_iff[OF assms] ..
  also have "\<dots> = (if kind' = kind then map_option (chunk_encoding K) (map_of (kc # kcs) key) else None)"
    unfolding Cons kc by (cases "kind' = kind"; cases "key = k") simp_all
  finally show ?case .
qed (simp add: chunk_puts_def)

interpretation kv: slasher_chunk_db "kv_database K" "kv_good K" "kv_chunk_at K" "kv_fits K" for K
proof
  fix d kind keys assume "kv_good K d"
  then show "db_LoadSlasherChunks (kv_database K) d kind keys =
      Ok (map (\<lambda>k. case kv_chunk_at K d kind k of None \<Rightarrow> [] | Some c \<Rightarrow> c) keys,
          map (\<lambda>k. kv_chunk_at K d kind k \<noteq> None) keys)"
    by (simp add: kv_database_def LoadSlasherChunks_eq)
next
  fix d keys chunks kind
  assume good: "kv_good K d" and len: "length keys = length chunks" and fits: "list_all2 (kv_fits K) keys chunks"
  then have ok: "bolt_ok K" "codec_ok K" by (simp_all add: kv_good_def)
  define d' where "d' = d\<lparr>slasherChunks := fold (put_to K) (chunk_puts K kind (zip keys chunks)) (slasherChunks d)\<rparr>"
  have get: "bk_Get K (slasherChunks d') = bk_Get K (slasherChunks d) ++ map_of (chunk_puts K kind (rev (zip keys chunks)))"
  proof -
    have "bk_Get K (slasherChunks d') = bk_Get K (slasherChunks d) ++ map_of (rev (chunk_puts K kind (zip keys chunks)))"
      unfolding d'_def by simp (rule Get_fold_put_to[OF ok(1) accepted_chunk[OF ok(2) fits]])
    then show ?thesis unfolding chunk_puts_def rev_map .
  qed
  have "is_Ok (decodeSlasherChunk K enc)" if "bk_Get K (slasherChunks d') k = Some enc" for k enc
  proof (cases "map_of (chunk_puts K kind (rev (zip keys chunks))) k")
    case None
    with that good show ?thesis by (simp add: get map_add_def kv_good_def)
  next
    case (Some enc')
    then have "(k, enc') \<in> set (chunk_puts K kind (rev (zip keys chunks)))" by (rule map_of_SomeD)
    with that Some show ?thesis by (auto simp: get chunk_puts_def chunk_roundtrip(1)[OF ok(2)])
  qed
  with ok have "kv_good K d'" unfolding kv_good_def by blast
  moreover have "kv_chunk_at K d' kind' =
      (if kind' = kind then kv_chunk_at K d kind ++ map_of (rev (zip keys chunks)) else kv_chunk_at K d kind')" for kind'
  proof
    fix key
    note puts = map_of_chunk_puts[OF ok(2), of kind "rev (zip keys chunks)" kind' key]
    show "kv_chunk_at K d' kind' key =
      (if kind' = kind then kv_chunk_at K d kind ++ map_of (rev (zip keys chunks)) else kv_chunk_at K d kind') key"
    proof (cases "kind' = kind")
      case True
      with puts show ?thesis
        by (cases "map_of (rev (zip keys chunks)) key")
          (simp_all add: kv_chunk_at_def get map_add_def chunk_roundtrip(1)[OF ok(2)])
    next
      case False
      with puts show ?thesis by (simp add: kv_chunk_at_def get map_add_def)
    qed
  qed
  moreover have "db_SaveSlasherChunks (kv_database K) kind keys chunks d = (Ok (), d')"
    unfolding d'_def by (simp add: kv_database_def SaveSlasherChunks_eq[OF ok len fits])
  ultimately show "\<exists>d'. db_SaveSlasherChunks (kv_database K) kind keys chunks d = (Ok (), d') \<and> kv_good K d' \<and>
      (\<forall>kind'. kv_chunk_at K d' kind' =
        (if kind' = kind then kv_chunk_at K d kind ++ map_of (rev (zip keys chunks)) else kv_chunk_at K d kind'))"
    by blast
qed

section \<open>Properties\<close>

lemma represents_chunk_for:
  assumes "\<And>i. i < chunk_count (se_params E) \<Longrightarrow>
    chunk_for E d kind vci m (of_nat i) = chunk_for E d' kind vci m' (of_nat i)"
  shows "represents E d kind vci cur v A m \<longleftrightarrow> represents E d' kind vci cur v A m'"
proof -
  have "slices_of E d kind vci m = slices_of E d' kind vci m'"
    using assms unfolding slices_of_def by auto
  moreover have "chunks_load E d kind vci m \<longleftrightarrow> chunks_load E d' kind vci m'"
    using assms by (simp add: chunks_load_def)
  ultimately show ?thesis by (simp add: represents_def)
qed

lemma chunk_count_in_window:
  assumes "params_ok p" and "unat (chunkSize p) dvd unat (historyLength p)" and "i < chunk_count p"
    and "(unat vci + 1) * (unat (historyLength p) div unat (chunkSize p)) \<le> 2 ^ 64"
  shows "in_window p vci (of_nat i)"
proof -
  obtain n where n: "unat (historyLength p) = unat (chunkSize p) * n" using assms(2) by blast
  have pos: "0 < unat (chunkSize p)" "0 < unat (historyLength p)"
    using params_okD[OF assms(1)] by auto
  then have "0 < n" using n by (cases n) auto
  have "(unat (chunkSize p) * n - 1) div unat (chunkSize p) < n"
    using pos(1) \<open>0 < n\<close> by (simp add: div_less_iff_less_mult mult.commute)
  then have i: "i < n" using assms(3) n by (simp add: chunk_count_def)
  have "unat (of_nat i :: u64) = i"
    using assms(3) chunk_count_bound[OF assms(1)] by (intro unat_of_nat_u64) linarith
  with i n pos assms(4) show ?thesis by (simp add: in_window_def algebra_simps)
qed

text \<open>C19: Spans survive a flush. Saving the chunks the service holds in memory to its database succeeds, and
  afterwards, with nothing in memory, the spans of every validator stand for the same attestations as before:
  what was flushed is loaded back, and what was not flushed has not changed.\<close>

theorem spans_survive_flush:
  assumes "se_db E = kv_database K" and "kv_good K (sv_db s)" and "params_ok (se_params E)"
    and "unat (chunkSize (se_params E)) dvd unat (historyLength (se_params E))"
    and "inj (MarshalUint64 E)" and "\<And>ks. set (map_order E ks) = set ks" and "flushable E (kv_fits K) kind by_vci"
  shows "\<exists>s'. saveChunksToDisk E kind by_vci s = (Ok (), s') \<and> kv_good K (sv_db s') \<and>
    s' = s\<lparr>sv_db := sv_db s'\<rparr> \<and>
    (\<forall>vci cur v A. (unat vci + 1) * (unat (historyLength (se_params E)) div unat (chunkSize (se_params E))) \<le> 2 ^ 64 \<longrightarrow>
       (represents E (sv_db s') kind vci cur v A [] \<longleftrightarrow>
        represents E (sv_db s) kind vci cur v A (case map_of by_vci vci of None \<Rightarrow> [] | Some m \<Rightarrow> m)))"
proof -
  from kv.chunks_survive_flush[OF assms(1-3,5-7)] obtain s' where s':
    "saveChunksToDisk E kind by_vci s = (Ok (), s')" "kv_good K (sv_db s')" "s' = s\<lparr>sv_db := sv_db s'\<rparr>"
    and same: "\<And>vci i. in_window (se_params E) vci i \<Longrightarrow> chunk_for E (sv_db s') kind vci [] i =
       chunk_for E (sv_db s) kind vci (case map_of by_vci vci of None \<Rightarrow> [] | Some m \<Rightarrow> m) i" by blast
  show ?thesis
  proof (intro exI conjI allI impI, fact s'(1), fact s'(2), fact s'(3))
    fix vci :: u64 and cur v :: u64 and A
    assume "(unat vci + 1) * (unat (historyLength (se_params E)) div unat (chunkSize (se_params E))) \<le> 2 ^ 64"
    then show "represents E (sv_db s') kind vci cur v A [] \<longleftrightarrow>
        represents E (sv_db s) kind vci cur v A (case map_of by_vci vci of None \<Rightarrow> [] | Some m \<Rightarrow> m)"
      by (intro represents_chunk_for same chunk_count_in_window[OF assms(3,4)])
  qed
qed

definition kv_slasher :: "(bytes \<times> bytes) list slasher_store slasher_env" where
  "kv_slasher =
     \<lparr>se_db = kv_database (example_kv []), se_params = NewParams 2 1 8, se_config = mainnetBeaconConfig,
      MarshalUint64 = put_le 8, slashing_root = (\<lambda>_. Ok 0), data_root = (\<lambda>_. Ok 0), header_root = (\<lambda>_. Ok 0),
      map_order = (\<lambda>ks. ks), slashing_order = (\<lambda>m. m), head_state = Ok (), num_validators = 1, head_slot = 0,
      verifyAttSignature = (\<lambda>_. True), verifyBlockSignature = (\<lambda>_. True)\<rparr>"

definition kv_service :: "(bytes \<times> bytes) list slasher_store slasher_service" where
  "kv_service = \<lparr>sv_db = empty_store, latestEpochUpdated = [], attsQueue = new_queue, blksQueue = new_queue,
     attSlashingPool = [], propSlashingPool = []\<rparr>"

theorem spans_survive_flush_witness:
  "\<exists>s'. saveChunksToDisk kv_slasher MaxSpan [(0, [(1, MaxSpanChunksSlice \<lparr>sl_params = NewParams 2 1 8, sl_data = [1, 0]\<rparr>)])]
      kv_service = (Ok (), s') \<and>
    (represents kv_slasher (sv_db s') MaxSpan 0 7 0 [(3, 4)] [] \<longleftrightarrow>
     represents kv_slasher empty_store MaxSpan 0 7 0 [(3, 4)]
       [(1, MaxSpanChunksSlice \<lparr>sl_params = NewParams 2 1 8, sl_data = [1, 0]\<rparr>)])"
proof -
  let ?E = kv_slasher and ?K = "example_kv []" and ?p = "NewParams 2 1 8"
  let ?m = "[(1, MaxSpanChunksSlice \<lparr>sl_params = NewParams 2 1 8, sl_data = [1, 0]\<rparr>)]"
  have p: "se_params ?E = ?p" and db: "se_db ?E = kv_database ?K" and ms: "inj (MarshalUint64 ?E)"
    using get_le_put_le by (simp_all add: kv_slasher_def) (metis injI)
  have good: "kv_good ?K (sv_db kv_service)"
    by (simp add: kv_good_def example_bolt_ok example_codec_ok, simp add: example_kv_def kv_service_def empty_store_def)
  have win: "in_window ?p 0 1" by (simp add: in_window_def NewParams_def)
  have "slice_key ?E 0 1 = put_le 8 1"
    by (simp add: slice_key_def kv_slasher_def flatSliceID_def NewParams_def epoch_arith.panicking_eq)
  then have "flushable ?E (kv_fits ?K) MaxSpan [(0, ?m)]"
    using win by (simp add: flushable_def p kv_fits_def chunk_encoding_def example_kv_def init_chunk_def
        MaxChunkSpansSliceFrom_def NewParams_def)
  moreover have "params_ok (se_params ?E)" "unat (chunkSize (se_params ?E)) dvd unat (historyLength (se_params ?E))"
    by (simp_all add: p params_ok_def NewParams_def)
  moreover have "set (map_order ?E ks) = set ks" for ks by (simp add: kv_slasher_def)
  ultimately have "\<exists>s'. saveChunksToDisk ?E MaxSpan [(0, ?m)] kv_service = (Ok (), s') \<and> kv_good ?K (sv_db s') \<and>
    s' = kv_service\<lparr>sv_db := sv_db s'\<rparr> \<and>
    (\<forall>vci cur v A. (unat vci + 1) * (unat (historyLength (se_params ?E)) div unat (chunkSize (se_params ?E))) \<le> 2 ^ 64 \<longrightarrow>
       (represents ?E (sv_db s') MaxSpan vci cur v A [] \<longleftrightarrow>
        represents ?E (sv_db kv_service) MaxSpan vci cur v A (case map_of [(0, ?m)] vci of None \<Rightarrow> [] | Some m \<Rightarrow> m)))"
    using spans_survive_flush[OF db good _ _ ms] by blast
  then obtain s' where s': "saveChunksToDisk ?E MaxSpan [(0, ?m)] kv_service = (Ok (), s')"
    and rep: "\<And>vci cur v A. (unat vci + 1) * (unat (historyLength (se_params ?E)) div unat (chunkSize (se_params ?E))) \<le> 2 ^ 64 \<Longrightarrow>
       (represents ?E (sv_db s') MaxSpan vci cur v A [] \<longleftrightarrow>
        represents ?E (sv_db kv_service) MaxSpan vci cur v A (case map_of [(0, ?m)] vci of None \<Rightarrow> [] | Some m \<Rightarrow> m))"
    by blast
  have "represents ?E (sv_db s') MaxSpan 0 7 0 [(3, 4)] [] \<longleftrightarrow> represents ?E empty_store MaxSpan 0 7 0 [(3, 4)] ?m"
    using rep[of 0 7 0 "[(3, 4)]"] by (simp add: p NewParams_def kv_service_def)
  with s' show ?thesis by blast
qed

end
