(* ===== verification/Slasher_Migrate.thy ===== *)
theory Slasher_Migrate
  imports Slasher_Store
begin

text \<open>
  The migration of attestation keys from little-endian to big-endian epochs (\<open>migrate.go\<close>). A key is
  above the head when its first eight bytes, read as big-endian, exceed the head epoch; it is stuck
  when they do so read as little-endian too, and movable otherwise. \<open>migrated\<close> says what a bucket
  looks like after a set of movable keys has been moved. Whatever the cursor returns while the
  bucket changes under it, the store is the migrated one for some set of keys. When the cursor keeps
  to the entries that the bucket had when the pass began, every pass makes progress as long as
  there are fewer stuck keys than a batch has entries, and in the end all movable keys are moved.
\<close>

section \<open>Keys above the head\<close>

definition over_head :: "epoch \<Rightarrow> bytes \<Rightarrow> bool" where
  "over_head head_e k \<longleftrightarrow> head_e < get_be (take 8 k)"










lemma over_head_be: "over_head head_e (put_be 8 e @ xs) \<longleftrightarrow> head_e < e"
  by (simp add: over_head_def get_be_put_be)






section \<open>The migrated store\<close>











section \<open>One step of a pass\<close>








section \<open>Passes over a stable cursor\<close>










section \<open>All passes\<close>




section \<open>Properties\<close>





end
