(* ===== verification/Filesystem.thy ===== *)
theory Filesystem
  imports Bytes Go_State "HOL-Library.AList" "HOL-Library.List_Lexorder" "HOL-Library.Char_ord"
begin

text \<open>
  Files and directories: the calls of the \<open>os\<close> package that the file-system database of the
  validator makes, and the wrappers of \<open>io/file/fileutil.go\<close> around them.

  A call may fail for reasons outside the program. The state carries the faults that are going to
  happen, one for each call: \<open>IOFault\<close> fails before anything has changed, and \<open>TornWrite n\<close> is a
  write that stops after \<open>n\<close> bytes, since \<open>os.WriteFile\<close> truncates the file before it writes. An
  empty list of faults means that no further call fails on its own.

  Paths are absolute and clean, without \<open>~\<close> and environment variables, as the database path is
  once the command line has expanded it; \<open>ExpandPath\<close> and \<open>filepath.Clean\<close> return such a path
  unchanged, and \<open>path.Join\<close> puts a slash between its arguments.
\<close>

section \<open>The operating system\<close>

datatype fault = NoFault | IOFault | TornWrite nat

datatype fs_error = NotExist | IOError | NotDirectory | WrongPermissions

datatype file_info = Info_dir | Info_file nat

record os_state =
  os_dirs :: "string list"
  os_files :: "(string \<times> nat \<times> bytes) list"
  os_faults :: "fault list"

type_synonym 'a os_op = "(fs_error, os_state, 'a) proc"

definition next_fault :: "fault os_op" where
  "next_fault = (\<lambda>s. case os_faults s of
     [] \<Rightarrow> (Ok NoFault, s) | f # fs \<Rightarrow> (Ok f, s\<lparr>os_faults := fs\<rparr>))"

text \<open>A call that only reads, or changes the state in one go.\<close>

definition os_call :: "'a os_op \<Rightarrow> 'a os_op" where
  "os_call m = bind next_fault (\<lambda>f. if f = NoFault then m else fail IOError)"

definition path_Join :: "string \<Rightarrow> string \<Rightarrow> string" where
  "path_Join dir name = dir @ ''/'' @ name"

definition path_Dir :: "string \<Rightarrow> string" where
  "path_Dir p = rev (drop 1 (dropWhile (\<lambda>c. c \<noteq> CHR ''/'') (rev p)))"

definition path_Base :: "string \<Rightarrow> string" where
  "path_Base p = rev (takeWhile (\<lambda>c. c \<noteq> CHR ''/'') (rev p))"

definition path_parents :: "string \<Rightarrow> string list" where
  "path_parents p = map (\<lambda>i. take i p) (filter (\<lambda>i. p ! i = CHR ''/'') [1..<length p])"

definition os_Stat :: "string \<Rightarrow> file_info os_op" where
  "os_Stat p = os_call (reads (\<lambda>s. case map_of (os_files s) p of
     Some (mode, _) \<Rightarrow> Ok (Info_file mode)
   | None \<Rightarrow> if p \<in> set (os_dirs s) then Ok Info_dir else Fail NotExist))"

definition os_ReadFile :: "string \<Rightarrow> bytes os_op" where
  "os_ReadFile p = os_call (reads (\<lambda>s. case map_of (os_files s) p of
     Some (_, data) \<Rightarrow> Ok data
   | None \<Rightarrow> Fail (if p \<in> set (os_dirs s) then IOError else NotExist)))"

definition put_file :: "string \<Rightarrow> nat \<Rightarrow> bytes \<Rightarrow> os_state \<Rightarrow> os_state" where
  "put_file p perm data s = s\<lparr>os_files := AList.update p
     (case map_of (os_files s) p of Some (mode, _) \<Rightarrow> (mode, data) | None \<Rightarrow> (perm, data)) (os_files s)\<rparr>"

definition os_WriteFile :: "string \<Rightarrow> bytes \<Rightarrow> nat \<Rightarrow> unit os_op" where
  "os_WriteFile p data perm = bind next_fault (\<lambda>f s.
     if f = IOFault \<or> p \<in> set (os_dirs s) then (Fail IOError, s)
     else if path_Dir p \<notin> set (os_dirs s) then (Fail NotExist, s)
     else case f of
       TornWrite n \<Rightarrow> (Fail IOError, put_file p perm (take n data) s)
     | _ \<Rightarrow> (Ok (), put_file p perm data s))"

definition os_MkdirAll :: "string \<Rightarrow> unit os_op" where
  "os_MkdirAll p = os_call (\<lambda>s.
     if \<exists>q\<in>set (p # path_parents p). map_of (os_files s) q \<noteq> None then (Fail NotDirectory, s)
     else (Ok (), s\<lparr>os_dirs := List.union (p # path_parents p) (os_dirs s)\<rparr>))"

text \<open>The entries of a directory, sorted by name; the flag says that the entry is a regular file.\<close>

definition os_ReadDir :: "string \<Rightarrow> (string \<times> bool) list os_op" where
  "os_ReadDir d = os_call (reads (\<lambda>s.
     if d \<notin> set (os_dirs s) then Fail NotExist
     else Ok (sort_key fst
       (map (\<lambda>p. (path_Base p, True)) (filter (\<lambda>p. path_Dir p = d) (map fst (os_files s))) @
        map (\<lambda>p. (path_Base p, False)) (filter (\<lambda>p. path_Dir p = d \<and> p \<noteq> d) (os_dirs s))))))"

definition os_RemoveAll :: "string \<Rightarrow> unit os_op" where
  "os_RemoveAll p = os_call (modify (\<lambda>s. s\<lparr>
     os_dirs := filter (\<lambda>q. q \<noteq> p \<and> take (Suc (length p)) q \<noteq> p @ ''/'') (os_dirs s),
     os_files := filter (\<lambda>(q, _). q \<noteq> p \<and> take (Suc (length p)) q \<noteq> p @ ''/'') (os_files s)\<rparr>))"

section \<open>The wrappers of io/file\<close>

datatype ObjType = Regular | Directory

definition ReadWritePermissions :: nat where
  "ReadWritePermissions = 384"

definition file_Exists :: "string \<Rightarrow> ObjType \<Rightarrow> bool os_op" where
  "file_Exists p objType = catch
     (bind (os_Stat p) (\<lambda>info. let isDir = (info = Info_dir) in
        ret (objType = Directory \<and> isDir \<or> objType = Regular \<and> \<not> isDir)))
     (\<lambda>e. if e = NotExist then ret False else fail e)"

definition HasDir :: "string \<Rightarrow> bool os_op" where
  "HasDir p = catch (bind (os_Stat p) (\<lambda>info. ret (info = Info_dir)))
     (\<lambda>e. if e = NotExist then ret False else fail e)"

definition file_MkdirAll :: "string \<Rightarrow> unit os_op" where
  "file_MkdirAll p = bind (HasDir p) (\<lambda>exists. if exists then ret () else os_MkdirAll p)"

definition file_WriteFile :: "string \<Rightarrow> bytes \<Rightarrow> unit os_op" where
  "file_WriteFile p data = bind (file_Exists p Regular) (\<lambda>exists.
     seq (if exists then bind (os_Stat p) (\<lambda>info.
            if info \<noteq> Info_file ReadWritePermissions then fail WrongPermissions else ret ())
          else ret ())
       (os_WriteFile p data ReadWritePermissions))"

section \<open>What the calls do to a file\<close>

definition file_data :: "os_state \<Rightarrow> string \<Rightarrow> bytes option" where
  "file_data s p = map_option snd (map_of (os_files s) p)"

definition no_torn_write :: "os_state \<Rightarrow> bool" where
  "no_torn_write s = (\<forall>n. TornWrite n \<notin> set (os_faults s))"

text \<open>Everything but the file data of a state may change in a call that does not write.\<close>

definition keeps_files :: "'a os_op \<Rightarrow> bool" where
  "keeps_files m \<longleftrightarrow> (\<forall>s r t. m s = (r, t) \<longrightarrow> os_files t = os_files s \<and>
     set (os_faults t) \<subseteq> set (os_faults s) \<and> r \<noteq> Panic)"

lemma keeps_filesD:
  assumes "keeps_files m" "m s = (r, t)"
  shows "os_files t = os_files s" "r \<noteq> Panic" "no_torn_write s \<Longrightarrow> no_torn_write t"
proof -
  have "os_files t = os_files s \<and> set (os_faults t) \<subseteq> set (os_faults s) \<and> r \<noteq> Panic"
    using assms unfolding keeps_files_def by blast
  then show "os_files t = os_files s" "r \<noteq> Panic" "no_torn_write s \<Longrightarrow> no_torn_write t"
    by (auto simp: no_torn_write_def)
qed

lemma keeps_files_next_fault: "keeps_files next_fault"
  by (auto simp: keeps_files_def next_fault_def split: list.splits)

lemma keeps_files_bind:
  assumes "keeps_files m" "\<And>a. keeps_files (f a)" shows "keeps_files (bind m f)"
  unfolding keeps_files_def
proof (intro allI impI)
  fix s r t assume run: "bind m f s = (r, t)"
  obtain r1 s1 where m: "m s = (r1, s1)" by fastforce
  show "os_files t = os_files s \<and> set (os_faults t) \<subseteq> set (os_faults s) \<and> r \<noteq> Panic"
  proof (cases r1)
    case (Ok a)
    then have "f a s1 = (r, t)" using run m by (simp add: bind_def)
    then show ?thesis using assms m unfolding keeps_files_def by (metis subset_trans)
  next
    case (Fail e)
    then show ?thesis using run m assms(1) by (auto simp: bind_def keeps_files_def)
  next
    case Panic
    then show ?thesis using m assms(1) by (auto simp: keeps_files_def)
  qed
qed

lemma keeps_files_catch:
  assumes "keeps_files m" "\<And>e. keeps_files (h e)" shows "keeps_files (catch m h)"
  unfolding keeps_files_def
proof (intro allI impI)
  fix s r t assume run: "catch m h s = (r, t)"
  obtain r1 s1 where m: "m s = (r1, s1)" by fastforce
  show "os_files t = os_files s \<and> set (os_faults t) \<subseteq> set (os_faults s) \<and> r \<noteq> Panic"
  proof (cases r1)
    case (Fail e)
    then have "h e s1 = (r, t)" using run m by (simp add: catch_def)
    then show ?thesis using assms m unfolding keeps_files_def by (metis subset_trans)
  next
    case (Ok a)
    then show ?thesis using run m assms(1) by (auto simp: catch_def keeps_files_def)
  next
    case Panic
    then show ?thesis using m assms(1) by (auto simp: keeps_files_def)
  qed
qed

lemma keeps_files_simple:
  "keeps_files (ret a)" "keeps_files (fail e)" "(\<And>s. k s \<noteq> Panic) \<Longrightarrow> keeps_files (reads k)"
  by (simp_all add: keeps_files_def proc_eval)

lemma keeps_files_call: "keeps_files m \<Longrightarrow> keeps_files (os_call m)"
  unfolding os_call_def
  by (intro keeps_files_bind keeps_files_next_fault) (simp add: keeps_files_simple)

lemma keeps_files_os:
  "keeps_files (os_Stat p)" "keeps_files (os_ReadFile p)" "keeps_files (os_ReadDir p)" "keeps_files (os_MkdirAll p)"
proof -
  show "keeps_files (os_Stat p)" "keeps_files (os_ReadFile p)" "keeps_files (os_ReadDir p)"
    unfolding os_Stat_def os_ReadFile_def os_ReadDir_def
    by (intro keeps_files_call keeps_files_simple; simp split: option.split)+
  show "keeps_files (os_MkdirAll p)" unfolding os_MkdirAll_def
    by (rule keeps_files_call) (auto simp: keeps_files_def split: if_splits)
qed

lemma keeps_files_io:
  "keeps_files (file_Exists p ty)" "keeps_files (HasDir p)" "keeps_files (file_MkdirAll p)"
proof -
  show ex: "keeps_files (file_Exists p ty)" unfolding file_Exists_def Let_def
    by (intro keeps_files_catch keeps_files_bind keeps_files_os) (auto intro: keeps_files_simple)
  show has: "keeps_files (HasDir p)" unfolding HasDir_def
    by (intro keeps_files_catch keeps_files_bind keeps_files_os) (auto intro: keeps_files_simple)
  show "keeps_files (file_MkdirAll p)" unfolding file_MkdirAll_def
    by (intro keeps_files_bind has) (simp add: keeps_files_simple keeps_files_os)
qed

lemma next_fault_keeps:
  assumes "next_fault s = (r, t)"
  shows "os_files t = os_files s" "os_dirs t = os_dirs s" "set (os_faults t) \<subseteq> set (os_faults s)"
    "\<exists>f. r = Ok f \<and> (f \<noteq> NoFault \<longrightarrow> f \<in> set (os_faults s))"
  using assms by (auto simp: next_fault_def split: list.splits)

lemma os_Stat_Ok:
  assumes "os_Stat p s = (Ok info, t)"
  shows "(\<exists>mode. info = Info_file mode) \<longleftrightarrow> file_data s p \<noteq> None"
proof -
  obtain f s1 where f: "next_fault s = (Ok f, s1)" using next_fault_keeps(4) by (metis prod.exhaust)
  then show ?thesis using assms next_fault_keeps(1)[OF f]
    by (auto simp: os_Stat_def os_call_def bind_def fail_def reads_def file_data_def
        split: if_splits option.splits)
qed

lemma os_Stat_NotExist:
  assumes "os_Stat p s = (Fail NotExist, t)" shows "file_data s p = None"
proof -
  obtain f s1 where f: "next_fault s = (Ok f, s1)" using next_fault_keeps(4) by (metis prod.exhaust)
  then show ?thesis using assms next_fault_keeps(1)[OF f]
    by (auto simp: os_Stat_def os_call_def bind_def fail_def reads_def file_data_def
        split: if_splits option.splits)
qed

lemma file_Exists_Ok:
  assumes "file_Exists p Regular s = (Ok b, t)" shows "b \<longleftrightarrow> file_data s p \<noteq> None"
proof -
  obtain r s1 where st: "os_Stat p s = (r, s1)" by fastforce
  show ?thesis
  proof (cases r)
    case (Ok info)
    then have "b \<longleftrightarrow> info \<noteq> Info_dir" using assms st
      by (auto simp: file_Exists_def catch_def bind_def ret_def Let_def)
    moreover have "(\<exists>mode. info = Info_file mode) \<longleftrightarrow> file_data s p \<noteq> None"
      using os_Stat_Ok[of p s info s1] st Ok by simp
    ultimately show ?thesis by (cases info) auto
  next
    case (Fail e)
    then have "e = NotExist" "\<not> b" using assms st
      by (auto simp: file_Exists_def catch_def bind_def ret_def fail_def Let_def split: if_splits)
    then show ?thesis using os_Stat_NotExist st Fail by simp
  next
    case Panic
    then show ?thesis using st keeps_filesD(2)[OF keeps_files_os(1)] by blast
  qed
qed

lemma os_ReadFile_Ok:
  assumes "os_ReadFile p s = (Ok data, t)" shows "file_data s p = Some data"
proof -
  obtain f s1 where f: "next_fault s = (Ok f, s1)" using next_fault_keeps(4) by (metis prod.exhaust)
  then show ?thesis using assms next_fault_keeps(1)[OF f]
    by (auto simp: os_ReadFile_def os_call_def bind_def fail_def reads_def file_data_def
        split: if_splits option.splits)
qed

lemma file_data_put: "file_data (put_file p perm data s) q = (if q = p then Some data else file_data s q)"
  by (auto simp: put_file_def file_data_def update_conv' split: option.split)

lemma file_data_cong: "os_files t = os_files s \<Longrightarrow> file_data t p = file_data s p"
  by (simp add: file_data_def)

definition write_effect :: "string \<Rightarrow> bytes \<Rightarrow> os_state \<Rightarrow> ('e, unit) outcome \<Rightarrow> os_state \<Rightarrow> bool" where
  "write_effect p data s r t \<longleftrightarrow> r \<noteq> Panic \<and> no_torn_write t \<and>
     (\<forall>q. file_data t q = (if q = p \<and> r = Ok () then Some data else file_data s q))"

lemma os_WriteFile_effect:
  assumes "os_WriteFile p data perm s = (r, t)" and "no_torn_write s"
  shows "write_effect p data s r t"
proof -
  obtain r0 s1 where n: "next_fault s = (r0, s1)" by fastforce
  then obtain f where r0: "r0 = Ok f" and in_faults: "f \<noteq> NoFault \<longrightarrow> f \<in> set (os_faults s)"
    using next_fault_keeps(4) by blast
  note f = n[unfolded r0]
  have nt: "no_torn_write s1" using keeps_filesD(3)[OF keeps_files_next_fault n assms(2)] .
  have fs: "\<And>q. file_data s1 q = file_data s q" using file_data_cong[OF next_fault_keeps(1)[OF f]] .
  have "f = NoFault \<or> f = IOFault" using in_faults assms(2) by (cases f) (auto simp: no_torn_write_def)
  moreover have "no_torn_write (put_file p perm data s1)" using nt by (simp add: no_torn_write_def put_file_def)
  moreover have "(r, t) = (if f = IOFault \<or> p \<in> set (os_dirs s1) then (Fail IOError, s1)
      else if path_Dir p \<notin> set (os_dirs s1) then (Fail NotExist, s1) else (Ok (), put_file p perm data s1))"
    using assms(1) f \<open>f = NoFault \<or> f = IOFault\<close> by (auto simp: os_WriteFile_def bind_def)
  ultimately show ?thesis using nt fs
    by (simp add: write_effect_def file_data_put split: if_splits)
qed

lemma file_WriteFile_effect:
  assumes run: "file_WriteFile p data s = (r, t)" and nt: "no_torn_write s"
  shows "write_effect p data s r t"
proof -
  let ?check = "bind (file_Exists p Regular) (\<lambda>exists.
    if exists then bind (os_Stat p) (\<lambda>info.
       if info \<noteq> Info_file ReadWritePermissions then fail WrongPermissions else ret ())
    else ret ())"
  have k: "keeps_files ?check"
    by (intro keeps_files_bind keeps_files_io) (auto intro!: keeps_files_bind keeps_files_os keeps_files_simple)
  obtain r1 s1 where c: "?check s = (r1, s1)" by fastforce
  have "file_WriteFile p data s = bind ?check (\<lambda>_. os_WriteFile p data ReadWritePermissions) s"
    by (auto simp: file_WriteFile_def bind_def seq_def split: outcome.split prod.split)
  then have w: "r1 = Ok () \<Longrightarrow> os_WriteFile p data ReadWritePermissions s1 = (r, t)"
    "r1 = Fail e \<Longrightarrow> r = Fail e \<and> t = s1" for e
    using run c by (auto simp: bind_def)
  note ks = keeps_filesD[OF k c]
  show ?thesis
  proof (cases r1)
    case (Ok u)
    then have "write_effect p data s1 r t" using os_WriteFile_effect[OF w(1) ks(3)[OF nt]] by simp
    then show ?thesis by (simp add: write_effect_def file_data_cong[OF ks(1)])
  next
    case (Fail e)
    then show ?thesis using w(2) ks(3)[OF nt] by (simp add: write_effect_def file_data_cong[OF ks(1)])
  qed (use ks(2) in simp)
qed

end
