(* ===== verification/Validator_Protection.thy ===== *)
theory Validator_Protection
  imports Filesystem Slasher_Types
begin

text \<open>
  The slashing protection of the validator client in its file-system form
  (\<open>validator/db/filesystem\<close>): for every public key one YAML file holds the slot of the last signed
  block and the source and target epochs of the last signed attestation (the minimal database of
  EIP-3076). The client signs only what \<open>SlashableAttestationCheck\<close> and \<open>SlashableProposalCheck\<close>
  accept.

  The YAML and hex encoders are third-party code and are fields of \<open>protection_env\<close>; marshalling
  a record of integers does not fail. The mutexes
  of the store cover a single read or a single write of a file, never both, so the read and the
  write of an operation are separate steps here as well.
\<close>

section \<open>The stored record and the store\<close>

type_synonym pubkey = bytes

record validator_slashing_protection =
  LatestSignedBlockSlot :: "u64 option"
  LastSignedAttestationSourceEpoch :: u64
  LastSignedAttestationTargetEpoch :: "u64 option"

definition empty_protection :: validator_slashing_protection where
  "empty_protection = \<lparr>LatestSignedBlockSlot = None, LastSignedAttestationSourceEpoch = 0,
     LastSignedAttestationTargetEpoch = None\<rparr>"

record protection_env =
  yaml_Marshal :: "validator_slashing_protection \<Rightarrow> bytes"
  yaml_Unmarshal :: "bytes \<Rightarrow> validator_slashing_protection option"
  hexutil_Encode :: "bytes \<Rightarrow> string"
  hexutil_Decode :: "string \<Rightarrow> bytes option"

record protection_store =
  databaseParentPath :: string
  databasePath :: string

datatype protection_error =
    NoSourceOrTarget
  | SignAttestationSource u64 u64
  | SignAttestationTarget u64 u64
  | SignProposal u64 u64
  | FileError fs_error
  | CouldNotUnmarshal
  | CouldNotDecode string
  | NotImplemented
  | GetProtection protection_error
  | SaveProtection protection_error
  | MaxEpochs protection_error
  | LocalAttProtection protection_error
  | LocalBlockProtection protection_error
  | SaveAttHistory protection_error
  | SaveProposalHistory protection_error

type_synonym 'a protection_op = "(protection_error, os_state, 'a) proc"

section \<open>db.go\<close>

definition slashingProtectionDirPath :: "protection_store \<Rightarrow> string" where
  "slashingProtectionDirPath S = path_Join (databasePath S) ''slashing-protection''"

definition pubkeySlashingProtectionFilePath :: "protection_env \<Rightarrow> protection_store \<Rightarrow> pubkey \<Rightarrow> string" where
  "pubkeySlashingProtectionFilePath E S pubKey =
     path_Join (slashingProtectionDirPath S) (hexutil_Encode E pubKey @ ''.yaml'')"

definition validatorSlashingProtection ::
  "protection_env \<Rightarrow> protection_store \<Rightarrow> pubkey \<Rightarrow> validator_slashing_protection option protection_op" where
  "validatorSlashingProtection E S publicKey =
     (let path = pubkeySlashingProtectionFilePath E S publicKey in
      bind (wrap_err FileError (file_Exists path Regular)) (\<lambda>exists.
        if \<not> exists then ret None
        else bind (wrap_err FileError (os_ReadFile path)) (\<lambda>yfile.
          case yaml_Unmarshal E yfile of None \<Rightarrow> fail CouldNotUnmarshal | Some v \<Rightarrow> ret (Some v))))"

definition saveValidatorSlashingProtection ::
  "protection_env \<Rightarrow> protection_store \<Rightarrow> pubkey \<Rightarrow> validator_slashing_protection \<Rightarrow> unit protection_op" where
  "saveValidatorSlashingProtection E S publicKey v =
     seq (wrap_err FileError (file_MkdirAll (slashingProtectionDirPath S)))
       (wrap_err FileError
         (file_WriteFile (pubkeySlashingProtectionFilePath E S publicKey) (yaml_Marshal E v)))"

definition UpdatePublicKeysBuckets :: "protection_env \<Rightarrow> protection_store \<Rightarrow> pubkey list \<Rightarrow> unit protection_op" where
  "UpdatePublicKeysBuckets E S pubKeys =
     seq (wrap_err FileError (file_MkdirAll (slashingProtectionDirPath S)))
       (for_each pubKeys (\<lambda>pubKey.
          let path = pubkeySlashingProtectionFilePath E S pubKey in
          bind (wrap_err FileError (file_Exists path Regular)) (\<lambda>exists.
            if exists then ret ()
            else wrap_err FileError (file_WriteFile path (yaml_Marshal E empty_protection)))))"

definition NewProtectionStore ::
  "protection_env \<Rightarrow> string \<Rightarrow> pubkey list option \<Rightarrow> protection_store protection_op" where
  "NewProtectionStore E parentPath config =
     (let S = \<lparr>databaseParentPath = parentPath,
               databasePath = path_Join parentPath ''validator-client-data''\<rparr> in
      case config of
        None \<Rightarrow> ret S
      | Some pubKeys \<Rightarrow> seq (UpdatePublicKeysBuckets E S pubKeys) (ret S))"

definition ClearDB :: "protection_store \<Rightarrow> unit protection_op" where
  "ClearDB S = wrap_err FileError (os_RemoveAll (databasePath S))"

text \<open>\<open>copy\<close> into an array of 48 bytes drops what is too long and leaves zeros behind what is too
  short.\<close>

definition copy48 :: "bytes \<Rightarrow> pubkey" where
  "copy48 b = take 48 (b @ replicate 48 0)"

definition TrimSuffix :: "string \<Rightarrow> string \<Rightarrow> string" where
  "TrimSuffix s suffix =
     (if length suffix \<le> length s \<and> drop (length s - length suffix) s = suffix
      then take (length s - length suffix) s else s)"

definition publicKeys :: "protection_env \<Rightarrow> protection_store \<Rightarrow> pubkey list protection_op" where
  "publicKeys E S =
     (let dir = slashingProtectionDirPath S in
      bind (wrap_err FileError (file_Exists dir Directory)) (\<lambda>exists.
        if \<not> exists then ret []
        else bind (wrap_err FileError (os_ReadDir dir)) (\<lambda>entries.
          fold_each entries (\<lambda>(name, isRegular) keys.
            if \<not> (isRegular \<and> take 2 name = ''0x'') then ret keys
            else let hex = TrimSuffix name ''.yaml'' in
              case hexutil_Decode E hex of
                None \<Rightarrow> fail (CouldNotDecode hex)
              | Some b \<Rightarrow> ret (keys @ [copy48 b])) [])))"

section \<open>attester\_protection.go\<close>

definition LowestSignedTargetEpoch ::
  "protection_env \<Rightarrow> protection_store \<Rightarrow> pubkey \<Rightarrow> (epoch \<times> bool) protection_op" where
  "LowestSignedTargetEpoch E S pubKey =
     bind (wrap_err GetProtection (validatorSlashingProtection E S pubKey)) (\<lambda>v.
       case Option.bind v LastSignedAttestationTargetEpoch of
         None \<Rightarrow> ret (0, False) | Some e \<Rightarrow> ret (e, True))"

definition LowestSignedSourceEpoch ::
  "protection_env \<Rightarrow> protection_store \<Rightarrow> pubkey \<Rightarrow> (epoch \<times> bool) protection_op" where
  "LowestSignedSourceEpoch E S pubKey =
     bind (wrap_err GetProtection (validatorSlashingProtection E S pubKey)) (\<lambda>v.
       case v of None \<Rightarrow> ret (0, False) | Some p \<Rightarrow> ret (LastSignedAttestationSourceEpoch p, True))"

definition AttestedPublicKeys :: "protection_env \<Rightarrow> protection_store \<Rightarrow> pubkey list protection_op" where
  "AttestedPublicKeys E S = bind (publicKeys E S) (\<lambda>pubkeys.
     fold_each pubkeys (\<lambda>pubkey attested.
       bind (wrap_err GetProtection (validatorSlashingProtection E S pubkey)) (\<lambda>v.
         case Option.bind v LastSignedAttestationTargetEpoch of
           None \<Rightarrow> ret attested | Some _ \<Rightarrow> ret (attested @ [pubkey]))) [])"

text \<open>The source and target epochs of an attestation, when it has both.\<close>

fun att_epochs :: "indexed_att option \<Rightarrow> (u64 \<times> u64) option" where
  "att_epochs None = None"
| "att_epochs (Some att) = (case Data (att_body att) of
     None \<Rightarrow> None
   | Some d \<Rightarrow> (case (d_Source d, d_Target d) of
       (Some src, Some tgt) \<Rightarrow> Some (c_Epoch src, c_Epoch tgt) | _ \<Rightarrow> None))"

text \<open>What \<open>SaveAttestationForPubKey\<close> decides between its read and its write: the record to save,
  or the refusal.\<close>

definition sign_attestation ::
  "u64 \<times> u64 \<Rightarrow> validator_slashing_protection option \<Rightarrow> (protection_error, validator_slashing_protection) outcome" where
  "sign_attestation = (\<lambda>(source, target) v. case v of
     None \<Rightarrow> Ok \<lparr>LatestSignedBlockSlot = None, LastSignedAttestationSourceEpoch = source,
       LastSignedAttestationTargetEpoch = Some target\<rparr>
   | Some p \<Rightarrow>
       if source < LastSignedAttestationSourceEpoch p
       then Fail (SignAttestationSource source (LastSignedAttestationSourceEpoch p))
       else (case LastSignedAttestationTargetEpoch p of
         Some saved \<Rightarrow>
           if target \<le> saved then Fail (SignAttestationTarget target saved)
           else Ok (p\<lparr>LastSignedAttestationSourceEpoch := source, LastSignedAttestationTargetEpoch := Some target\<rparr>)
       | None \<Rightarrow>
           Ok (p\<lparr>LastSignedAttestationSourceEpoch := source, LastSignedAttestationTargetEpoch := Some target\<rparr>)))"

definition SaveAttestationForPubKey ::
  "protection_env \<Rightarrow> protection_store \<Rightarrow> pubkey \<Rightarrow> indexed_att option \<Rightarrow> unit protection_op" where
  "SaveAttestationForPubKey E S pubkey att = (case att_epochs att of
     None \<Rightarrow> fail NoSourceOrTarget
   | Some epochs \<Rightarrow>
       bind (wrap_err GetProtection (validatorSlashingProtection E S pubkey)) (\<lambda>v.
       bind (lift (sign_attestation epochs v)) (\<lambda>p.
         wrap_err SaveProtection (saveValidatorSlashingProtection E S pubkey p))))"

fun refused_attestation :: "protection_error \<Rightarrow> bool" where
  "refused_attestation (SignAttestationSource _ _) = True"
| "refused_attestation (SignAttestationTarget _ _) = True"
| "refused_attestation (GetProtection e) = refused_attestation e"
| "refused_attestation (SaveProtection e) = refused_attestation e"
| "refused_attestation _ = False"

definition SlashableAttestationCheck ::
  "protection_env \<Rightarrow> protection_store \<Rightarrow> indexed_att option \<Rightarrow> pubkey \<Rightarrow> unit protection_op" where
  "SlashableAttestationCheck E S att pubKey =
     wrap_err (\<lambda>e. if refused_attestation e then LocalAttProtection e else SaveAttHistory e)
       (SaveAttestationForPubKey E S pubKey att)"

fun maxSourceTargetEpoch :: "indexed_att option list \<Rightarrow> (protection_error, u64 \<times> u64) outcome" where
  "maxSourceTargetEpoch atts = ofold (\<lambda>att (maxSource, maxTarget). case att_epochs att of
     None \<Rightarrow> Fail NoSourceOrTarget
   | Some (source, target) \<Rightarrow> Ok (max source maxSource, max target maxTarget)) atts (0, 0)"

definition SaveAttestationsForPubKey ::
  "protection_env \<Rightarrow> protection_store \<Rightarrow> pubkey \<Rightarrow> indexed_att option list \<Rightarrow> unit protection_op" where
  "SaveAttestationsForPubKey E S pubkey atts = (if atts = [] then ret ()
     else bind (wrap_err MaxEpochs (lift (maxSourceTargetEpoch atts))) (\<lambda>(maxSource, maxTarget).
       bind (wrap_err GetProtection (validatorSlashingProtection E S pubkey)) (\<lambda>v.
         wrap_err SaveProtection (saveValidatorSlashingProtection E S pubkey (case v of
           None \<Rightarrow> \<lparr>LatestSignedBlockSlot = None, LastSignedAttestationSourceEpoch = maxSource,
             LastSignedAttestationTargetEpoch = Some maxTarget\<rparr>
         | Some p \<Rightarrow> p\<lparr>
             LastSignedAttestationSourceEpoch :=
               (if LastSignedAttestationSourceEpoch p > maxSource
                then LastSignedAttestationSourceEpoch p else maxSource),
             LastSignedAttestationTargetEpoch :=
               (case LastSignedAttestationTargetEpoch p of
                  Some saved \<Rightarrow> Some (if saved > maxTarget then saved else maxTarget)
                | None \<Rightarrow> Some maxTarget)\<rparr>)))))"

record attestation_record =
  ar_PubKey :: pubkey
  ar_Source :: epoch
  ar_Target :: epoch

definition AttestationHistoryForPubKey ::
  "protection_env \<Rightarrow> protection_store \<Rightarrow> pubkey \<Rightarrow> attestation_record list protection_op" where
  "AttestationHistoryForPubKey E S pubKey =
     bind (wrap_err GetProtection (validatorSlashingProtection E S pubKey)) (\<lambda>v. ret (case v of
       None \<Rightarrow> []
     | Some p \<Rightarrow> (case LastSignedAttestationTargetEpoch p of
         None \<Rightarrow> []
       | Some target \<Rightarrow>
           [\<lparr>ar_PubKey = pubKey, ar_Source = LastSignedAttestationSourceEpoch p, ar_Target = target\<rparr>])))"

section \<open>proposer\_protection.go\<close>

definition ProposalHistoryForPubKey :: "protection_env \<Rightarrow> protection_store \<Rightarrow> pubkey \<Rightarrow> slot list protection_op" where
  "ProposalHistoryForPubKey E S publicKey =
     bind (wrap_err GetProtection (validatorSlashingProtection E S publicKey)) (\<lambda>v.
       case Option.bind v LatestSignedBlockSlot of None \<Rightarrow> ret [] | Some slot \<Rightarrow> ret [slot])"

definition sign_proposal ::
  "slot \<Rightarrow> validator_slashing_protection option \<Rightarrow> (protection_error, validator_slashing_protection) outcome" where
  "sign_proposal slot v = (case v of
     None \<Rightarrow> Ok (empty_protection\<lparr>LatestSignedBlockSlot := Some slot\<rparr>)
   | Some p \<Rightarrow> (case LatestSignedBlockSlot p of
       None \<Rightarrow> Ok (p\<lparr>LatestSignedBlockSlot := Some slot\<rparr>)
     | Some saved \<Rightarrow>
         if slot \<le> saved then Fail (SignProposal slot saved)
         else Ok (p\<lparr>LatestSignedBlockSlot := Some slot\<rparr>)))"

definition SaveProposalHistoryForSlot ::
  "protection_env \<Rightarrow> protection_store \<Rightarrow> pubkey \<Rightarrow> slot \<Rightarrow> unit protection_op" where
  "SaveProposalHistoryForSlot E S pubKey slot =
     bind (wrap_err GetProtection (validatorSlashingProtection E S pubKey)) (\<lambda>v.
     bind (lift (sign_proposal slot v)) (\<lambda>p.
       wrap_err SaveProtection (saveValidatorSlashingProtection E S pubKey p)))"

fun refused_proposal :: "protection_error \<Rightarrow> bool" where
  "refused_proposal (SignProposal _ _) = True"
| "refused_proposal (GetProtection e) = refused_proposal e"
| "refused_proposal (SaveProtection e) = refused_proposal e"
| "refused_proposal _ = False"

definition SlashableProposalCheck ::
  "protection_env \<Rightarrow> protection_store \<Rightarrow> pubkey \<Rightarrow> slot \<Rightarrow> unit protection_op" where
  "SlashableProposalCheck E S pubKey slot =
     wrap_err (\<lambda>e. if refused_proposal e then LocalBlockProtection e else SaveProposalHistory e)
       (SaveProposalHistoryForSlot E S pubKey slot)"

text \<open>The proposer keys are those of the directory, whether or not they have proposed.\<close>

definition ProposedPublicKeys :: "protection_env \<Rightarrow> protection_store \<Rightarrow> pubkey list protection_op" where
  "ProposedPublicKeys E S = publicKeys E S"

section \<open>How the stored records change\<close>

text \<open>What the encoders are relied on for: a record is read back as it was written, and different
  keys have different file names.\<close>

definition protection_env_ok :: "protection_env \<Rightarrow> bool" where
  "protection_env_ok E \<longleftrightarrow> (\<forall>v. yaml_Unmarshal E (yaml_Marshal E v) = Some v) \<and> inj (hexutil_Encode E)"

text \<open>The record of a key: none, or a file, which may fail to parse.\<close>

definition stored :: "protection_env \<Rightarrow> protection_store \<Rightarrow> os_state \<Rightarrow> pubkey \<Rightarrow>
    validator_slashing_protection option option" where
  "stored E S s pk =
     map_option (yaml_Unmarshal E) (file_data s (pubkeySlashingProtectionFilePath E S pk))"

fun opt_le :: "u64 option \<Rightarrow> u64 option \<Rightarrow> bool" where
  "opt_le None _ = True"
| "opt_le (Some a) (Some b) = (a \<le> b)"
| "opt_le (Some a) None = False"

definition protection_le :: "validator_slashing_protection \<Rightarrow> validator_slashing_protection \<Rightarrow> bool" where
  "protection_le p q \<longleftrightarrow>
     LastSignedAttestationSourceEpoch p \<le> LastSignedAttestationSourceEpoch q \<and>
     opt_le (LastSignedAttestationTargetEpoch p) (LastSignedAttestationTargetEpoch q) \<and>
     opt_le (LatestSignedBlockSlot p) (LatestSignedBlockSlot q)"

text \<open>A record is left alone or raised; a file that does not parse is left alone.\<close>

definition raises :: "validator_slashing_protection option option \<Rightarrow>
    validator_slashing_protection option option \<Rightarrow> bool" where
  "raises v w \<longleftrightarrow> w = v \<or>
     (\<exists>q. w = Some (Some q) \<and> (v = None \<or> (\<exists>p. v = Some (Some p) \<and> protection_le p q)))"

lemma opt_le_refl [simp]: "opt_le a a"
  by (cases a) simp_all

lemma opt_le_trans: "opt_le a b \<Longrightarrow> opt_le b c \<Longrightarrow> opt_le a c"
  by (cases a; cases b; cases c) auto

lemma protection_le_trans: "protection_le p q \<Longrightarrow> protection_le q r \<Longrightarrow> protection_le p r"
  unfolding protection_le_def using opt_le_trans by (metis order_trans)

lemma raises_refl [simp]: "raises v v"
  by (simp add: raises_def)

lemma raises_trans: "raises u v \<Longrightarrow> raises v w \<Longrightarrow> raises u w"
  unfolding raises_def using protection_le_trans by (metis option.inject option.simps(3))

lemma wrap_err_run:
  "wrap_err w m s = (r, t) \<longleftrightarrow> (\<exists>r'. m s = (r', t) \<and> r = owrap w r')"
  by (auto simp: wrap_err_def split: prod.splits)

lemma bind_run:
  assumes "bind m f s = (r, t)"
  obtains a s1 where "m s = (Ok a, s1)" "f a s1 = (r, t)"
    | e where "m s = (Fail e, t)" "r = Fail e"
    | "m s = (Panic, t)" "r = Panic"
  using assms unfolding bind_def by (cases "m s") (auto split: outcome.splits)

lemma file_path_inj:
  assumes "protection_env_ok E"
  shows "pubkeySlashingProtectionFilePath E S a = pubkeySlashingProtectionFilePath E S b \<longleftrightarrow> a = b"
  using assms by (auto simp: pubkeySlashingProtectionFilePath_def path_Join_def protection_env_ok_def dest: injD)

lemma validatorSlashingProtection_run:
  assumes run: "validatorSlashingProtection E S pk s = (r, t)"
  shows "os_files t = os_files s" "r \<noteq> Panic" "no_torn_write s \<Longrightarrow> no_torn_write t"
    "r = Ok v \<Longrightarrow> stored E S s pk = map_option Some v"
proof -
  let ?p = "pubkeySlashingProtectionFilePath E S pk"
  obtain re s1 where ex: "file_Exists ?p Regular s = (re, s1)" by fastforce
  note k1 = keeps_filesD[OF keeps_files_io(1) ex]
  have "os_files t = os_files s \<and> r \<noteq> Panic \<and> (no_torn_write s \<longrightarrow> no_torn_write t) \<and>
    (\<forall>v. r = Ok v \<longrightarrow> stored E S s pk = map_option Some v)"
  proof (cases "re = Ok True")
    case False
    then have "t = s1" "r = Ok None \<and> re = Ok False \<or> (\<exists>e. r = Fail e)"
      using run ex k1(2)
      by (cases re; auto simp: validatorSlashingProtection_def Let_def bind_def wrap_err_def ret_def)+
    then show ?thesis using k1 file_Exists_Ok[of ?p s False s1] ex by (auto simp: stored_def)
  next
    case True
    obtain rr s2 where rd: "os_ReadFile ?p s1 = (rr, s2)" by fastforce
    note k2 = keeps_filesD[OF keeps_files_os(2) rd]
    have t: "t = s2" "\<And>e. rr = Fail e \<Longrightarrow> r = Fail (FileError e)"
      "\<And>d. rr = Ok d \<Longrightarrow> r = (case yaml_Unmarshal E d of None \<Rightarrow> Fail CouldNotUnmarshal | Some v \<Rightarrow> Ok (Some v))"
      using run ex True rd k2(2)
      by (cases rr; auto simp: validatorSlashingProtection_def Let_def bind_def wrap_err_def ret_def fail_def
            split: option.splits)+
    show ?thesis
    proof (cases rr)
      case (Ok d)
      then have "file_data s ?p = Some d"
        using os_ReadFile_Ok[of ?p s1 d s2] rd file_data_cong[OF k1(1)] by simp
      then show ?thesis using t Ok k1 k2 by (auto simp: stored_def split: option.splits)
    qed (use t k1 k2 in auto)
  qed
  then show "os_files t = os_files s" "r \<noteq> Panic" "no_torn_write s \<Longrightarrow> no_torn_write t"
    "r = Ok v \<Longrightarrow> stored E S s pk = map_option Some v" by auto
qed

lemma stored_write:
  assumes E: "protection_env_ok E"
    and w: "write_effect (pubkeySlashingProtectionFilePath E S pk) (yaml_Marshal E v) s r t"
  shows "stored E S t pk' = (if pk' = pk \<and> r = Ok () then Some (Some v) else stored E S s pk')"
  using w E file_path_inj[OF E, of S pk' pk] by (simp add: stored_def write_effect_def protection_env_ok_def)

lemma stored_cong: "os_files t = os_files s \<Longrightarrow> stored E S t pk = stored E S s pk"
  by (simp add: stored_def file_data_def)

lemma save_run:
  assumes E: "protection_env_ok E" and nt: "no_torn_write s"
    and run: "saveValidatorSlashingProtection E S pk v s = (r, t)"
  shows "no_torn_write t" "r \<noteq> Panic"
    "stored E S t pk' = (if pk' = pk \<and> r = Ok () then Some (Some v) else stored E S s pk')"
proof -
  let ?p = "pubkeySlashingProtectionFilePath E S pk"
  obtain r1 s1 where mk: "file_MkdirAll (slashingProtectionDirPath S) s = (r1, s1)" by fastforce
  note k = keeps_filesD[OF keeps_files_io(3) mk]
  obtain r2 s2 where wr: "file_WriteFile ?p (yaml_Marshal E v) s1 = (r2, s2)" by fastforce
  note w = file_WriteFile_effect[OF wr k(3)[OF nt]]
  have rt: "r1 = Ok () \<Longrightarrow> r = owrap FileError r2 \<and> t = s2" "\<And>e. r1 = Fail e \<Longrightarrow> r = Fail (FileError e) \<and> t = s1"
    using run mk wr by (auto simp: saveValidatorSlashingProtection_def seq_def bind_def wrap_err_def split: outcome.splits)
  have "no_torn_write t \<and> r \<noteq> Panic \<and>
    stored E S t pk' = (if pk' = pk \<and> r = Ok () then Some (Some v) else stored E S s pk')"
  proof (cases r1)
    case (Ok u)
    then have t: "r = owrap FileError r2" "t = s2" using rt(1) by auto
    then have "r = Ok () \<longleftrightarrow> r2 = Ok ()" by (simp add: owrap_Ok_iff)
    then show ?thesis using stored_write[OF E w, of pk'] stored_cong[OF k(1)] w t
      by (simp add: write_effect_def)
  next
    case (Fail e)
    then show ?thesis using rt(2) k(3)[OF nt] stored_cong[OF k(1)] by simp
  qed (use k(2) in simp)
  then show "no_torn_write t" "r \<noteq> Panic"
    "stored E S t pk' = (if pk' = pk \<and> r = Ok () then Some (Some v) else stored E S s pk')" by auto
qed

text \<open>Every operation that signs or imports reads the record, decides, and writes the new record.\<close>

definition update_protection :: "protection_env \<Rightarrow> protection_store \<Rightarrow> pubkey \<Rightarrow>
    (validator_slashing_protection option \<Rightarrow> (protection_error, validator_slashing_protection) outcome) \<Rightarrow>
    unit protection_op" where
  "update_protection E S pk decide =
     bind (wrap_err GetProtection (validatorSlashingProtection E S pk)) (\<lambda>v.
     bind (lift (decide v)) (\<lambda>p.
       wrap_err SaveProtection (saveValidatorSlashingProtection E S pk p)))"

definition update_effect :: "protection_env \<Rightarrow> protection_store \<Rightarrow> pubkey \<Rightarrow>
    (validator_slashing_protection option \<Rightarrow> (protection_error, validator_slashing_protection) outcome) \<Rightarrow>
    os_state \<Rightarrow> bool \<Rightarrow> os_state \<Rightarrow> bool" where
  "update_effect E S pk decide s accepted t \<longleftrightarrow> no_torn_write t \<and>
     (if accepted then \<exists>v p. stored E S s pk = map_option Some v \<and> decide v = Ok p \<and>
        (\<forall>pk'. stored E S t pk' = (if pk' = pk then Some (Some p) else stored E S s pk'))
      else \<forall>pk'. stored E S t pk' = stored E S s pk')"

lemma update_protection_run:
  assumes E: "protection_env_ok E" and nt: "no_torn_write s" and np: "\<And>v. decide v \<noteq> Panic"
    and run: "update_protection E S pk decide s = (r, t)"
  shows "update_effect E S pk decide s (r = Ok ()) t" "r \<noteq> Panic"
proof -
  obtain r1 s1 where rd: "validatorSlashingProtection E S pk s = (r1, s1)" by fastforce
  note k = validatorSlashingProtection_run[OF rd]
  have same: "\<And>pk'. stored E S s1 pk' = stored E S s pk'" using stored_cong[OF k(1)] .
  have "update_effect E S pk decide s (r = Ok ()) t \<and> r \<noteq> Panic"
  proof (cases "\<exists>v p. r1 = Ok v \<and> decide v = Ok p")
    case True
    then obtain v p where v: "r1 = Ok v" and p: "decide v = Ok p" by blast
    obtain r2 s2 where sv: "saveValidatorSlashingProtection E S pk p s1 = (r2, s2)" by fastforce
    have rt: "r = owrap SaveProtection r2" "t = s2"
      using run rd sv v p by (auto simp: update_protection_def bind_def wrap_err_def lift_def)
    note w = save_run[OF E k(3)[OF nt] sv]
    have "r = Ok () \<longleftrightarrow> r2 = Ok ()" using rt by (simp add: owrap_Ok_iff)
    then show ?thesis using w rt k(4)[OF v] p same
      by (auto simp: update_effect_def)
  next
    case False
    then have "t = s1" "r \<noteq> Ok ()" "r \<noteq> Panic"
      using run rd k(2) np
      by (cases r1; auto simp: update_protection_def bind_def wrap_err_def lift_def split: outcome.splits prod.splits)+
    then show ?thesis using same k(3)[OF nt] by (simp add: update_effect_def)
  qed
  then show "update_effect E S pk decide s (r = Ok ()) t" "r \<noteq> Panic" by auto
qed

lemma SaveAttestation_update:
  "SaveAttestationForPubKey E S pk att = (case att_epochs att of
     None \<Rightarrow> fail NoSourceOrTarget | Some epochs \<Rightarrow> update_protection E S pk (sign_attestation epochs))"
  by (simp add: SaveAttestationForPubKey_def update_protection_def split: option.split)

lemma SaveProposal_update:
  "SaveProposalHistoryForSlot E S pk slot = update_protection E S pk (sign_proposal slot)"
  by (simp add: SaveProposalHistoryForSlot_def update_protection_def)

definition import_attestations ::
  "u64 \<times> u64 \<Rightarrow> validator_slashing_protection option \<Rightarrow> (protection_error, validator_slashing_protection) outcome" where
  "import_attestations = (\<lambda>(maxSource, maxTarget) v. Ok (case v of
     None \<Rightarrow> \<lparr>LatestSignedBlockSlot = None, LastSignedAttestationSourceEpoch = maxSource,
       LastSignedAttestationTargetEpoch = Some maxTarget\<rparr>
   | Some p \<Rightarrow> p\<lparr>
       LastSignedAttestationSourceEpoch := max (LastSignedAttestationSourceEpoch p) maxSource,
       LastSignedAttestationTargetEpoch := Some (case LastSignedAttestationTargetEpoch p of
          Some saved \<Rightarrow> max saved maxTarget | None \<Rightarrow> maxTarget)\<rparr>))"

lemma SaveAttestations_update:
  "SaveAttestationsForPubKey E S pk atts = (if atts = [] then ret ()
     else bind (wrap_err MaxEpochs (lift (maxSourceTargetEpoch atts)))
       (\<lambda>epochs. update_protection E S pk (import_attestations epochs)))"
proof -
  have eq: "(case v of
       None \<Rightarrow> \<lparr>LatestSignedBlockSlot = None, LastSignedAttestationSourceEpoch = a,
         LastSignedAttestationTargetEpoch = Some b\<rparr>
     | Some p \<Rightarrow> p\<lparr>
         LastSignedAttestationSourceEpoch :=
           (if LastSignedAttestationSourceEpoch p > a then LastSignedAttestationSourceEpoch p else a),
         LastSignedAttestationTargetEpoch :=
           (case LastSignedAttestationTargetEpoch p of
              Some saved \<Rightarrow> Some (if saved > b then saved else b) | None \<Rightarrow> Some b)\<rparr>) =
     (case v of
       None \<Rightarrow> \<lparr>LatestSignedBlockSlot = None, LastSignedAttestationSourceEpoch = a,
         LastSignedAttestationTargetEpoch = Some b\<rparr>
     | Some p \<Rightarrow> p\<lparr>
         LastSignedAttestationSourceEpoch := max (LastSignedAttestationSourceEpoch p) a,
         LastSignedAttestationTargetEpoch := Some (case LastSignedAttestationTargetEpoch p of
            Some saved \<Rightarrow> max saved b | None \<Rightarrow> b)\<rparr>)" for v :: "validator_slashing_protection option" and a b
    by (simp add: max_def not_less split: option.split)
  show ?thesis
    by (simp add: SaveAttestationsForPubKey_def update_protection_def import_attestations_def eq
        case_prod_unfold bind_def lift_def)
qed

lemma sign_attestation_Ok:
  assumes "sign_attestation (a, b) v = Ok q"
  shows "LastSignedAttestationSourceEpoch q = a" "LastSignedAttestationTargetEpoch q = Some b"
    "v = Some p \<Longrightarrow> protection_le p q" "v = Some p \<Longrightarrow> LastSignedAttestationSourceEpoch p \<le> a"
    "v = Some p \<Longrightarrow> LastSignedAttestationTargetEpoch p = Some c \<Longrightarrow> c < b"
  using assms
  by (auto simp: sign_attestation_def protection_le_def not_less not_le split: option.splits if_splits)

lemma sign_proposal_Ok:
  assumes "sign_proposal slot v = Ok q"
  shows "LatestSignedBlockSlot q = Some slot" "v = Some p \<Longrightarrow> protection_le p q"
    "v = Some p \<Longrightarrow> LatestSignedBlockSlot p = Some c \<Longrightarrow> c < slot"
  using assms by (auto simp: sign_proposal_def protection_le_def not_le split: option.splits if_splits)

lemma import_attestations_le: "import_attestations e (Some p) = Ok q \<Longrightarrow> protection_le p q"
  by (auto simp: import_attestations_def protection_le_def split: option.splits prod.splits)

lemma update_effect_raises:
  assumes "update_effect E S pk decide s accepted t" and "\<And>p q. decide (Some p) = Ok q \<Longrightarrow> protection_le p q"
  shows "raises (stored E S s pk') (stored E S t pk')"
proof (cases "accepted \<and> pk' = pk")
  case True
  then obtain v p where "stored E S s pk = map_option Some v" "decide v = Ok p"
      "stored E S t pk = Some (Some p)"
    using assms(1) by (auto simp: update_effect_def)
  then show ?thesis using True assms(2) by (cases v) (auto simp: raises_def)
next
  case False
  then show ?thesis using assms(1) by (auto simp: update_effect_def split: if_splits)
qed

section \<open>Sequences of calls\<close>

datatype protection_call =
    Call_attest pubkey "indexed_att option"
  | Call_propose pubkey slot
  | Call_import pubkey "indexed_att option list"
  | Call_update_keys "pubkey list"

fun protection_step :: "protection_env \<Rightarrow> protection_store \<Rightarrow> protection_call \<Rightarrow> unit protection_op" where
  "protection_step E S (Call_attest pk att) = SlashableAttestationCheck E S att pk"
| "protection_step E S (Call_propose pk slot) = SlashableProposalCheck E S pk slot"
| "protection_step E S (Call_import pk atts) = SaveAttestationsForPubKey E S pk atts"
| "protection_step E S (Call_update_keys pks) = UpdatePublicKeysBuckets E S pks"

text \<open>The votes and the block slots of a key that the checks accepted, in order.\<close>

fun signed_votes :: "pubkey \<Rightarrow> protection_call list \<Rightarrow> (protection_error, unit) outcome list \<Rightarrow> (u64 \<times> u64) list" where
  "signed_votes pk (Call_attest pk' att # calls) (r # rs) =
     (case att_epochs att of
        Some e \<Rightarrow> if pk' = pk \<and> r = Ok () then e # signed_votes pk calls rs else signed_votes pk calls rs
      | None \<Rightarrow> signed_votes pk calls rs)"
| "signed_votes pk (_ # calls) (_ # rs) = signed_votes pk calls rs"
| "signed_votes pk _ _ = []"

fun signed_slots :: "pubkey \<Rightarrow> protection_call list \<Rightarrow> (protection_error, unit) outcome list \<Rightarrow> slot list" where
  "signed_slots pk (Call_propose pk' slot # calls) (r # rs) =
     (if pk' = pk \<and> r = Ok () then slot # signed_slots pk calls rs else signed_slots pk calls rs)"
| "signed_slots pk (_ # calls) (_ # rs) = signed_slots pk calls rs"
| "signed_slots pk _ _ = []"

text \<open>The slashing conditions for two different votes of one validator.\<close>

definition slashable_votes :: "u64 \<times> u64 \<Rightarrow> u64 \<times> u64 \<Rightarrow> bool" where
  "slashable_votes = (\<lambda>(s1, t1) (s2, t2). t1 = t2 \<or> s1 < s2 \<and> t2 < t1 \<or> s2 < s1 \<and> t1 < t2)"

definition vote_above :: "validator_slashing_protection option option \<Rightarrow> u64 \<times> u64 \<Rightarrow> bool" where
  "vote_above v e = (case v of None \<Rightarrow> True | Some None \<Rightarrow> False
     | Some (Some p) \<Rightarrow> LastSignedAttestationSourceEpoch p \<le> fst e \<and>
         (\<forall>c. LastSignedAttestationTargetEpoch p = Some c \<longrightarrow> c < snd e))"

definition slot_above :: "validator_slashing_protection option option \<Rightarrow> slot \<Rightarrow> bool" where
  "slot_above v slot = (case v of None \<Rightarrow> True | Some None \<Rightarrow> False
     | Some (Some p) \<Rightarrow> (\<forall>c. LatestSignedBlockSlot p = Some c \<longrightarrow> c < slot))"

lemma opt_le_SomeD: "opt_le (Some c) x \<Longrightarrow> \<exists>d. x = Some d \<and> c \<le> d"
  by (cases x) auto

lemma above_raises:
  assumes "raises v w"
  shows "vote_above w e \<Longrightarrow> vote_above v e" "slot_above w sl \<Longrightarrow> slot_above v sl"
proof -
  consider "w = v" | q where "w = Some (Some q)" "v = None"
    | p q where "w = Some (Some q)" "v = Some (Some p)" "protection_le p q"
    using assms unfolding raises_def by blast
  then have "(vote_above w e \<longrightarrow> vote_above v e) \<and> (slot_above w sl \<longrightarrow> slot_above v sl)"
  proof cases
    case (3 p q)
    then show ?thesis
      by (auto simp: vote_above_def slot_above_def protection_le_def dest!: opt_le_SomeD
          intro: order_trans le_less_trans)
  qed (simp_all add: vote_above_def slot_above_def)
  then show "vote_above w e \<Longrightarrow> vote_above v e" "slot_above w sl \<Longrightarrow> slot_above v sl" by auto
qed

lemma UpdatePublicKeysBuckets_run:
  assumes E: "protection_env_ok E" and nt: "no_torn_write s"
    and run: "UpdatePublicKeysBuckets E S pks s = (r, t)"
  shows "no_torn_write t \<and> raises (stored E S s pk) (stored E S t pk)"
proof -
  have loop: "no_torn_write t \<and> raises (stored E S s pk) (stored E S t pk)"
    if "for_each pks (\<lambda>pubKey. let path = pubkeySlashingProtectionFilePath E S pubKey in
      bind (wrap_err FileError (file_Exists path Regular)) (\<lambda>exists.
        if exists then ret () else wrap_err FileError (file_WriteFile path (yaml_Marshal E empty_protection)))) s = (r, t)"
      "no_torn_write s" for s r t
    using that
  proof (induction pks arbitrary: s)
    case Nil
    then show ?case by (simp add: ret_def)
  next
    case (Cons k pks)
    let ?p = "pubkeySlashingProtectionFilePath E S k"
    let ?body = "bind (wrap_err FileError (file_Exists ?p Regular)) (\<lambda>exists.
        if exists then ret () else wrap_err FileError (file_WriteFile ?p (yaml_Marshal E empty_protection)))"
    obtain r1 s1 where body: "?body s = (r1, s1)" by fastforce
    obtain re se where ex: "file_Exists ?p Regular s = (re, se)" by fastforce
    note kx = keeps_filesD[OF keeps_files_io(1) ex]
    have one: "no_torn_write s1 \<and> raises (stored E S s pk) (stored E S s1 pk)"
    proof (cases "re = Ok False")
      case True
      obtain rw where wr: "file_WriteFile ?p (yaml_Marshal E empty_protection) se = (rw, s1)"
        using body ex True by (auto simp: bind_def wrap_err_def split: prod.splits)
      note w = file_WriteFile_effect[OF wr kx(3)[OF Cons.prems(2)]]
      have "stored E S s k = None" using file_Exists_Ok[of ?p s False se] ex True by (simp add: stored_def)
      then show ?thesis using stored_write[OF E w, of pk] stored_cong[OF kx(1)] w
        by (auto simp: raises_def write_effect_def)
    next
      case False
      then have "s1 = se" using body ex kx(2)
        by (cases re) (auto simp: bind_def wrap_err_def ret_def)
      then show ?thesis using kx(3)[OF Cons.prems(2)] stored_cong[OF kx(1)] by simp
    qed
    have "r1 = Ok () \<and> for_each pks (\<lambda>pubKey. let path = pubkeySlashingProtectionFilePath E S pubKey in
      bind (wrap_err FileError (file_Exists path Regular)) (\<lambda>exists.
        if exists then ret () else wrap_err FileError (file_WriteFile path (yaml_Marshal E empty_protection)))) s1 = (r, t) \<or> t = s1"
      using Cons.prems(1) body by (cases r1) (auto simp: seq_def bind_def Let_def)
    then show ?case using Cons.IH[of s1] one raises_trans by blast
  qed
  obtain r1 s1 where mk: "file_MkdirAll (slashingProtectionDirPath S) s = (r1, s1)" by fastforce
  note k = keeps_filesD[OF keeps_files_io(3) mk]
  show ?thesis
  proof (cases "r1 = Ok ()")
    case True
    then show ?thesis using run mk loop[OF _ k(3)[OF nt]] stored_cong[OF k(1)]
      by (simp add: UpdatePublicKeysBuckets_def seq_def bind_def wrap_err_def)
  next
    case False
    then have "t = s1" using run mk k(2)
      by (cases r1) (auto simp: UpdatePublicKeysBuckets_def seq_def bind_def wrap_err_def)
    then show ?thesis using k(3)[OF nt] stored_cong[OF k(1)] by simp
  qed
qed

lemma attest_run:
  assumes E: "protection_env_ok E" and nt: "no_torn_write s"
    and run: "SlashableAttestationCheck E S att pk s = (r, t)"
  shows "no_torn_write t" "raises (stored E S s pk') (stored E S t pk')"
    "r = Ok () \<Longrightarrow> \<exists>e q. att_epochs att = Some e \<and> vote_above (stored E S s pk) e \<and>
      stored E S t pk = Some (Some q) \<and> LastSignedAttestationSourceEpoch q = fst e \<and>
      LastSignedAttestationTargetEpoch q = Some (snd e)"
proof -
  obtain r' where sv: "SaveAttestationForPubKey E S pk att s = (r', t)" and ok: "r = Ok () \<longleftrightarrow> r' = Ok ()"
    using run by (auto simp: SlashableAttestationCheck_def wrap_err_run owrap_Ok_iff)
  have "no_torn_write t \<and> raises (stored E S s pk') (stored E S t pk') \<and>
    (r = Ok () \<longrightarrow> (\<exists>e q. att_epochs att = Some e \<and> vote_above (stored E S s pk) e \<and>
      stored E S t pk = Some (Some q) \<and> LastSignedAttestationSourceEpoch q = fst e \<and>
      LastSignedAttestationTargetEpoch q = Some (snd e)))"
  proof (cases "att_epochs att")
    case None
    then show ?thesis using sv nt ok by (auto simp: SaveAttestation_update fail_def)
  next
    case (Some e)
    obtain a b where e: "e = (a, b)" by fastforce
    have np: "\<And>v. sign_attestation e v \<noteq> Panic"
      by (auto simp: sign_attestation_def split: option.splits prod.splits)
    have upd: "update_protection E S pk (sign_attestation e) s = (r', t)"
      using sv Some by (simp add: SaveAttestation_update)
    note eff = update_protection_run(1)[OF E nt np upd]
    have "raises (stored E S s pk') (stored E S t pk')"
      using eff sign_attestation_Ok(3) unfolding e by (intro update_effect_raises) blast+
    moreover have "\<exists>q. vote_above (stored E S s pk) e \<and> stored E S t pk = Some (Some q) \<and>
        LastSignedAttestationSourceEpoch q = fst e \<and> LastSignedAttestationTargetEpoch q = Some (snd e)"
      if acc: "r' = Ok ()"
    proof -
      obtain v q where v: "stored E S s pk = map_option Some v" and q: "sign_attestation (a, b) v = Ok q"
          "stored E S t pk = Some (Some q)"
        using eff acc by (auto simp: update_effect_def e)
      then show ?thesis using sign_attestation_Ok(1,2)[OF q(1)] sign_attestation_Ok(4,5)[OF q(1)]
        by (cases v) (auto simp: vote_above_def e)
    qed
    ultimately show ?thesis using eff Some ok by (auto simp: update_effect_def)
  qed
  then show "no_torn_write t" "raises (stored E S s pk') (stored E S t pk')"
    "r = Ok () \<Longrightarrow> \<exists>e q. att_epochs att = Some e \<and> vote_above (stored E S s pk) e \<and>
      stored E S t pk = Some (Some q) \<and> LastSignedAttestationSourceEpoch q = fst e \<and>
      LastSignedAttestationTargetEpoch q = Some (snd e)" by blast+
qed

lemma propose_run:
  assumes E: "protection_env_ok E" and nt: "no_torn_write s"
    and run: "SlashableProposalCheck E S pk slot s = (r, t)"
  shows "no_torn_write t" "raises (stored E S s pk') (stored E S t pk')"
    "r = Ok () \<Longrightarrow> slot_above (stored E S s pk) slot \<and>
      (\<exists>q. stored E S t pk = Some (Some q) \<and> LatestSignedBlockSlot q = Some slot)"
proof -
  obtain r' where sv: "update_protection E S pk (sign_proposal slot) s = (r', t)" and ok: "r = Ok () \<longleftrightarrow> r' = Ok ()"
    using run by (auto simp: SlashableProposalCheck_def wrap_err_run owrap_Ok_iff SaveProposal_update)
  have np: "\<And>v. sign_proposal slot v \<noteq> Panic" by (auto simp: sign_proposal_def split: option.splits)
  note eff = update_protection_run(1)[OF E nt np sv]
  show "no_torn_write t" using eff by (simp add: update_effect_def)
  show "raises (stored E S s pk') (stored E S t pk')"
    using eff sign_proposal_Ok(2) by (intro update_effect_raises) blast+
  show "slot_above (stored E S s pk) slot \<and>
      (\<exists>q. stored E S t pk = Some (Some q) \<and> LatestSignedBlockSlot q = Some slot)" if acc: "r = Ok ()"
  proof -
    obtain v q where v: "stored E S s pk = map_option Some v" and q: "sign_proposal slot v = Ok q"
        "stored E S t pk = Some (Some q)"
      using eff acc ok by (auto simp: update_effect_def)
    then show ?thesis using sign_proposal_Ok(1)[OF q(1)] sign_proposal_Ok(3)[OF q(1)]
      by (cases v) (auto simp: slot_above_def)
  qed
qed

lemma import_run:
  assumes E: "protection_env_ok E" and nt: "no_torn_write s"
    and run: "SaveAttestationsForPubKey E S pk atts s = (r, t)"
  shows "no_torn_write t \<and> raises (stored E S s pk') (stored E S t pk')"
proof (cases "\<exists>e. maxSourceTargetEpoch atts = Ok e \<and> atts \<noteq> []")
  case True
  then obtain e where e: "maxSourceTargetEpoch atts = Ok e" "atts \<noteq> []" by blast
  have upd: "update_protection E S pk (import_attestations e) s = (r, t)"
    using run e by (simp add: SaveAttestations_update bind_def wrap_err_def lift_def del: maxSourceTargetEpoch.simps)
  have np: "\<And>v. import_attestations e v \<noteq> Panic" by (simp add: import_attestations_def split: prod.split)
  note eff = update_protection_run(1)[OF E nt np upd]
  show ?thesis using eff update_effect_raises[OF eff import_attestations_le] by (simp add: update_effect_def)
next
  case False
  then have "t = s" using run
    by (cases "maxSourceTargetEpoch atts")
      (auto simp: SaveAttestations_update bind_def wrap_err_def lift_def ret_def
        simp del: maxSourceTargetEpoch.simps split: if_splits)
  then show ?thesis using nt by simp
qed

lemma protection_step_run:
  assumes E: "protection_env_ok E" and nt: "no_torn_write s" and run: "protection_step E S c s = (r, t)"
  shows "no_torn_write t \<and> raises (stored E S s pk) (stored E S t pk)"
proof (cases c)
  case (Call_attest k att)
  then show ?thesis using attest_run(1,2)[OF E nt] run by auto
next
  case (Call_propose k slot)
  then show ?thesis using propose_run(1,2)[OF E nt] run by auto
next
  case (Call_import k atts)
  then show ?thesis using import_run[OF E nt] run by auto
next
  case (Call_update_keys ks)
  then show ?thesis using UpdatePublicKeysBuckets_run[OF E nt] run by auto
qed

lemma run_ops_Cons:
  assumes "run_ops step (c # cs) s = (rs, t)"
  obtains r s1 rs' where "step c s = (r, s1)" "run_ops step cs s1 = (rs', t)" "rs = r # rs'"
  using assms by (auto simp: Let_def split: prod.splits)

lemma signed_votes_ordered:
  assumes E: "protection_env_ok E" and "no_torn_write s"
    and "run_ops (protection_step E S) calls s = (rs, t)"
  shows "(\<forall>e\<in>set (signed_votes pk calls rs). vote_above (stored E S s pk) e) \<and>
    sorted_wrt (\<lambda>(a, b) (c, d). a \<le> c \<and> b < d) (signed_votes pk calls rs)"
  using assms(2,3)
proof (induction calls arbitrary: s rs)
  case (Cons c calls)
  from Cons.prems(2) obtain r s1 rs' where step: "protection_step E S c s = (r, s1)"
    and rest: "run_ops (protection_step E S) calls s1 = (rs', t)" and rs: "rs = r # rs'"
    by (rule run_ops_Cons)
  have s1: "no_torn_write s1" "raises (stored E S s pk) (stored E S s1 pk)"
    using protection_step_run[OF E Cons.prems(1) step] by auto
  note IH = Cons.IH[OF s1(1) rest]
  have later: "\<forall>e\<in>set (signed_votes pk calls rs'). vote_above (stored E S s pk) e"
    using IH above_raises(1)[OF s1(2)] by blast
  show ?case
  proof (cases "\<exists>att e. c = Call_attest pk att \<and> att_epochs att = Some e \<and> r = Ok ()")
    case True
    then obtain att e where c: "c = Call_attest pk att" "att_epochs att = Some e" "r = Ok ()" by blast
    then obtain q where "vote_above (stored E S s pk) e" and q: "stored E S s1 pk = Some (Some q)"
        "LastSignedAttestationSourceEpoch q = fst e" "LastSignedAttestationTargetEpoch q = Some (snd e)"
      using attest_run(3)[OF E Cons.prems(1)] step by fastforce
    moreover have "fst e \<le> fst e' \<and> snd e < snd e'" if "e' \<in> set (signed_votes pk calls rs')" for e'
      using IH that q by (auto simp: vote_above_def)
    ultimately show ?thesis using IH later c rs by (auto simp: case_prod_unfold)
  next
    case False
    then have "signed_votes pk (c # calls) rs = signed_votes pk calls rs'"
      by (cases c) (auto simp: rs split: option.split)
    then show ?thesis using IH later by simp
  qed
qed simp

lemma signed_slots_ordered:
  assumes E: "protection_env_ok E" and "no_torn_write s"
    and "run_ops (protection_step E S) calls s = (rs, t)"
  shows "(\<forall>sl\<in>set (signed_slots pk calls rs). slot_above (stored E S s pk) sl) \<and>
    sorted_wrt (<) (signed_slots pk calls rs)"
  using assms(2,3)
proof (induction calls arbitrary: s rs)
  case (Cons c calls)
  from Cons.prems(2) obtain r s1 rs' where step: "protection_step E S c s = (r, s1)"
    and rest: "run_ops (protection_step E S) calls s1 = (rs', t)" and rs: "rs = r # rs'"
    by (rule run_ops_Cons)
  have s1: "no_torn_write s1" "raises (stored E S s pk) (stored E S s1 pk)"
    using protection_step_run[OF E Cons.prems(1) step] by auto
  note IH = Cons.IH[OF s1(1) rest]
  have later: "\<forall>sl\<in>set (signed_slots pk calls rs'). slot_above (stored E S s pk) sl"
    using IH above_raises(2)[OF s1(2)] by blast
  show ?case
  proof (cases "\<exists>slot. c = Call_propose pk slot \<and> r = Ok ()")
    case True
    then obtain slot where c: "c = Call_propose pk slot" "r = Ok ()" by blast
    then have "slot_above (stored E S s pk) slot" and
        "\<exists>q. stored E S s1 pk = Some (Some q) \<and> LatestSignedBlockSlot q = Some slot"
      using propose_run(3)[OF E Cons.prems(1)] step by auto
    moreover from this(2) have "slot < sl" if "sl \<in> set (signed_slots pk calls rs')" for sl
      using IH that by (auto simp: slot_above_def)
    ultimately show ?thesis using IH later c rs by auto
  next
    case False
    then have "signed_slots pk (c # calls) rs = signed_slots pk calls rs'"
      by (cases c) (auto simp: rs)
    then show ?thesis using IH later by simp
  qed
qed simp

section \<open>Concrete encoders\<close>

text \<open>A fixed-length encoding of the record, and file names of one character per byte. As in YAML,
  an empty document is the zero record.\<close>

fun put_opt :: "u64 option \<Rightarrow> bytes" where
  "put_opt None = 0 # put_le 8 0"
| "put_opt (Some x) = 1 # put_le 8 x"

definition get_opt :: "bytes \<Rightarrow> u64 option" where
  "get_opt bs = (if hd bs = 0 then None else Some (get_le (tl bs)))"

definition example_Marshal :: "validator_slashing_protection \<Rightarrow> bytes" where
  "example_Marshal v = put_opt (LatestSignedBlockSlot v) @ put_le 8 (LastSignedAttestationSourceEpoch v) @
     put_opt (LastSignedAttestationTargetEpoch v)"

definition example_Unmarshal :: "bytes \<Rightarrow> validator_slashing_protection option" where
  "example_Unmarshal bs =
     (if bs = [] then Some empty_protection
      else if length bs \<noteq> 26 then None
      else Some \<lparr>LatestSignedBlockSlot = get_opt (take 9 bs),
        LastSignedAttestationSourceEpoch = get_le (take 8 (drop 9 bs)),
        LastSignedAttestationTargetEpoch = get_opt (drop 17 bs)\<rparr>)"

definition example_protection_env :: protection_env where
  "example_protection_env = \<lparr>yaml_Marshal = example_Marshal, yaml_Unmarshal = example_Unmarshal,
     hexutil_Encode = map (\<lambda>b. char_of (unat b)),
     hexutil_Decode = (\<lambda>s. Some (map (\<lambda>c. of_nat (of_char c)) s))\<rparr>"

lemma put_opt_roundtrip [simp]: "length (put_opt x) = 9" "get_opt (put_opt x) = x"
  by (cases x; simp add: get_opt_def get_le_put_le)+

lemma example_env_ok: "protection_env_ok example_protection_env"
proof -
  have "example_Unmarshal (example_Marshal v) = Some v" for v
  proof -
    have "length (example_Marshal v) = 26" by (simp add: example_Marshal_def)
    then have "example_Marshal v \<noteq> []" by (metis list.size(3) zero_neq_numeral)
    then show ?thesis by (simp add: example_Unmarshal_def) (simp add: example_Marshal_def get_le_put_le)
  qed
  moreover have "inj (map (\<lambda>b :: u8. char_of (unat b)))"
  proof (rule inj_mapI, rule injI)
    fix a b :: u8
    assume eq: "char_of (unat a) = (char_of (unat b) :: char)"
    have "unat a < 256" "unat b < 256" using unsigned_less[of a] unsigned_less[of b] by simp_all
    then have "of_char (char_of (unat a) :: char) = unat a" "of_char (char_of (unat b) :: char) = unat b"
      by simp_all
    with eq show "a = b" by (metis unsigned_word_eqI)
  qed
  ultimately show ?thesis by (simp add: protection_env_ok_def example_protection_env_def)
qed

definition example_vote :: "u64 \<Rightarrow> u64 \<Rightarrow> indexed_att option" where
  "example_vote source target = Some (IndexedAttestation \<lparr>AttestingIndices = [1],
     Data = Some \<lparr>d_Slot = 0, d_CommitteeIndex = 0, d_BeaconBlockRoot = [],
       d_Source = Some \<lparr>c_Epoch = source, c_Root = []\<rparr>,
       d_Target = Some \<lparr>c_Epoch = target, c_Root = []\<rparr>\<rparr>, Signature = []\<rparr>)"

lemma example_vote_epochs [simp]: "att_epochs (example_vote source target) = Some (source, target)"
  by (simp add: example_vote_def)

definition example_store :: protection_store where
  "example_store = \<lparr>databaseParentPath = ''/d'', databasePath = ''/d/v''\<rparr>"

definition example_os :: os_state where
  "example_os = \<lparr>os_dirs = [''/d''], os_files = [], os_faults = []\<rparr>"

section \<open>The safety of the protection\<close>

text \<open>C11: However the calls that sign attestations, sign blocks, import histories and create key files
  follow each other, and whichever of them fail with an I/O error, the attestations that the
  slashing protection accepts for one key never contain a double or a surround vote, and the slots
  of the blocks it accepts strictly increase. The assumption is that no write is torn.\<close>

theorem accepted_never_slashable:
  assumes "protection_env_ok E" and "no_torn_write s"
    and "run_ops (protection_step E S) calls s = (rs, t)"
  shows "sorted_wrt (\<lambda>v w. \<not> slashable_votes v w) (signed_votes pk calls rs) \<and>
    sorted_wrt (<) (signed_slots pk calls rs)"
proof -
  have "sorted_wrt (\<lambda>(a, b) (c, d). a \<le> c \<and> b < d) (signed_votes pk calls rs)"
    using signed_votes_ordered[OF assms] by blast
  then have "sorted_wrt (\<lambda>v w. \<not> slashable_votes v w) (signed_votes pk calls rs)"
    by (rule sorted_wrt_mono_rel[rotated]) (auto simp: slashable_votes_def)
  then show ?thesis using signed_slots_ordered[OF assms] by blast
qed

text \<open>Two calls in a row sign; a double vote, a surrounding vote and a second block at slot 5 are refused.\<close>

definition example_calls :: "protection_call list" where
  "example_calls = [Call_update_keys [[7]], Call_attest [7] (example_vote 2 3), Call_propose [7] 5,
     Call_attest [7] (example_vote 2 3), Call_attest [7] (example_vote 1 9), Call_propose [7] 5,
     Call_attest [7] (example_vote 3 4), Call_propose [7] 6]"

theorem accepted_never_slashable_witness:
  "(let rs = fst (run_ops (protection_step example_protection_env example_store) example_calls example_os) in
    sorted_wrt (\<lambda>v w. \<not> slashable_votes v w) (signed_votes [7] example_calls rs) \<and>
    sorted_wrt (<) (signed_slots [7] example_calls rs) \<and>
    signed_votes [7] example_calls rs = [(2, 3), (3, 4)] \<and> signed_slots [7] example_calls rs = [5, 6])"
proof -
  let ?R = "run_ops (protection_step example_protection_env example_store) example_calls example_os"
  have "no_torn_write example_os" by (simp add: no_torn_write_def example_os_def)
  from accepted_never_slashable[OF example_env_ok this, of example_store example_calls "fst ?R" "snd ?R" "[7]"]
  have "sorted_wrt (\<lambda>v w. \<not> slashable_votes v w) (signed_votes [7] example_calls (fst ?R)) \<and>
    sorted_wrt (<) (signed_slots [7] example_calls (fst ?R))" by simp
  moreover have "signed_votes [7] example_calls (fst ?R) = [(2, 3), (3, 4)]" by code_simp
  moreover have "signed_slots [7] example_calls (fst ?R) = [5, 6]" by code_simp
  ultimately show ?thesis by (simp add: Let_def)
qed

end
