(* ===== verification/Validator_Hazards.thy ===== *)
theory Validator_Hazards
  imports Validator_Protection
begin

text \<open>
  Two ways in which the file-system slashing protection loses a record. An attestation
  locks the name made of its role and the key, a proposal the names of its role and of the key
  (\<open>validator/client/attest.go\<close>, \<open>propose.go\<close>), so the two do not exclude each other and may interleave
  between the read and the write of the shared file. And a write that
  is interrupted after the file has been truncated leaves a file that reads as an empty record.
  The theory also has the concrete encoders with which the properties of the protection are
  evaluated.
\<close>

section \<open>Calls that succeed\<close>

text \<open>The file of the key exists with the right permissions, in an existing directory.\<close>

definition file_ready :: "protection_env \<Rightarrow> protection_store \<Rightarrow> pubkey \<Rightarrow> os_state \<Rightarrow> bool" where
  "file_ready E S pk s \<longleftrightarrow>
     (let p = pubkeySlashingProtectionFilePath E S pk; dir = slashingProtectionDirPath S in
      map_option fst (map_of (os_files s) p) = Some ReadWritePermissions \<and> p \<notin> set (os_dirs s) \<and>
      path_Dir p \<in> set (os_dirs s) \<and> map_of (os_files s) dir = None \<and> dir \<in> set (os_dirs s))"

lemma file_ready_put:
  assumes "file_ready E S pk s"
  shows "file_ready E S pk (put_file (pubkeySlashingProtectionFilePath E S pk) perm data s)"
  using assms by (auto simp: file_ready_def Let_def put_file_def update_conv')

lemma file_ready_faults [simp]: "file_ready E S pk (s\<lparr>os_faults := fs\<rparr>) = file_ready E S pk s"
  by (simp add: file_ready_def)

lemma next_fault_eval:
  "os_faults s = [] \<Longrightarrow> next_fault s = (Ok NoFault, s)"
  "os_faults s = f # fs \<Longrightarrow> next_fault s = (Ok f, s\<lparr>os_faults := fs\<rparr>)"
  by (simp_all add: next_fault_def)

definition drop_fault :: "os_state \<Rightarrow> os_state" where
  "drop_fault s = s\<lparr>os_faults := tl (os_faults s)\<rparr>"

lemma next_fault_none: "os_faults s = [] \<or> hd (os_faults s) = NoFault \<Longrightarrow> next_fault s = (Ok NoFault, drop_fault s)"
  by (cases "os_faults s") (auto simp: next_fault_def drop_fault_def)

lemma drop_fault_fields [simp]:
  "os_files (drop_fault s) = os_files s" "os_dirs (drop_fault s) = os_dirs s"
  "os_faults (drop_fault s) = tl (os_faults s)" "file_data (drop_fault s) p = file_data s p"
  by (simp_all add: drop_fault_def file_data_def)

lemma drop_fault_empty: "os_faults s = [] \<Longrightarrow> drop_fault s = s"
  by (simp add: drop_fault_def)

definition calm :: "nat \<Rightarrow> os_state \<Rightarrow> bool" where
  "calm n s \<longleftrightarrow> (\<forall>f\<in>set (take n (os_faults s)). f = NoFault)"

lemma calm_Suc: "calm (Suc n) s \<Longrightarrow> (os_faults s = [] \<or> hd (os_faults s) = NoFault) \<and> calm n (drop_fault s)"
  by (cases "os_faults s") (auto simp: calm_def)

lemma read_ready:
  assumes "file_ready E S pk s" "stored E S s pk = Some (Some v)" "calm 2 s"
  shows "validatorSlashingProtection E S pk s = (Ok (Some v), drop_fault (drop_fault s))"
proof -
  let ?p = "pubkeySlashingProtectionFilePath E S pk"
  obtain d where f: "map_of (os_files s) ?p = Some (ReadWritePermissions, d)" and v: "yaml_Unmarshal E d = Some v"
    using assms(1,2) by (auto simp: file_ready_def Let_def stored_def file_data_def)
  have c: "os_faults s = [] \<or> hd (os_faults s) = NoFault"
      "os_faults (drop_fault s) = [] \<or> hd (os_faults (drop_fault s)) = NoFault"
    using assms(3) calm_Suc[of 1 s] calm_Suc[of 0 "drop_fault s"] by (auto simp: numeral_2_eq_2)
  note n = next_fault_none[OF c(1)] next_fault_none[OF c(2)]
  have "file_Exists ?p Regular s = (Ok True, drop_fault s)"
    using n(1) f by (simp add: file_Exists_def os_Stat_def os_call_def bind_def reads_def catch_def ret_def Let_def)
  moreover have "os_ReadFile ?p (drop_fault s) = (Ok d, drop_fault (drop_fault s))"
    using n(2) f by (simp add: os_ReadFile_def os_call_def bind_def reads_def)
  ultimately show ?thesis using v
    by (simp add: validatorSlashingProtection_def Let_def bind_def wrap_err_def ret_def)
qed

lemma save_ready:
  assumes r: "file_ready E S pk s" and c: "calm 3 s"
  defines "p \<equiv> pubkeySlashingProtectionFilePath E S pk"
    and "u \<equiv> drop_fault (drop_fault (drop_fault s))"
  shows "saveValidatorSlashingProtection E S pk v s =
    (let (r, t) = os_WriteFile p (yaml_Marshal E v) ReadWritePermissions u in (owrap FileError r, t))"
proof -
  let ?dir = "slashingProtectionDirPath S"
  obtain d where f: "map_of (os_files s) p = Some (ReadWritePermissions, d)"
    using r by (auto simp: file_ready_def Let_def p_def)
  have dir: "map_of (os_files s) ?dir = None" "?dir \<in> set (os_dirs s)"
    using r by (auto simp: file_ready_def Let_def)
  have c: "os_faults s = [] \<or> hd (os_faults s) = NoFault"
      "os_faults (drop_fault s) = [] \<or> hd (os_faults (drop_fault s)) = NoFault"
      "os_faults (drop_fault (drop_fault s)) = [] \<or> hd (os_faults (drop_fault (drop_fault s))) = NoFault"
    using c calm_Suc[of 2 s] calm_Suc[of 1 "drop_fault s"] calm_Suc[of 0 "drop_fault (drop_fault s)"]
    by (auto simp: numeral_3_eq_3 numeral_2_eq_2)
  note n = next_fault_none[OF c(1)] next_fault_none[OF c(2)] next_fault_none[OF c(3)]
  have "file_MkdirAll ?dir s = (Ok (), drop_fault s)"
    using n(1) dir by (simp add: file_MkdirAll_def HasDir_def os_Stat_def os_call_def bind_def reads_def catch_def ret_def)
  moreover have "file_Exists p Regular (drop_fault s) = (Ok True, drop_fault (drop_fault s))"
    using n(2) f by (simp add: file_Exists_def os_Stat_def os_call_def bind_def reads_def catch_def ret_def Let_def)
  moreover have "os_Stat p (drop_fault (drop_fault s)) = (Ok (Info_file ReadWritePermissions), u)"
    using n(3) f by (simp add: os_Stat_def os_call_def bind_def reads_def u_def)
  ultimately show ?thesis
    by (simp add: saveValidatorSlashingProtection_def file_WriteFile_def seq_def bind_def wrap_err_def ret_def
        p_def[symmetric] split: outcome.split prod.split)
qed

lemma save_ready_Ok:
  assumes E: "protection_env_ok E" and r: "file_ready E S pk s" and nf: "os_faults s = []"
  shows "\<exists>t. saveValidatorSlashingProtection E S pk v s = (Ok (), t) \<and> file_ready E S pk t \<and>
    os_faults t = [] \<and> stored E S t pk = Some (Some v)"
proof -
  let ?p = "pubkeySlashingProtectionFilePath E S pk"
  let ?t = "put_file ?p ReadWritePermissions (yaml_Marshal E v) s"
  have "calm 3 s" using nf by (simp add: calm_def)
  moreover have "os_WriteFile ?p (yaml_Marshal E v) ReadWritePermissions s = (Ok (), ?t)"
    using nf r by (auto simp: os_WriteFile_def bind_def next_fault_eval file_ready_def Let_def)
  ultimately have "saveValidatorSlashingProtection E S pk v s = (Ok (), ?t)"
    using save_ready[OF r] by (simp add: drop_fault_empty nf)
  moreover have "stored E S ?t pk = Some (Some v)"
    using E by (simp add: stored_def file_data_put protection_env_ok_def)
  ultimately show ?thesis using file_ready_put[OF r] nf by (auto simp: put_file_def)
qed

lemma update_ready:
  assumes E: "protection_env_ok E" and r: "file_ready E S pk s" and nf: "os_faults s = []"
    and "stored E S s pk = Some (Some v)" and "decide (Some v) = Ok q"
  shows "\<exists>t. update_protection E S pk decide s = (Ok (), t) \<and> file_ready E S pk t \<and>
    os_faults t = [] \<and> stored E S t pk = Some (Some q)"
proof -
  have "calm 2 s" using nf by (simp add: calm_def)
  then have rd: "validatorSlashingProtection E S pk s = (Ok (Some v), s)"
    using read_ready[OF r assms(4)] by (simp add: drop_fault_empty nf)
  obtain t where t: "saveValidatorSlashingProtection E S pk q s = (Ok (), t)" "file_ready E S pk t"
      "os_faults t = []" "stored E S t pk = Some (Some q)"
    using save_ready_Ok[OF E r nf, of q] by blast
  then have "update_protection E S pk decide s = (Ok (), t)"
    using rd assms(5) by (simp add: update_protection_def bind_def wrap_err_def lift_def)
  with t show ?thesis by blast
qed

section \<open>The hazards\<close>

text \<open>C15: The locks do not serialise an attestation and a proposal of one key. When the proposal at a
  slot runs between the read and the write of the attestation, the write restores the old
  block slot, and the protection then accepts a second block for the same slot.\<close>

theorem proposal_lost_between_read_and_write:
  assumes E: "protection_env_ok E" and r: "file_ready E S pk s" and nf: "os_faults s = []"
    and v: "stored E S s pk = Some (Some p)"
    and att: "sign_attestation (source, target) (Some p) = Ok q"
    and blk: "sign_proposal slot (Some p) = Ok p'"
  shows "\<exists>s1 s2 s3 s4.
    validatorSlashingProtection E S pk s = (Ok (Some p), s1) \<and>
    SlashableProposalCheck E S pk slot s1 = (Ok (), s2) \<and>
    saveValidatorSlashingProtection E S pk q s2 = (Ok (), s3) \<and>
    SlashableProposalCheck E S pk slot s3 = (Ok (), s4)"
proof -
  have check: "\<exists>t. SlashableProposalCheck E S pk slot u = (Ok (), t) \<and> file_ready E S pk t \<and> os_faults t = []"
    if "file_ready E S pk u" "os_faults u = []" "stored E S u pk = Some (Some w)" "sign_proposal slot (Some w) = Ok w'"
    for u w w'
    using update_ready[OF E that(1,2,3), of "sign_proposal slot"] that(4) by (auto simp: SlashableProposalCheck_def SaveProposal_update wrap_err_run)
  have "calm 2 s" using nf by (simp add: calm_def)
  then have rd: "validatorSlashingProtection E S pk s = (Ok (Some p), s)"
    using read_ready[OF r v] by (simp add: drop_fault_empty nf)
  obtain s2 where s2: "SlashableProposalCheck E S pk slot s = (Ok (), s2)" "file_ready E S pk s2" "os_faults s2 = []"
    using check[OF r nf v blk] by blast
  obtain s3 where s3: "saveValidatorSlashingProtection E S pk q s2 = (Ok (), s3)" "file_ready E S pk s3"
      "os_faults s3 = []" "stored E S s3 pk = Some (Some q)"
    using save_ready_Ok[OF E s2(2,3)] by blast
  have "LatestSignedBlockSlot q = LatestSignedBlockSlot p"
    using att by (auto simp: sign_attestation_def split: option.splits if_splits)
  then have "\<exists>w. sign_proposal slot (Some q) = Ok w"
    using blk by (auto simp: sign_proposal_def split: option.splits if_splits)
  then obtain s4 where "SlashableProposalCheck E S pk slot s3 = (Ok (), s4)"
    using check[OF s3(2,3,4)] by blast
  with rd s2 s3 show ?thesis by blast
qed

text \<open>C16: When the write of an attestation is interrupted right after the file has been truncated, the
  check fails, but from then on the protection accepts any vote of the key, whatever it has
  signed before. (An empty YAML document leaves the record at its zero value.)\<close>

theorem torn_write_clears_protection:
  assumes E: "protection_env_ok E" and empty: "yaml_Unmarshal E [] = Some empty_protection"
    and r: "file_ready E S pk s" and v: "stored E S s pk = Some (Some p)"
    and torn: "os_faults s = replicate 5 NoFault @ [TornWrite 0]"
    and att: "att_epochs att = Some e" "sign_attestation e (Some p) = Ok q"
    and att': "att_epochs att' = Some e'"
  shows "\<exists>err s1 s2. SlashableAttestationCheck E S att pk s = (Fail err, s1) \<and>
    SlashableAttestationCheck E S att' pk s1 = (Ok (), s2)"
proof -
  let ?p = "pubkeySlashingProtectionFilePath E S pk"
  let ?s2 = "drop_fault (drop_fault s)"
  let ?s5 = "drop_fault (drop_fault (drop_fault ?s2))"
  let ?t = "put_file ?p ReadWritePermissions [] (drop_fault ?s5)"
  have f: "os_faults ?s2 = replicate 3 NoFault @ [TornWrite 0]" "os_faults ?s5 = [TornWrite 0]"
    using torn by (simp_all add: eval_nat_numeral)
  have r2: "file_ready E S pk ?s2" "file_ready E S pk ?s5" "file_ready E S pk (drop_fault ?s5)"
    using r by (simp_all add: drop_fault_def)
  have "calm 2 s" "calm 3 ?s2" using torn f by (simp_all add: calm_def eval_nat_numeral)
  then have rd: "validatorSlashingProtection E S pk s = (Ok (Some p), ?s2)"
    and sv: "saveValidatorSlashingProtection E S pk q ?s2 = (Fail (FileError IOError), ?t)"
    using read_ready[OF r v] save_ready[OF r2(1)] f r2(2)
    by (auto simp: os_WriteFile_def bind_def next_fault_def file_ready_def Let_def drop_fault_def)
  then have fail: "\<exists>err. SlashableAttestationCheck E S att pk s = (Fail err, ?t)"
    using att by (auto simp: SlashableAttestationCheck_def SaveAttestation_update update_protection_def
        bind_def wrap_err_def lift_def)
  have t: "file_ready E S pk ?t" "os_faults ?t = []" "stored E S ?t pk = Some (Some empty_protection)"
    using file_ready_put[OF r2(3)] f empty by (simp_all add: put_file_def[of _ _ _ "drop_fault ?s5"] stored_def)
      (simp_all add: file_data_def update_conv' split: option.split)
  obtain a b where e': "e' = (a, b)" by fastforce
  have "\<exists>q'. sign_attestation e' (Some empty_protection) = Ok q'"
    by (simp add: sign_attestation_def empty_protection_def e')
  then obtain s2 where "update_protection E S pk (sign_attestation e') ?t = (Ok (), s2)"
    using update_ready[OF E t] by blast
  then have "SlashableAttestationCheck E S att' pk ?t = (Ok (), s2)"
    using att' by (simp add: SlashableAttestationCheck_def SaveAttestation_update wrap_err_def)
  with fail show ?thesis by blast
qed

section \<open>Instances\<close>

text \<open>The key 7 has signed the vote 2 to 3 and the block of slot 5.\<close>

definition example_record :: validator_slashing_protection where
  "example_record = \<lparr>LatestSignedBlockSlot = Some 5, LastSignedAttestationSourceEpoch = 2,
     LastSignedAttestationTargetEpoch = Some 3\<rparr>"

definition example_saved :: "fault list \<Rightarrow> os_state" where
  "example_saved faults = \<lparr>os_dirs = [''/d'', ''/d/v'', ''/d/v/slashing-protection''],
     os_files = [(pubkeySlashingProtectionFilePath example_protection_env example_store [7],
       ReadWritePermissions, example_Marshal example_record)], os_faults = faults\<rparr>"

lemma example_saved_ready:
  "file_ready example_protection_env example_store [7] (example_saved faults)"
  "stored example_protection_env example_store (example_saved faults) [7] = Some (Some example_record)"
proof -
  show "stored example_protection_env example_store (example_saved faults) [7] = Some (Some example_record)"
    using example_env_ok
    by (simp add: stored_def file_data_def example_saved_def protection_env_ok_def)
      (simp add: example_protection_env_def)
  have "pubkeySlashingProtectionFilePath example_protection_env example_store [7] =
      ''/d/v/slashing-protection/'' @ [CHR 0x07] @ ''.yaml''" by code_simp
  moreover have "slashingProtectionDirPath example_store = ''/d/v/slashing-protection''" by code_simp
  moreover have "path_Dir (''/d/v/slashing-protection/'' @ [CHR 0x07] @ ''.yaml'') = ''/d/v/slashing-protection''"
    by code_simp
  ultimately show "file_ready example_protection_env example_store [7] (example_saved faults)"
    by (simp add: file_ready_def example_saved_def Let_def)
qed

theorem proposal_lost_witness:
  "\<exists>s1 s2 s3 s4.
    validatorSlashingProtection example_protection_env example_store [7] (example_saved []) =
      (Ok (Some example_record), s1) \<and>
    SlashableProposalCheck example_protection_env example_store [7] 6 s1 = (Ok (), s2) \<and>
    saveValidatorSlashingProtection example_protection_env example_store [7]
      (example_record\<lparr>LastSignedAttestationTargetEpoch := Some 4\<rparr>) s2 = (Ok (), s3) \<and>
    SlashableProposalCheck example_protection_env example_store [7] 6 s3 = (Ok (), s4)"
proof (rule proposal_lost_between_read_and_write[OF example_env_ok example_saved_ready(1) _ example_saved_ready(2)])
  show "os_faults (example_saved []) = []" by (simp add: example_saved_def)
  show "sign_attestation (2, 4) (Some example_record) =
      Ok (example_record\<lparr>LastSignedAttestationTargetEpoch := Some 4\<rparr>)"
    by (simp add: sign_attestation_def example_record_def)
  show "sign_proposal 6 (Some example_record) = Ok (example_record\<lparr>LatestSignedBlockSlot := Some 6\<rparr>)"
    by (simp add: sign_proposal_def example_record_def)
qed

theorem torn_write_witness:
  "\<exists>err s1 s2.
    SlashableAttestationCheck example_protection_env example_store (example_vote 2 4) [7]
      (example_saved (replicate 5 NoFault @ [TornWrite 0])) = (Fail err, s1) \<and>
    SlashableAttestationCheck example_protection_env example_store (example_vote 1 3) [7] s1 = (Ok (), s2)"
proof (rule torn_write_clears_protection[OF example_env_ok _ example_saved_ready])
  show "yaml_Unmarshal example_protection_env [] = Some empty_protection"
    by (simp add: example_protection_env_def example_Unmarshal_def)
  show "os_faults (example_saved (replicate 5 NoFault @ [TornWrite 0])) = replicate 5 NoFault @ [TornWrite 0]"
    by (simp add: example_saved_def)
  show "sign_attestation (2, 4) (Some example_record) =
      Ok (example_record\<lparr>LastSignedAttestationTargetEpoch := Some 4\<rparr>)"
    by (simp add: sign_attestation_def example_record_def)
qed simp_all

end
