(* ===== verification/Multi_Value_Slice.thy ===== *)
theory Multi_Value_Slice
  imports Go_State "HOL-Library.AList" "HOL-Library.Multiset"
begin

text \<open>
  The multi-value slice of \<open>container/multi-value-slice/multi_value_slice.go\<close>: a slice shared by
  many objects (the beacon states), which stores an item once for all objects that agree on it.
  \<open>sharedItems\<close> holds the original values, \<open>individualItems\<close> the values that some objects have
  changed, \<open>appendedItems\<close> those that some objects have appended, and \<open>cachedLengths\<close> the lengths
  of the objects that have appended something.

  The specification is a plain finite map from object identifiers to lists: each object owns its
  list, and nothing is shared. The theory shows that every operation of the multi-value slice
  does to the lists of all objects what the specification does.

  The maps of the Go code are association lists; their order stands for the unspecified
  iteration order, and the operations never depend on it. The \<open>int\<close> lengths are naturals, since
  they only count items. The lock is not modelled: every operation holds it from its first
  statement to its return, so the operations are atomic.
\<close>

section \<open>Values, items and the slice\<close>

record 'v mv_value =
  val :: 'v
  ids :: "u64 list"

type_synonym 'v MultiValueItem = "'v mv_value list"

record 'v mv_slice =
  sharedItems :: "'v list"
  individualItems :: "(u64 \<times> 'v MultiValueItem) list"
  appendedItems :: "'v MultiValueItem list"
  cachedLengths :: "(u64 \<times> nat) list"

datatype mv_error = OutOfBounds u64

text \<open>The position of an identifier in \<open>ids\<close>, and the removal that moves the last element into
  the gap.\<close>

fun containsId :: "u64 list \<Rightarrow> u64 \<Rightarrow> nat option" where
  "containsId [] wanted = None"
| "containsId (i # is) wanted = (if i = wanted then Some 0 else map_option Suc (containsId is wanted))"

definition deleteElemFromSlice :: "'a list \<Rightarrow> nat \<Rightarrow> 'a list" where
  "deleteElemFromSlice s i = butlast (s[i := last s])"

text \<open>The loops over \<open>item.Values\<close>. The first one is the search for the value that an object
  holds: its position, and the position of the object among its holders.\<close>

fun find_holder :: "u64 \<Rightarrow> 'v MultiValueItem \<Rightarrow> (nat \<times> nat) option" where
  "find_holder obj [] = None"
| "find_holder obj (v # vs) = (case containsId (ids v) obj of
     Some k \<Rightarrow> Some (0, k)
   | None \<Rightarrow> map_option (\<lambda>(vi, k). (Suc vi, k)) (find_holder obj vs))"

definition remove_holder :: "u64 \<Rightarrow> 'v MultiValueItem \<Rightarrow> 'v MultiValueItem" where
  "remove_holder obj vs = (case find_holder obj vs of
     None \<Rightarrow> vs
   | Some (vi, foundIndex) \<Rightarrow>
       if length (ids (vs ! vi)) = 1 then deleteElemFromSlice vs vi
       else vs[vi := (vs ! vi)\<lparr>ids := deleteElemFromSlice (ids (vs ! vi)) foundIndex\<rparr>])"

fun add_holder :: "u64 \<Rightarrow> 'v \<Rightarrow> 'v MultiValueItem \<Rightarrow> 'v MultiValueItem" where
  "add_holder obj x [] = [\<lparr>val = x, ids = [obj]\<rparr>]"
| "add_holder obj x (v # vs) =
     (if val v = x then v\<lparr>ids := ids v @ [obj]\<rparr> # vs else v # add_holder obj x vs)"

fun copy_holder :: "u64 \<Rightarrow> u64 \<Rightarrow> 'v MultiValueItem \<Rightarrow> 'v MultiValueItem" where
  "copy_holder src dst [] = []"
| "copy_holder src dst (v # vs) = (case containsId (ids v) src of
     Some _ \<Rightarrow> v\<lparr>ids := ids v @ [dst]\<rparr> # vs
   | None \<Rightarrow> v # copy_holder src dst vs)"

definition held :: "u64 \<Rightarrow> 'v MultiValueItem \<Rightarrow> 'v option" where
  "held obj vs = map_option (\<lambda>(vi, _). val (vs ! vi)) (find_holder obj vs)"

section \<open>The operations\<close>

definition mv_Init :: "'v list \<Rightarrow> 'v mv_slice" where
  "mv_Init items =
     \<lparr>sharedItems = items, individualItems = [], appendedItems = [], cachedLengths = []\<rparr>"

definition mv_Len :: "'v mv_slice \<Rightarrow> u64 \<Rightarrow> nat" where
  "mv_Len s obj = (case map_of (cachedLengths s) obj of None \<Rightarrow> length (sharedItems s) | Some l \<Rightarrow> l)"

text \<open>Each loop over the appended items ends at the first item without a value of the object.\<close>

fun copy_appended :: "u64 \<Rightarrow> u64 \<Rightarrow> 'v MultiValueItem list \<Rightarrow> 'v MultiValueItem list" where
  "copy_appended src dst [] = []"
| "copy_appended src dst (item # items) = (case find_holder src item of
     Some _ \<Rightarrow> copy_holder src dst item # copy_appended src dst items
   | None \<Rightarrow> item # items)"

definition mv_Copy :: "u64 \<Rightarrow> u64 \<Rightarrow> 'v mv_slice \<Rightarrow> 'v mv_slice" where
  "mv_Copy src dst s = s\<lparr>
     individualItems := map (\<lambda>(i, item). (i, copy_holder src dst item)) (individualItems s),
     appendedItems := copy_appended src dst (appendedItems s),
     cachedLengths := (case map_of (cachedLengths s) src of
        Some srcLen \<Rightarrow> AList.update dst srcLen (cachedLengths s) | None \<Rightarrow> cachedLengths s)\<rparr>"

text \<open>An assignment to an element of a Go slice.\<close>

definition write_at :: "nat \<Rightarrow> 'v \<Rightarrow> 'v list \<Rightarrow> (mv_error, 'v list) outcome" where
  "write_at i x items = (if i < length items then Ok (items[i := x]) else Panic)"

definition original_item :: "'v mv_slice \<Rightarrow> u64 \<Rightarrow> u64 \<Rightarrow> 'v \<Rightarrow> 'v" where
  "original_item s obj i item = (case map_of (individualItems s) i of
     None \<Rightarrow> item
   | Some ind \<Rightarrow> (case held obj ind of Some x \<Rightarrow> x | None \<Rightarrow> item))"

definition fillOriginalItems :: "'v mv_slice \<Rightarrow> u64 \<Rightarrow> 'v list \<Rightarrow> (mv_error, 'v list) outcome" where
  "fillOriginalItems s obj items =
     ofold (\<lambda>(i, item) items. write_at i (original_item s obj (of_nat i) item) items)
       (enumerate 0 (sharedItems s)) items"

fun fill_appended :: "u64 \<Rightarrow> nat \<Rightarrow> 'v MultiValueItem list \<Rightarrow> 'v list \<Rightarrow> (mv_error, 'v list) outcome" where
  "fill_appended obj i [] result = Ok result"
| "fill_appended obj i (item # items) result = (case held obj item of
     Some x \<Rightarrow> obind (write_at i x result) (fill_appended obj (Suc i) items)
   | None \<Rightarrow> Ok result)"

text \<open>The zero value of the element type, with which \<open>make\<close> fills a new slice, is an argument.\<close>

definition mv_Value :: "'v \<Rightarrow> 'v mv_slice \<Rightarrow> u64 \<Rightarrow> (mv_error, 'v list) outcome" where
  "mv_Value zero s obj = (case map_of (cachedLengths s) obj of
     Some l \<Rightarrow> obind (fillOriginalItems s obj (replicate l zero))
       (fill_appended obj (length (sharedItems s)) (appendedItems s))
   | None \<Rightarrow> fillOriginalItems s obj (replicate (length (sharedItems s)) zero))"

definition mv_At :: "'v mv_slice \<Rightarrow> u64 \<Rightarrow> u64 \<Rightarrow> (mv_error, 'v) outcome" where
  "mv_At s obj index =
     (if unat index \<ge> length (sharedItems s) + length (appendedItems s) then Fail (OutOfBounds index)
      else if unat index < length (sharedItems s) then
        Ok (original_item s obj index (sharedItems s ! unat index))
      else case held obj (appendedItems s ! (unat index - length (sharedItems s))) of
        Some x \<Rightarrow> Ok x
      | None \<Rightarrow> Fail (OutOfBounds index))"

definition updateOriginalItem :: "u64 \<Rightarrow> u64 \<Rightarrow> 'v \<Rightarrow> 'v mv_slice \<Rightarrow> 'v mv_slice" where
  "updateOriginalItem obj index x s = (case map_of (individualItems s) index of
     None \<Rightarrow>
       if x = sharedItems s ! unat index then s
       else s\<lparr>individualItems := AList.update index [\<lparr>val = x, ids = [obj]\<rparr>] (individualItems s)\<rparr>
   | Some ind \<Rightarrow>
       let ind = remove_holder obj ind in
       if x = sharedItems s ! unat index
       then s\<lparr>individualItems := AList.update index ind (individualItems s)\<rparr>
       else s\<lparr>individualItems := AList.update index (add_holder obj x ind) (individualItems s)\<rparr>)"

definition updateAppendedItem :: "u64 \<Rightarrow> u64 \<Rightarrow> 'v \<Rightarrow> (mv_error, 'v mv_slice, unit) proc" where
  "updateAppendedItem obj index x = (\<lambda>s.
     let i = unat index - length (sharedItems s); item = appendedItems s ! i in
     case find_holder obj item of
       None \<Rightarrow> (Fail (OutOfBounds index), s)
     | Some _ \<Rightarrow> (Ok (), s\<lparr>appendedItems :=
         (appendedItems s)[i := add_holder obj x (remove_holder obj item)]\<rparr>))"

definition mv_UpdateAt :: "u64 \<Rightarrow> u64 \<Rightarrow> 'v \<Rightarrow> (mv_error, 'v mv_slice, unit) proc" where
  "mv_UpdateAt obj index x = (\<lambda>s.
     if unat index \<ge> length (sharedItems s) + length (appendedItems s)
     then (Fail (OutOfBounds index), s)
     else if unat index < length (sharedItems s) then (Ok (), updateOriginalItem obj index x s)
     else updateAppendedItem obj index x s)"

text \<open>The loop of \<open>Append\<close> adds the object to the first item that has no value for it, and is
  \<open>None\<close> when there is no such item.\<close>

fun append_existing :: "u64 \<Rightarrow> 'v \<Rightarrow> 'v MultiValueItem list \<Rightarrow> 'v MultiValueItem list option" where
  "append_existing obj x [] = None"
| "append_existing obj x (item # items) = (case find_holder obj item of
     None \<Rightarrow> Some (add_holder obj x item # items)
   | Some _ \<Rightarrow> map_option (\<lambda>items. item # items) (append_existing obj x items))"

definition mv_Append :: "u64 \<Rightarrow> 'v \<Rightarrow> 'v mv_slice \<Rightarrow> 'v mv_slice" where
  "mv_Append obj x s =
     (if appendedItems s = [] then
        s\<lparr>appendedItems := [[\<lparr>val = x, ids = [obj]\<rparr>]],
          cachedLengths := AList.update obj (length (sharedItems s) + 1) (cachedLengths s)\<rparr>
      else case append_existing obj x (appendedItems s) of
        Some items \<Rightarrow>
          s\<lparr>appendedItems := items,
            cachedLengths := AList.update obj
              (case map_of (cachedLengths s) obj of
                 Some l \<Rightarrow> l + 1 | None \<Rightarrow> length (sharedItems s) + 1) (cachedLengths s)\<rparr>
      | None \<Rightarrow>
          s\<lparr>appendedItems := appendedItems s @ [[\<lparr>val = x, ids = [obj]\<rparr>]],
            cachedLengths := AList.update obj
              ((case map_of (cachedLengths s) obj of Some l \<Rightarrow> l | None \<Rightarrow> 0) + 1) (cachedLengths s)\<rparr>)"

text \<open>\<open>Detach\<close> also drops an individual item whose only value had the object as its only holder.\<close>

definition detach_individual :: "u64 \<Rightarrow> u64 \<times> 'v MultiValueItem \<Rightarrow> (u64 \<times> 'v MultiValueItem) list" where
  "detach_individual obj = (\<lambda>(i, ind). case find_holder obj ind of
     None \<Rightarrow> [(i, ind)]
   | Some (vi, _) \<Rightarrow>
       if length (ids (ind ! vi)) = 1 \<and> length ind = 1 then [] else [(i, remove_holder obj ind)])"

fun detach_appended :: "u64 \<Rightarrow> 'v MultiValueItem list \<Rightarrow> 'v MultiValueItem list" where
  "detach_appended obj [] = []"
| "detach_appended obj (item # items) = (case find_holder obj item of
     Some _ \<Rightarrow> remove_holder obj item # detach_appended obj items
   | None \<Rightarrow> item # items)"

definition mv_Detach :: "u64 \<Rightarrow> 'v mv_slice \<Rightarrow> 'v mv_slice" where
  "mv_Detach obj s = s\<lparr>
     individualItems := concat (map (detach_individual obj) (individualItems s)),
     appendedItems := detach_appended obj (appendedItems s),
     cachedLengths := AList.delete obj (cachedLengths s)\<rparr>"

record MultiValueStatistics =
  TotalIndividualElements :: nat
  TotalAppendedElements :: nat
  TotalIndividualElemReferences :: nat
  TotalAppendedElemReferences :: nat

definition item_references :: "'v MultiValueItem \<Rightarrow> nat" where
  "item_references item = sum_list (map (\<lambda>v. length (ids v)) item)"

definition mv_Statistics :: "'v mv_slice \<Rightarrow> MultiValueStatistics" where
  "mv_Statistics s = \<lparr>
     TotalIndividualElements = length (individualItems s),
     TotalAppendedElements = length (appendedItems s),
     TotalIndividualElemReferences = sum_list (map (item_references \<circ> snd) (individualItems s)),
     TotalAppendedElemReferences = sum_list (map item_references (appendedItems s))\<rparr>"

definition fragmentationLimit :: nat where
  "fragmentationLimit = 50000"

definition mv_IsFragmented :: "'v mv_slice \<Rightarrow> bool" where
  "mv_IsFragmented s = (let stats = mv_Statistics s in
     TotalIndividualElemReferences stats + TotalAppendedElemReferences stats \<ge> fragmentationLimit)"

text \<open>\<open>Reset\<close> starts \<open>found\<close> at true, so an appended item without values is skipped.\<close>

fun reset_appended :: "u64 \<Rightarrow> nat \<Rightarrow> 'v MultiValueItem list \<Rightarrow> 'v list \<Rightarrow> (mv_error, 'v list) outcome" where
  "reset_appended obj index [] items = Ok items"
| "reset_appended obj index (app # apps) items =
     (if app = [] then reset_appended obj index apps items
      else case held obj app of
        Some x \<Rightarrow> obind (write_at index x items) (reset_appended obj (Suc index) apps)
      | None \<Rightarrow> Ok items)"

definition mv_Reset :: "'v \<Rightarrow> 'v mv_slice \<Rightarrow> u64 \<Rightarrow> (mv_error, 'v mv_slice) outcome" where
  "mv_Reset zero s obj =
     (let l = mv_Len s obj;
          items = take l (sharedItems s) @ replicate (l - length (sharedItems s)) zero in
      obind (ofold (\<lambda>(i, ind) items. case held obj ind of
               Some x \<Rightarrow> write_at (unat i) x items | None \<Rightarrow> Ok items) (individualItems s) items)
        (\<lambda>items. obind (reset_appended obj (length (sharedItems s)) (appendedItems s) items)
           (\<lambda>items. Ok (mv_Init items))))"

text \<open>A plain slice behind the same interface.\<close>

definition empty_Len :: "'v list \<Rightarrow> u64 \<Rightarrow> nat" where
  "empty_Len fullSlice obj = length fullSlice"

definition empty_At :: "'v list \<Rightarrow> u64 \<Rightarrow> u64 \<Rightarrow> (mv_error, 'v) outcome" where
  "empty_At fullSlice obj index =
     (if unat index \<ge> length fullSlice then Fail (OutOfBounds index) else Ok (fullSlice ! unat index))"

definition empty_Value :: "'v list \<Rightarrow> u64 \<Rightarrow> (mv_error, 'v list) outcome" where
  "empty_Value fullSlice obj = Ok fullSlice"

section \<open>Items as maps from objects to values\<close>

text \<open>An item is read as the list of its (object, value) pairs. No object holds two values of an
  item, so the order of the pairs does not matter and the item is a finite map.\<close>

definition holder_pairs :: "'v MultiValueItem \<Rightarrow> (u64 \<times> 'v) list" where
  "holder_pairs vs = concat (map (\<lambda>v. map (\<lambda>i. (i, val v)) (ids v)) vs)"

definition item_ok :: "'v MultiValueItem \<Rightarrow> bool" where
  "item_ok vs = distinct (map fst (holder_pairs vs))"

lemma holder_pairs_simps [simp]:
  "holder_pairs [] = []"
  "holder_pairs (v # vs) = map (\<lambda>i. (i, val v)) (ids v) @ holder_pairs vs"
  by (simp_all add: holder_pairs_def)

lemma containsId_None_iff: "containsId is w = None \<longleftrightarrow> w \<notin> set is"
  by (induction "is") auto

lemma containsId_Some: "containsId is w = Some k \<Longrightarrow> k < length is \<and> is ! k = w"
  by (induction "is" arbitrary: k) (auto split: if_splits)

lemma map_of_const_pairs: "map_of (map (\<lambda>i. (i, x)) is) obj = (if obj \<in> set is then Some x else None)"
  by (induction "is") auto

lemma held_eq_map_of: "held obj vs = map_of (holder_pairs vs) obj"
proof (induction vs)
  case (Cons v vs)
  have "held obj (v # vs) = (if obj \<in> set (ids v) then Some (val v) else held obj vs)"
    by (auto simp: held_def containsId_None_iff option.map_comp o_def split: option.splits
          intro!: option.map_cong0)
       (metis containsId_None_iff option.distinct(1))+
  with Cons show ?case by (auto simp: map_add_def map_of_const_pairs split: option.splits)
qed (simp add: held_def)

lemma find_holder_None_iff: "find_holder obj vs = None \<longleftrightarrow> held obj vs = None"
  by (simp add: held_def)

lemma find_holder_Some:
  "find_holder obj vs = Some (vi, k) \<Longrightarrow>
     vi < length vs \<and> k < length (ids (vs ! vi)) \<and> ids (vs ! vi) ! k = obj"
proof (induction vs arbitrary: vi k)
  case (Cons v vs)
  then show ?case
    by (cases "containsId (ids v) obj") (auto dest: containsId_Some)
qed simp

lemma mset_deleteElem:
  assumes "i < length xs" shows "mset (deleteElemFromSlice xs i) = mset xs - {#xs ! i#}"
proof -
  from assms have ne: "xs \<noteq> []" by auto
  have "xs[i := last xs] = butlast (xs[i := last xs]) @ [last xs]"
    using assms ne
    by (metis append_butlast_last_id last_list_update length_greater_0_conv length_list_update list.size(3) not_less_zero)
  then have "mset (xs[i := last xs]) = mset (deleteElemFromSlice xs i) + {#last xs#}"
    unfolding deleteElemFromSlice_def by (metis mset.simps(1) mset.simps(2) mset_append)
  moreover have "mset (xs[i := last xs]) = add_mset (last xs) (mset xs - {#xs ! i#})"
    using assms by (rule mset_update)
  ultimately show ?thesis by simp
qed

lemma mset_holder_pairs:
  "mset (holder_pairs vs) = (\<Sum>v\<in>#mset vs. image_mset (\<lambda>i. (i, val v)) (mset (ids v)))"
  by (induction vs) simp_all

lemma mset_remove_holder:
  assumes "held obj vs = Some x"
  shows "mset (holder_pairs (remove_holder obj vs)) = mset (holder_pairs vs) - {#(obj, x)#}"
proof -
  from assms obtain vi k where f: "find_holder obj vs = Some (vi, k)" and x: "x = val (vs ! vi)"
    by (auto simp: held_def)
  let ?v = "vs ! vi"
  let ?P = "\<lambda>v. image_mset (\<lambda>i. (i, val v)) (mset (ids v))"
  from find_holder_Some[OF f] have vi: "vi < length vs" and k: "k < length (ids ?v)"
    and obj: "ids ?v ! k = obj" by auto
  have split: "mset vs = add_mset ?v (mset vs - {#?v#})" using vi by simp
  have all: "mset (holder_pairs vs) = ?P ?v + (\<Sum>v\<in>#mset vs - {#?v#}. ?P v)"
    unfolding mset_holder_pairs by (subst split) simp
  show ?thesis
  proof (cases "length (ids ?v) = 1")
    case True
    then have "ids ?v = [obj]" using k obj by (cases "ids ?v") auto
    then show ?thesis
      using all True f x mset_deleteElem[OF vi] by (simp add: remove_holder_def mset_holder_pairs)
  next
    case False
    let ?v' = "?v\<lparr>ids := deleteElemFromSlice (ids ?v) k\<rparr>"
    have "mset (holder_pairs (vs[vi := ?v'])) = ?P ?v' + (\<Sum>v\<in>#mset vs - {#?v#}. ?P v)"
      unfolding mset_holder_pairs mset_update[OF vi] by simp
    moreover have "{#obj#} \<subseteq># mset (ids ?v)" using k obj nth_mem[OF k] by simp
    then have "?P ?v' = ?P ?v - {#(obj, x)#}"
      using mset_deleteElem[OF k] obj x by (simp add: image_mset_Diff)
    moreover have "(obj, x) \<in># ?P ?v" using k obj x nth_mem[OF k] by auto
    ultimately show ?thesis using all f False by (simp add: remove_holder_def)
  qed
qed

lemma map_of_eq_mset:
  assumes "mset xs = mset ys" and "distinct (map fst xs)"
  shows "map_of xs = map_of ys" "distinct (map fst ys)"
proof -
  have "mset (map fst xs) = mset (map fst ys)" using assms(1) by simp
  then show d: "distinct (map fst ys)" using assms(2) by (metis mset_eq_imp_distinct_iff)
  show "map_of xs = map_of ys"
    using assms d by (metis map_of_inject_set set_mset_mset)
qed

lemma item_ok_pairs_iff: "item_ok vs \<Longrightarrow> held obj vs = Some x \<longleftrightarrow> (obj, x) \<in> set (holder_pairs vs)"
  by (simp add: item_ok_def held_eq_map_of)

lemma held_by_pairs:
  assumes "item_ok vs" and "mset (holder_pairs ws) = mset ps" and "distinct (map fst ps)"
  shows "item_ok ws" "held obj ws = map_of ps obj"
  using map_of_eq_mset[OF assms(2)[symmetric] assms(3)]
  by (auto simp: item_ok_def held_eq_map_of)

text \<open>What the three loops do to the map of an item.\<close>

lemma remove_holder_ok:
  assumes ok: "item_ok vs"
  shows "item_ok (remove_holder obj vs)"
    and "held o' (remove_holder obj vs) = (if o' = obj then None else held o' vs)"
proof -
  have "item_ok (remove_holder obj vs) \<and>
    held o' (remove_holder obj vs) = (if o' = obj then None else held o' vs)"
  proof (cases "held obj vs")
    case None
    then show ?thesis using ok by (auto simp: remove_holder_def simp flip: find_holder_None_iff)
  next
    case (Some x)
    let ?ps = "remove1 (obj, x) (holder_pairs vs)"
    let ?qs = "holder_pairs vs"
    have d: "distinct (map fst ?qs)" using ok by (simp add: item_ok_def)
    then have dq: "distinct ?qs" by (simp add: distinct_map)
    have "distinct (map fst ?ps)" using d by (simp add: distinct_map distinct_remove1 inj_on_def)
    moreover have "mset (holder_pairs (remove_holder obj vs)) = mset ?ps"
      using mset_remove_holder[OF Some] by simp
    ultimately have "item_ok (remove_holder obj vs)" and h: "held o' (remove_holder obj vs) = map_of ?ps o'"
      using held_by_pairs[OF ok] by blast+
    moreover have "map_of ?ps o' = (if o' = obj then None else held o' vs)"
    proof -
      have s: "set ?ps = set ?qs - {(obj, x)}" using dq by simp
      have "map_of ?ps o' = Some y \<longleftrightarrow> (o', y) \<in> set ?qs \<and> o' \<noteq> obj" for y
      proof -
        have "map_of ?ps o' = Some y \<longleftrightarrow> (o', y) \<in> set ?ps"
          using \<open>distinct (map fst ?ps)\<close> by simp
        moreover have "(obj, y) \<in> set ?qs \<Longrightarrow> y = x"
          using Some item_ok_pairs_iff[OF ok] by (metis option.inject)
        ultimately show ?thesis using s by auto
      qed
      then show ?thesis using item_ok_pairs_iff[OF ok]
        by (metis (full_types) not_Some_eq)
    qed
    ultimately show ?thesis by simp
  qed
  then show "item_ok (remove_holder obj vs)"
    and "held o' (remove_holder obj vs) = (if o' = obj then None else held o' vs)" by auto
qed

lemma mset_add_holder: "mset (holder_pairs (add_holder obj x vs)) = mset ((obj, x) # holder_pairs vs)"
  by (induction vs) auto

lemma add_holder_ok:
  assumes ok: "item_ok vs" and new: "held obj vs = None"
  shows "item_ok (add_holder obj x vs)"
    and "held o' (add_holder obj x vs) = (if o' = obj then Some x else held o' vs)"
proof -
  have "distinct (map fst ((obj, x) # holder_pairs vs))"
    using ok new by (simp add: item_ok_def held_eq_map_of map_of_eq_None_iff)
  from held_by_pairs[OF ok mset_add_holder this]
  show "item_ok (add_holder obj x vs)"
    and "held o' (add_holder obj x vs) = (if o' = obj then Some x else held o' vs)"
    by (auto simp: held_eq_map_of)
qed

lemma copy_holder_none: "held src vs = None \<Longrightarrow> copy_holder src dst vs = vs"
  by (induction vs) (auto simp: held_def split: option.splits)

lemma mset_copy_holder:
  "held src vs = Some x \<Longrightarrow>
     mset (holder_pairs (copy_holder src dst vs)) = mset ((dst, x) # holder_pairs vs)"
proof (induction vs)
  case (Cons v vs)
  show ?case
  proof (cases "src \<in> set (ids v)")
    case True
    then have "containsId (ids v) src \<noteq> None" by (simp add: containsId_None_iff)
    moreover have "x = val v"
      using True Cons.prems Cons.IH
      by (cases "containsId (ids v) src") (auto simp: containsId_None_iff held_def)
    ultimately show ?thesis by auto
  next
    case False
    then have c: "containsId (ids v) src = None" by (simp add: containsId_None_iff)
    then have "held src vs = Some x" using Cons.prems by (auto simp: held_def)
    with Cons.IH c show ?thesis by simp
  qed
qed (simp add: held_def)

lemma copy_holder_ok:
  assumes ok: "item_ok vs" and new: "held dst vs = None"
  shows "item_ok (copy_holder src dst vs)"
    and "held o' (copy_holder src dst vs) = (if o' = dst then held src vs else held o' vs)"
proof -
  have "item_ok (copy_holder src dst vs) \<and>
    held o' (copy_holder src dst vs) = (if o' = dst then held src vs else held o' vs)"
  proof (cases "held src vs")
    case None
    then show ?thesis using ok new by (simp add: copy_holder_none)
  next
    case (Some x)
    have "distinct (map fst ((dst, x) # holder_pairs vs))"
      using ok new by (simp add: item_ok_def held_eq_map_of map_of_eq_None_iff)
    from held_by_pairs[OF ok mset_copy_holder[OF Some] this] Some
    show ?thesis by (auto simp: held_eq_map_of)
  qed
  then show "item_ok (copy_holder src dst vs)"
    and "held o' (copy_holder src dst vs) = (if o' = dst then held src vs else held o' vs)" by auto
qed

section \<open>The list of an object\<close>

text \<open>Below the shared length an object sees its individual value or the shared one, and above it
  the values of its column of the appended items, which has no gaps.\<close>

definition individual :: "'v mv_slice \<Rightarrow> u64 \<Rightarrow> u64 \<Rightarrow> 'v option" where
  "individual s obj i = Option.bind (map_of (individualItems s) i) (held obj)"

definition column :: "u64 \<Rightarrow> 'v MultiValueItem list \<Rightarrow> 'v option list" where
  "column obj items = map (held obj) items"

fun gapfree :: "'a option list \<Rightarrow> bool" where
  "gapfree [] = True"
| "gapfree (None # xs) = (\<forall>x\<in>set xs. x = None)"
| "gapfree (Some a # xs) = gapfree xs"

fun filled :: "'a option list \<Rightarrow> 'a list" where
  "filled [] = []"
| "filled (None # xs) = []"
| "filled (Some a # xs) = a # filled xs"

definition originals :: "'v mv_slice \<Rightarrow> u64 \<Rightarrow> 'v list" where
  "originals s obj =
     map (\<lambda>i. case individual s obj (of_nat i) of Some x \<Rightarrow> x | None \<Rightarrow> sharedItems s ! i)
       [0..<length (sharedItems s)]"

definition contents :: "'v mv_slice \<Rightarrow> u64 \<Rightarrow> 'v list" where
  "contents s obj = originals s obj @ filled (column obj (appendedItems s))"

definition cached_ok :: "'v mv_slice \<Rightarrow> u64 \<Rightarrow> bool" where
  "cached_ok s obj = (map_of (cachedLengths s) obj =
     (let n = length (filled (column obj (appendedItems s))) in
      if n = 0 then None else Some (length (sharedItems s) + n)))"

definition slice_ok :: "'v mv_slice \<Rightarrow> bool" where
  "slice_ok s \<longleftrightarrow>
     length (sharedItems s) \<le> 2 ^ 64 \<and>
     distinct (map fst (individualItems s)) \<and>
     (\<forall>(i, item)\<in>set (individualItems s). unat i < length (sharedItems s) \<and> item_ok item) \<and>
     (\<forall>item\<in>set (appendedItems s). item_ok item) \<and>
     (\<forall>obj. gapfree (column obj (appendedItems s)) \<and> cached_ok s obj)"

lemma slice_okD:
  assumes "slice_ok s"
  shows "length (sharedItems s) \<le> 2 ^ 64" "distinct (map fst (individualItems s))"
    "(i, item) \<in> set (individualItems s) \<Longrightarrow> unat i < length (sharedItems s)"
    "(i, item) \<in> set (individualItems s) \<Longrightarrow> item_ok item"
    "item' \<in> set (appendedItems s) \<Longrightarrow> item_ok item'"
    "gapfree (column obj (appendedItems s))" "cached_ok s obj"
  using assms by (auto simp: slice_ok_def)

lemma original_item_eq:
  "original_item s obj i item = (case individual s obj i of Some x \<Rightarrow> x | None \<Rightarrow> item)"
  by (simp add: original_item_def individual_def split: option.splits)

lemma length_originals [simp]: "length (originals s obj) = length (sharedItems s)"
  by (simp add: originals_def)

lemma ofold_write_enumerate:
  assumes "n + length xs \<le> length items"
  shows "ofold (\<lambda>(i, x) items. write_at i (f i x) items) (enumerate n xs) items =
    Ok (take n items @ map (\<lambda>(i, x). f i x) (enumerate n xs) @ drop (n + length xs) items)"
  using assms
proof (induction xs arbitrary: n items)
  case (Cons x xs)
  let ?items = "items[n := f n x]"
  have "take (Suc n) ?items = take n items @ [f n x]"
    using Cons.prems by (simp add: take_Suc_conv_app_nth)
  with Cons.IH[of "Suc n" ?items] Cons.prems show ?case by (simp add: write_at_def)
qed simp

lemma fillOriginalItems_eq:
  assumes "length (sharedItems s) \<le> length items"
  shows "fillOriginalItems s obj items = Ok (originals s obj @ drop (length (sharedItems s)) items)"
proof -
  have "map (\<lambda>(i, item). original_item s obj (of_nat i) item) (enumerate 0 (sharedItems s)) = originals s obj"
    by (rule nth_equalityI) (auto simp: originals_def original_item_eq nth_enumerate_eq split: option.splits)
  with assms ofold_write_enumerate[of 0 "sharedItems s" items "\<lambda>i item. original_item s obj (of_nat i) item"]
  show ?thesis by (simp add: fillOriginalItems_def)
qed

lemma fill_appended_eq:
  assumes "i + length (filled (column obj apps)) \<le> length result"
  shows "fill_appended obj i apps result =
    Ok (take i result @ filled (column obj apps) @ drop (i + length (filled (column obj apps))) result)"
  using assms
proof (induction apps arbitrary: i result)
  case (Cons app apps)
  show ?case
  proof (cases "held obj app")
    case (Some x)
    let ?result = "result[i := x]"
    have "take (Suc i) ?result = take i result @ [x]"
      using Cons.prems Some by (simp add: column_def take_Suc_conv_app_nth)
    with Cons.IH[of "Suc i" ?result] Cons.prems Some show ?thesis
      by (simp add: write_at_def column_def)
  qed (simp add: column_def)
qed (simp add: column_def)

lemma mv_Len_contents:
  assumes "slice_ok s" shows "mv_Len s obj = length (contents s obj)"
  using slice_okD(7)[OF assms, of obj]
  by (simp add: mv_Len_def cached_ok_def contents_def Let_def split: if_splits)

lemma mv_Value_contents:
  assumes "slice_ok s" shows "mv_Value zero s obj = Ok (contents s obj)"
proof (cases "filled (column obj (appendedItems s)) = []")
  case True
  with slice_okD(7)[OF assms, of obj] have "map_of (cachedLengths s) obj = None"
    by (simp add: cached_ok_def)
  with True show ?thesis by (simp add: mv_Value_def fillOriginalItems_eq contents_def)
next
  case False
  let ?n = "length (filled (column obj (appendedItems s)))"
  from False slice_okD(7)[OF assms, of obj]
  have "map_of (cachedLengths s) obj = Some (length (sharedItems s) + ?n)"
    by (simp add: cached_ok_def)
  then show ?thesis
    by (simp add: mv_Value_def fillOriginalItems_eq fill_appended_eq contents_def)
qed

lemma gapfree_nth:
  "gapfree xs \<Longrightarrow> i < length xs \<Longrightarrow>
     xs ! i = (if i < length (filled xs) then Some (filled xs ! i) else None)"
proof (induction xs arbitrary: i rule: filled.induct)
  case (2 xs)
  then show ?case by (cases i) auto
next
  case (3 a xs)
  then show ?case by (cases i) auto
qed simp

lemma filled_le: "length (filled xs) \<le> length xs"
  by (induction xs rule: filled.induct) auto

lemma mv_At_contents:
  assumes ok: "slice_ok s"
  shows "mv_At s obj index =
    (if unat index < length (contents s obj) then Ok (contents s obj ! unat index)
     else Fail (OutOfBounds index))"
proof -
  let ?S = "length (sharedItems s)" and ?c = "column obj (appendedItems s)"
  have le: "length (filled ?c) \<le> length (appendedItems s)" using filled_le[of ?c] by (simp add: column_def)
  consider (big) "?S + length (appendedItems s) \<le> unat index" | (shared) "unat index < ?S"
    | (app) "?S \<le> unat index" "unat index < ?S + length (appendedItems s)" by linarith
  then show ?thesis
  proof cases
    case app
    let ?i = "unat index - ?S"
    have "held obj (appendedItems s ! ?i) = ?c ! ?i" using app by (simp add: column_def)
    also have "\<dots> = (if ?i < length (filled ?c) then Some (filled ?c ! ?i) else None)"
      using app by (intro gapfree_nth slice_okD[OF ok]) (auto simp: column_def)
    finally show ?thesis using app
      by (auto simp: mv_At_def contents_def nth_append)
  next
    case big
    then show ?thesis using le by (simp add: mv_At_def contents_def)
  next
    case shared
    then show ?thesis
      by (simp add: mv_At_def contents_def nth_append originals_def original_item_eq split: option.split)
  qed
qed

lemma reset_individual:
  fixes al :: "(u64 \<times> 'v MultiValueItem) list"
  assumes "distinct (map fst al)" and "\<forall>i\<in>fst ` set al. unat i < length items"
    and "n \<le> length items" "n \<le> 2 ^ 64"
  shows "\<exists>items'. ofold (\<lambda>(i, ind) items. case held obj ind of
      Some x \<Rightarrow> write_at (unat i) x items | None \<Rightarrow> Ok items) al items = Ok items' \<and>
    length items' = length items \<and>
    (\<forall>j<n. items' ! j = (case Option.bind (map_of al (of_nat j)) (held obj) of Some x \<Rightarrow> x | None \<Rightarrow> items ! j))"
  using assms
proof (induction al arbitrary: items)
  case (Cons a al)
  obtain i ind where a: "a = (i, ind)" by fastforce
  have i: "unat i < length items" using Cons.prems(2) a by auto
  let ?items = "case held obj ind of Some x \<Rightarrow> items[unat i := x] | None \<Rightarrow> items"
  have len: "length ?items = length items" by (simp split: option.split)
  have key: "of_nat j = i \<longleftrightarrow> j = unat i" if "j < n" for j
    using that Cons.prems(4) unat_of_nat_u64[of j] by auto
  have "distinct (map fst al)" "\<forall>i\<in>fst ` set al. unat i < length ?items" "n \<le> length ?items"
    using Cons.prems len by auto
  from Cons.IH[OF this Cons.prems(4)] obtain items' where
    run: "ofold (\<lambda>(i, ind) items. case held obj ind of
      Some x \<Rightarrow> write_at (unat i) x items | None \<Rightarrow> Ok items) al ?items = Ok items'"
    and l: "length items' = length ?items"
    and in_n: "\<forall>j<n. items' ! j =
      (case Option.bind (map_of al (of_nat j)) (held obj) of Some x \<Rightarrow> x | None \<Rightarrow> ?items ! j)"
    by blast
  have "ofold (\<lambda>(i, ind) items. case held obj ind of
      Some x \<Rightarrow> write_at (unat i) x items | None \<Rightarrow> Ok items) (a # al) items = Ok items'"
    using run i by (simp add: a write_at_def split: option.splits)
  moreover have "items' ! j =
    (case Option.bind (map_of (a # al) (of_nat j)) (held obj) of Some x \<Rightarrow> x | None \<Rightarrow> items ! j)"
    if j: "j < n" for j
  proof (cases "j = unat i")
    case True
    then have "map_of al (of_nat j) = None"
      using Cons.prems(1) a key[OF j] by (simp add: map_of_eq_None_iff)
    then show ?thesis using in_n[rule_format, OF j] True key[OF j] i a by (simp split: option.splits)
  next
    case False
    then have "?items ! j = items ! j" by (simp split: option.splits)
    then show ?thesis using in_n[rule_format, OF j] False key[OF j] a by (simp split: option.split)
  qed
  ultimately show ?case using l len by (metis (no_types, lifting))
qed simp

lemma reset_appended_eq:
  assumes "index + length (filled (column obj apps)) \<le> length items" and "gapfree (column obj apps)"
  shows "reset_appended obj index apps items =
    Ok (take index items @ filled (column obj apps) @ drop (index + length (filled (column obj apps))) items)"
  using assms
proof (induction apps arbitrary: index items)
  case (Cons app apps)
  show ?case
  proof (cases "held obj app")
    case (Some x)
    then have ne: "app \<noteq> []" by (auto simp: held_def)
    let ?items = "items[index := x]"
    have "take (Suc index) ?items = take index items @ [x]"
      using Cons.prems Some by (simp add: column_def take_Suc_conv_app_nth)
    with Cons.IH[of "Suc index" ?items] Cons.prems Some ne show ?thesis
      by (simp add: write_at_def column_def)
  next
    case None
    then have "\<forall>x\<in>set (column obj apps). x = None" using Cons.prems(2) by (simp add: column_def)
    then have "filled (column obj apps) = []" "gapfree (column obj apps)"
      by (cases "column obj apps"; force)+
    with Cons.IH[of index items] Cons.prems None show ?thesis by (simp add: column_def)
  qed
qed (simp add: column_def)

lemma mv_Reset_contents:
  assumes ok: "slice_ok s" shows "mv_Reset zero s obj = Ok (mv_Init (contents s obj))"
proof -
  let ?S = "length (sharedItems s)" and ?c = "column obj (appendedItems s)"
  let ?items = "take (mv_Len s obj) (sharedItems s) @ replicate (mv_Len s obj - ?S) zero"
  have len: "mv_Len s obj = ?S + length (filled ?c)"
    using mv_Len_contents[OF ok, of obj] by (simp add: contents_def)
  then have items: "length ?items = ?S + length (filled ?c)" "\<And>j. j < ?S \<Longrightarrow> ?items ! j = sharedItems s ! j"
    by (simp_all add: nth_append)
  have "\<forall>i\<in>fst ` set (individualItems s). unat i < length ?items" "?S \<le> length ?items"
    unfolding items(1) using slice_okD(3)[OF ok] by (force, simp)
  from reset_individual[OF slice_okD(2)[OF ok] this slice_okD(1)[OF ok], of obj]
  obtain items' where run: "ofold (\<lambda>(i, ind) items. case held obj ind of
      Some x \<Rightarrow> write_at (unat i) x items | None \<Rightarrow> Ok items) (individualItems s) ?items = Ok items'"
    and l: "length items' = length ?items"
    and nth: "\<forall>j<?S. items' ! j = (case Option.bind (map_of (individualItems s) (of_nat j)) (held obj) of
      Some x \<Rightarrow> x | None \<Rightarrow> ?items ! j)"
    by blast
  have "items' ! j = originals s obj ! j" if "j < ?S" for j
    using nth[rule_format, OF that] items(2)[OF that] that
    by (simp add: originals_def individual_def split: option.split)
  then have "take ?S items' = originals s obj" using l items(1) by (simp add: list_eq_iff_nth_eq)
  with run l items(1) slice_okD(6)[OF ok] show ?thesis
    by (simp add: mv_Reset_def Let_def reset_appended_eq contents_def)
qed

section \<open>What the operations do to the lists\<close>

text \<open>An object that has neither individual nor appended values.\<close>

definition absent :: "'v mv_slice \<Rightarrow> u64 \<Rightarrow> bool" where
  "absent s obj \<longleftrightarrow> (\<forall>i. individual s obj i = None) \<and> filled (column obj (appendedItems s)) = []"

lemma gapfree_empty: "gapfree xs \<Longrightarrow> filled xs = [] \<Longrightarrow> x \<in> set xs \<Longrightarrow> x = None"
  by (cases xs rule: filled.cases) auto

lemma gapfree_Nones [simp]:
  "gapfree (map (\<lambda>_. None) xs)" "filled (map (\<lambda>_. None) xs) = []"
  by (cases xs; simp)+

lemma absent_held:
  assumes "slice_ok s" "absent s obj"
  shows "(i, item) \<in> set (individualItems s) \<Longrightarrow> held obj item = None"
    and "item' \<in> set (appendedItems s) \<Longrightarrow> held obj item' = None"
proof -
  show "held obj item = None" if "(i, item) \<in> set (individualItems s)"
    using that assms slice_okD(2)[OF assms(1)]
    by (auto simp: absent_def individual_def dest!: map_of_is_SomeI spec[of _ i])
  show "held obj item' = None" if "item' \<in> set (appendedItems s)"
    using that assms slice_okD(6)[OF assms(1), of obj]
      gapfree_empty[of "column obj (appendedItems s)" "held obj item'"]
    by (auto simp: absent_def column_def)
qed

lemma contents_cong:
  assumes "sharedItems t = sharedItems s" "\<And>i. individual t obj' i = individual s obj i"
    and "filled (column obj' (appendedItems t)) = filled (column obj (appendedItems s))"
  shows "contents t obj' = contents s obj"
  using assms by (simp add: contents_def originals_def split: option.split)

lemma copy_appended_map:
  "gapfree (column src items) \<Longrightarrow> copy_appended src dst items = map (copy_holder src dst) items"
proof (induction items)
  case (Cons item items)
  show ?case
  proof (cases "held src item")
    case None
    then have "\<forall>it\<in>set items. held src it = None" using Cons.prems by (simp add: column_def)
    then have "map (copy_holder src dst) items = items" by (simp add: map_idI copy_holder_none)
    then show ?thesis using None find_holder_None_iff[of src item] by (simp add: copy_holder_none)
  next
    case (Some x)
    then have "find_holder src item \<noteq> None" by (simp add: find_holder_None_iff)
    then show ?thesis using Cons Some by (auto simp: column_def)
  qed
qed simp

lemma detach_appended_map:
  "gapfree (column obj items) \<Longrightarrow> detach_appended obj items = map (remove_holder obj) items"
proof (induction items)
  case (Cons item items)
  have none: "remove_holder obj it = it" if "held obj it = None" for it :: "'a MultiValueItem"
    using that by (simp add: remove_holder_def find_holder_None_iff[THEN iffD2])
  show ?case
  proof (cases "held obj item")
    case None
    then have "\<forall>it\<in>set items. held obj it = None" using Cons.prems by (simp add: column_def)
    then have "map (remove_holder obj) items = items" by (simp add: map_idI none)
    then show ?thesis using None find_holder_None_iff[of obj item] by (simp add: none)
  next
    case (Some x)
    then have "find_holder obj item \<noteq> None" by (simp add: find_holder_None_iff)
    then show ?thesis using Cons Some by (auto simp: column_def)
  qed
qed simp

lemma mv_Copy_frame:
  assumes ok: "slice_ok s" and new: "absent s dst"
  shows "individual (mv_Copy src dst s) obj i = individual s (if obj = dst then src else obj) i"
    and "column obj (appendedItems (mv_Copy src dst s)) = column (if obj = dst then src else obj) (appendedItems s)"
proof -
  show "individual (mv_Copy src dst s) obj i = individual s (if obj = dst then src else obj) i"
    using absent_held(1)[OF ok new] slice_okD(4)[OF ok]
    by (cases "map_of (individualItems s) i")
      (auto simp: individual_def mv_Copy_def map_of_map copy_holder_ok(2) dest: map_of_SomeD)
  show "column obj (appendedItems (mv_Copy src dst s)) = column (if obj = dst then src else obj) (appendedItems s)"
    using absent_held(2)[OF ok new] slice_okD(5)[OF ok] slice_okD(6)[OF ok, of src]
    by (auto simp: column_def mv_Copy_def copy_appended_map copy_holder_ok(2))
qed

lemma mv_Copy_ok:
  assumes ok: "slice_ok s" and new: "absent s dst"
  shows "slice_ok (mv_Copy src dst s)"
    and "contents (mv_Copy src dst s) obj = contents s (if obj = dst then src else obj)"
proof -
  let ?t = "mv_Copy src dst s"
  have shared: "sharedItems ?t = sharedItems s" by (simp add: mv_Copy_def)
  show "contents ?t obj = contents s (if obj = dst then src else obj)"
    by (intro contents_cong shared) (simp_all add: mv_Copy_frame[OF ok new])
  have "map_of (cachedLengths s) dst = None"
    using slice_okD(7)[OF ok, of dst] new by (simp add: cached_ok_def absent_def)
  then have "map_of (cachedLengths ?t) obj = map_of (cachedLengths s) (if obj = dst then src else obj)" for obj
    by (simp add: mv_Copy_def update_conv' split: option.split)
  then have "cached_ok ?t obj" for obj
    using slice_okD(7)[OF ok, of "if obj = dst then src else obj"]
    unfolding cached_ok_def mv_Copy_frame(2)[OF ok new] shared by simp
  then show "slice_ok ?t"
    unfolding slice_ok_def shared mv_Copy_frame(2)[OF ok new]
    using ok slice_okD[OF ok] absent_held[OF ok new]
    by (auto simp: mv_Copy_def o_def case_prod_unfold copy_appended_map copy_holder_ok(1) image_iff)
qed

lemma detach_individual_keys: "x \<in> set (detach_individual obj a) \<Longrightarrow> fst x = fst a"
  by (cases a) (auto simp: detach_individual_def split: option.splits if_splits)

lemma detach_individual_held:
  assumes "item_ok ind"
  shows "Option.bind (map_of (detach_individual obj (i, ind)) i) (held o') =
    (if o' = obj then None else held o' ind)"
proof (cases "\<exists>vi k. find_holder obj ind = Some (vi, k) \<and> length (ids (ind ! vi)) = 1 \<and> length ind = 1")
  case True
  then obtain k where f: "find_holder obj ind = Some (0, k)" and l: "length (ids (ind ! 0)) = 1" "length ind = 1"
    using find_holder_Some by fastforce
  then obtain v where v: "ind = [v]" by (metis One_nat_def length_0_conv length_Suc_conv)
  then have "ids v = [obj]" using find_holder_Some[OF f] l by (cases "ids v") auto
  then show ?thesis using f l v by (simp add: detach_individual_def held_eq_map_of)
next
  case False
  then show ?thesis using remove_holder_ok(2)[OF assms, of o' obj] find_holder_None_iff[of obj ind]
    by (auto simp: detach_individual_def split: option.split)
qed

lemma detach_items_held:
  assumes "distinct (map fst al)" and "\<And>i item. (i, item) \<in> set al \<Longrightarrow> item_ok item"
  shows "Option.bind (map_of (concat (map (detach_individual obj) al)) i) (held o') =
    (if o' = obj then None else Option.bind (map_of al i) (held o'))"
  using assms
proof (induction al)
  case (Cons a al)
  obtain k ind where a: "a = (k, ind)" by fastforce
  have ind: "item_ok ind" using Cons.prems(2) a by auto
  have IH: "Option.bind (map_of (concat (map (detach_individual obj) al)) i) (held o') =
    (if o' = obj then None else Option.bind (map_of al i) (held o'))"
    by (rule Cons.IH) (use Cons.prems in auto)
  show ?case
  proof (cases "i = k")
    case True
    have "map_of (concat (map (detach_individual obj) al)) k = None"
      using Cons.prems(1) a by (force simp: map_of_eq_None_iff dest: detach_individual_keys)
    then have "map_of (concat (map (detach_individual obj) (a # al))) k = map_of (detach_individual obj a) k"
      by (simp add: map_add_def split: option.split)
    then show ?thesis using detach_individual_held[OF ind, of obj k o'] True a by simp
  next
    case False
    then have "map_of (detach_individual obj a) i = None"
      using a by (auto simp: map_of_eq_None_iff dest: detach_individual_keys)
    then show ?thesis using IH False a by (simp add: map_add_def split: option.split)
  qed
qed simp

lemma mv_Detach_frame:
  assumes ok: "slice_ok s"
  shows "individual (mv_Detach obj s) o' i = (if o' = obj then None else individual s o' i)"
    and "column o' (appendedItems (mv_Detach obj s)) =
      (if o' = obj then map (\<lambda>_. None) (appendedItems s) else column o' (appendedItems s))"
proof -
  show "individual (mv_Detach obj s) o' i = (if o' = obj then None else individual s o' i)"
    using detach_items_held[OF slice_okD(2)[OF ok] slice_okD(4)[OF ok]]
    by (simp add: individual_def mv_Detach_def)
  show "column o' (appendedItems (mv_Detach obj s)) =
      (if o' = obj then map (\<lambda>_. None) (appendedItems s) else column o' (appendedItems s))"
    using slice_okD(5)[OF ok]
    by (simp add: mv_Detach_def column_def detach_appended_map[OF slice_okD(6)[OF ok]] remove_holder_ok(2))
qed

lemma detach_items_ok:
  assumes "distinct (map fst al)" and "\<forall>(i, item)\<in>set al. P i \<and> item_ok item"
  shows "distinct (map fst (concat (map (detach_individual obj) al)))"
    and "\<forall>(i, item)\<in>set (concat (map (detach_individual obj) al)). P i \<and> item_ok item"
proof -
  have keys: "fst ` set (concat (map (detach_individual obj) al)) \<subseteq> fst ` set al" for al :: "(u64 \<times> 'a MultiValueItem) list"
    by (auto dest: detach_individual_keys)
  have disj: "A \<subseteq> {k} \<Longrightarrow> B \<subseteq> C \<Longrightarrow> k \<notin> C \<Longrightarrow> A \<inter> B = {}" for A B C :: "u64 set" and k
    by blast
  show "distinct (map fst (concat (map (detach_individual obj) al)))" using assms(1)
  proof (induction al)
    case (Cons a al)
    have d: "distinct (map fst (detach_individual obj a))"
      by (cases a) (auto simp: detach_individual_def split: option.split)
    have "fst ` set (detach_individual obj a) \<subseteq> {fst a}" by (auto dest: detach_individual_keys)
    moreover have "fst a \<notin> fst ` set al" using Cons.prems by simp
    ultimately have "fst ` set (detach_individual obj a) \<inter> fst ` set (concat (map (detach_individual obj) al)) = {}"
      using keys[of al] disj by metis
    with d show ?case using Cons by (simp del: set_concat)
  qed simp
  show "\<forall>(i, item)\<in>set (concat (map (detach_individual obj) al)). P i \<and> item_ok item"
  proof -
    have "P i \<and> item_ok item" if "(i, item) \<in> set (detach_individual obj (k, ind))" "P k" "item_ok ind"
      for i item k ind
      using that remove_holder_ok(1)
      by (auto simp: detach_individual_def split: option.splits if_splits)
    then show ?thesis using assms(2) by fastforce
  qed
qed

lemma mv_Detach_ok:
  assumes ok: "slice_ok s"
  shows "slice_ok (mv_Detach obj s)"
    and "contents (mv_Detach obj s) o' = (if o' = obj then sharedItems s else contents s o')"
proof -
  let ?t = "mv_Detach obj s"
  have shared: "sharedItems ?t = sharedItems s" by (simp add: mv_Detach_def)
  have "originals ?t obj = sharedItems s"
    by (simp add: originals_def mv_Detach_frame[OF ok] shared map_nth)
  then have "contents ?t obj = sharedItems s" by (simp add: contents_def mv_Detach_frame[OF ok])
  moreover have "contents ?t o' = contents s o'" if "o' \<noteq> obj"
    using that by (intro contents_cong shared) (simp_all add: mv_Detach_frame[OF ok])
  ultimately show "contents ?t o' = (if o' = obj then sharedItems s else contents s o')" by simp
  have "cached_ok ?t o'" for o'
    using slice_okD(7)[OF ok, of o'] unfolding cached_ok_def mv_Detach_frame(2)[OF ok] shared
    by (simp add: mv_Detach_def delete_conv')
  moreover have "item_ok item" if "item \<in> set (appendedItems ?t)" for item
    using that slice_okD(5)[OF ok] remove_holder_ok(1)
    by (auto simp: mv_Detach_def detach_appended_map[OF slice_okD(6)[OF ok]])
  ultimately show "slice_ok ?t"
    using ok detach_items_ok[OF slice_okD(2)[OF ok], of "\<lambda>i. unat i < length (sharedItems s)" obj]
    unfolding slice_ok_def shared mv_Detach_frame(2)[OF ok] by (simp add: mv_Detach_def)
qed

lemma updateOriginalItem_frame:
  assumes ok: "slice_ok s"
  shows "individual (updateOriginalItem obj index x s) o' i =
    (if o' = obj \<and> i = index then (if x = sharedItems s ! unat index then None else Some x)
     else individual s o' i)"
proof (cases "map_of (individualItems s) index")
  case None
  then show ?thesis
    by (auto simp: updateOriginalItem_def individual_def update_conv' held_eq_map_of)
next
  case (Some ind)
  then have "item_ok ind" using slice_okD(4)[OF ok] by (metis map_of_SomeD)
  note rm = remove_holder_ok(1)[OF this, of obj] remove_holder_ok(2)[OF this, of _ obj]
  have "held obj (remove_holder obj ind) = None" using rm(2) by simp
  note add = add_holder_ok(2)[OF rm(1) this]
  show ?thesis using Some
    by (auto simp: updateOriginalItem_def individual_def update_conv' rm(2) add Let_def)
qed

lemma set_update_sub: "set (AList.update k v al) \<subseteq> insert (k, v) (set al)"
  by (induction al) auto

lemma updateOriginalItem_same [simp]:
  "sharedItems (updateOriginalItem obj index x s) = sharedItems s"
  "appendedItems (updateOriginalItem obj index x s) = appendedItems s"
  "cachedLengths (updateOriginalItem obj index x s) = cachedLengths s"
  by (auto simp: updateOriginalItem_def Let_def split: option.split)

lemma updateOriginalItem_ok:
  assumes ok: "slice_ok s" and i: "unat index < length (sharedItems s)"
  shows "slice_ok (updateOriginalItem obj index x s)"
    and "contents (updateOriginalItem obj index x s) o' =
      (if o' = obj then (contents s obj)[unat index := x] else contents s o')"
proof -
  let ?t = "updateOriginalItem obj index x s"
  have key: "of_nat j = index \<longleftrightarrow> j = unat index" if "j < length (sharedItems s)" for j
    using that slice_okD(1)[OF ok] unat_of_nat_u64[of j] by auto
  have "originals ?t obj = (originals s obj)[unat index := x]"
    by (rule nth_equalityI)
      (auto simp: originals_def nth_list_update updateOriginalItem_frame[OF ok] key split: option.split)
  then have "contents ?t obj = (contents s obj)[unat index := x]"
    using i by (simp add: contents_def list_update_append)
  moreover have "contents ?t o' = contents s o'" if "o' \<noteq> obj"
    using that by (intro contents_cong) (simp_all add: updateOriginalItem_frame[OF ok])
  ultimately show "contents ?t o' = (if o' = obj then (contents s obj)[unat index := x] else contents s o')"
    by simp
  have upd: "\<forall>(k, item)\<in>set (AList.update index it (individualItems s)).
      unat k < length (sharedItems s) \<and> item_ok item" if "item_ok it" for it
    using that i set_update_sub[of index it "individualItems s"] slice_okD(3,4)[OF ok] by fastforce
  have "item_ok [\<lparr>val = x, ids = [obj]\<rparr>]" by (simp add: item_ok_def)
  moreover have "item_ok (remove_holder obj ind) \<and> item_ok (add_holder obj x (remove_holder obj ind))"
    if "map_of (individualItems s) index = Some ind" for ind
    using slice_okD(4)[OF ok map_of_SomeD[OF that]] by (simp add: remove_holder_ok add_holder_ok(1))
  ultimately have "individualItems ?t = individualItems s \<or>
      (\<exists>it. item_ok it \<and> individualItems ?t = AList.update index it (individualItems s))"
    by (cases "map_of (individualItems s) index") (auto simp: updateOriginalItem_def Let_def)
  then have "distinct (map fst (individualItems ?t))"
    "\<forall>(k, item)\<in>set (individualItems ?t). unat k < length (sharedItems s) \<and> item_ok item"
    using upd ok unfolding slice_ok_def by (metis distinct_update, metis)
  then show "slice_ok ?t" using ok by (simp add: slice_ok_def cached_ok_def)
qed

lemma column_update:
  assumes "i < length items"
  shows "column o' (items[i := item]) = (column o' items)[i := held o' item]"
  by (simp add: column_def map_update)

lemma filled_update:
  assumes "gapfree xs" "i < length xs" "xs ! i \<noteq> None"
  shows "gapfree (xs[i := Some a])" "filled (xs[i := Some a]) = (filled xs)[i := a]"
    "i < length (filled xs)"
proof -
  have "gapfree (xs[i := Some a]) \<and> filled (xs[i := Some a]) = (filled xs)[i := a] \<and> i < length (filled xs)"
    using assms
  proof (induction xs arbitrary: i rule: filled.induct)
    case (3 b xs)
    then show ?case by (cases i) auto
  next
    case (2 xs)
    then show ?case by (cases i) (auto dest: nth_mem)
  qed simp
  then show "gapfree (xs[i := Some a])" "filled (xs[i := Some a]) = (filled xs)[i := a]"
    "i < length (filled xs)" by auto
qed

lemma updateAppendedItem_ok:
  assumes ok: "slice_ok s" and "length (sharedItems s) \<le> unat index"
    and "unat index < length (sharedItems s) + length (appendedItems s)"
    and run: "updateAppendedItem obj index x s = (r, t)"
  shows "slice_ok t \<and> sharedItems t = sharedItems s \<and>
    (\<forall>o' i. individual t o' i = individual s o' i) \<and>
    (\<forall>o'. o' \<noteq> obj \<longrightarrow> column o' (appendedItems t) = column o' (appendedItems s)) \<and>
    (if unat index < length (contents s obj)
     then r = Ok () \<and> contents t obj = (contents s obj)[unat index := x]
     else r = Fail (OutOfBounds index) \<and> t = s)"
proof -
  let ?i = "unat index - length (sharedItems s)" and ?c = "column obj (appendedItems s)"
  let ?item = "appendedItems s ! ?i"
  have i: "?i < length (appendedItems s)" using assms(2,3) by linarith
  have item: "item_ok ?item" using slice_okD(5)[OF ok] i by simp
  have held: "held obj ?item = (if ?i < length (filled ?c) then Some (filled ?c ! ?i) else None)"
    using gapfree_nth[OF slice_okD(6)[OF ok, of obj], of ?i] i by (simp add: column_def)
  have bound: "unat index < length (contents s obj) \<longleftrightarrow> ?i < length (filled ?c)"
    using assms(2) by (auto simp: contents_def)
  show ?thesis
  proof (cases "held obj ?item")
    case None
    then have "find_holder obj ?item = None" by (simp add: find_holder_None_iff)
    then have "r = Fail (OutOfBounds index)" "t = s"
      using run by (auto simp: updateAppendedItem_def Let_def)
    then show ?thesis using ok None held bound by (simp split: if_splits)
  next
    case (Some y)
    then have "find_holder obj ?item \<noteq> None" by (simp add: find_holder_None_iff)
    then have r: "r = Ok ()" and t: "t = s\<lparr>appendedItems :=
        (appendedItems s)[?i := add_holder obj x (remove_holder obj ?item)]\<rparr>"
      using run by (auto simp: updateAppendedItem_def Let_def)
    note rm = remove_holder_ok(1)[OF item, of obj] remove_holder_ok(2)[OF item, of _ obj]
    have "held obj (remove_holder obj ?item) = None" using rm(2) by simp
    note add = add_holder_ok(1)[OF rm(1) this, of x] add_holder_ok(2)[OF rm(1) this, of _ x]
    have col: "column o' (appendedItems t) = (if o' = obj then ?c[?i := Some x] else column o' (appendedItems s))" for o'
    proof -
      have "held o' ?item = column o' (appendedItems s) ! ?i" using i by (simp add: column_def)
      then show ?thesis using i by (simp add: t column_update add rm)
    qed
    have same: "sharedItems t = sharedItems s" "individualItems t = individualItems s"
        "cachedLengths t = cachedLengths s"
      by (simp_all add: t)
    have upd: "gapfree (?c[?i := Some x])" "filled (?c[?i := Some x]) = (filled ?c)[?i := x]"
        "?i < length (filled ?c)"
      using filled_update(1,2)[OF slice_okD(6)[OF ok, of obj], of ?i x]
        filled_update(3)[OF slice_okD(6)[OF ok, of obj], of ?i] i Some by (simp_all add: column_def)
    have "cached_ok t o'" for o'
      using slice_okD(7)[OF ok, of o'] upd(2) by (auto simp: cached_ok_def col same)
    moreover have "\<forall>it\<in>set (appendedItems t). item_ok it"
      using slice_okD(5)[OF ok] add(1) set_update_subset_insert[of "appendedItems s" ?i]
      by (force simp: t)
    ultimately have "slice_ok t" using ok upd(1) by (auto simp: slice_ok_def col same)
    moreover have "contents t obj = (contents s obj)[unat index := x]"
      using upd(2) assms(2)
      by (simp add: contents_def originals_def individual_def col same list_update_append split: option.split)
    ultimately show ?thesis using r bound upd(3) col by (simp add: t individual_def)
  qed
qed

lemma column_simps [simp]:
  "column obj [] = []" "column obj (item # items) = held obj item # column obj items"
  "column obj (items @ items') = column obj items @ column obj items'"
  by (simp_all add: column_def)

lemma held_new [simp]: "held o' [\<lparr>val = x, ids = [obj]\<rparr>] = (if o' = obj then Some x else None)"
  by (simp add: held_eq_map_of)

lemma append_existing_Some:
  assumes "append_existing obj x items = Some items'" and "gapfree (column obj items)"
    and "\<forall>item\<in>set items. item_ok item"
  shows "(\<forall>item\<in>set items'. item_ok item) \<and> gapfree (column obj items') \<and>
    filled (column obj items') = filled (column obj items) @ [x] \<and>
    (\<forall>o'. o' \<noteq> obj \<longrightarrow> column o' items' = column o' items)"
  using assms
proof (induction items arbitrary: items')
  case (Cons item items)
  show ?case
  proof (cases "held obj item")
    case None
    then have "items' = add_holder obj x item # items"
      using Cons.prems(1) find_holder_None_iff[of obj item] by auto
    moreover have "gapfree (column obj items) \<and> filled (column obj items) = []"
      using Cons.prems(2) None by (cases "column obj items" rule: filled.cases) auto
    ultimately show ?thesis
      using Cons.prems(3) None add_holder_ok[of item obj] by (auto simp: column_def)
  next
    case (Some y)
    then have "find_holder obj item \<noteq> None" by (simp add: find_holder_None_iff)
    then obtain items'' where "append_existing obj x items = Some items''" "items' = item # items''"
      using Cons.prems(1) by auto
    then show ?thesis using Cons.IH[of items''] Cons.prems(2,3) Some by simp
  qed
qed simp

lemma append_existing_None:
  "append_existing obj x items = None \<Longrightarrow>
     filled (column obj items @ [Some x]) = filled (column obj items) @ [x] \<and>
     gapfree (column obj items @ [Some x]) \<and> (items \<noteq> [] \<longrightarrow> filled (column obj items) \<noteq> [])"
proof (induction items)
  case (Cons item items)
  then show ?case
    by (cases "held obj item") (auto simp flip: find_holder_None_iff split: option.splits if_splits simp: held_def)
qed simp

lemma filled_append_None:
  "gapfree xs \<Longrightarrow> gapfree (xs @ [None]) \<and> filled (xs @ [None]) = filled xs"
  by (induction xs rule: filled.induct) auto

lemma mv_Append_frame:
  assumes ok: "slice_ok s"
  shows "\<exists>items. mv_Append obj x s = s\<lparr>appendedItems := items,
        cachedLengths := AList.update obj (mv_Len s obj + 1) (cachedLengths s)\<rparr> \<and>
      (\<forall>item\<in>set items. item_ok item) \<and> gapfree (column obj items) \<and>
      filled (column obj items) = filled (column obj (appendedItems s)) @ [x] \<and>
      (\<forall>o'. o' \<noteq> obj \<longrightarrow> gapfree (column o' items) \<and>
         filled (column o' items) = filled (column o' (appendedItems s)))"
proof (cases "append_existing obj x (appendedItems s)")
  case (Some items)
  then have "appendedItems s \<noteq> []" by auto
  with Some show ?thesis
    using append_existing_Some[OF Some slice_okD(6)[OF ok]] slice_okD(5,6)[OF ok]
    by (auto simp: mv_Append_def mv_Len_def split: option.splits)
next
  case None
  let ?items = "appendedItems s @ [[\<lparr>val = x, ids = [obj]\<rparr>]]"
  note ex = append_existing_None[OF None]
  have "map_of (cachedLengths s) obj \<noteq> None" if "appendedItems s \<noteq> []"
    using that ex slice_okD(7)[OF ok, of obj] by (simp add: cached_ok_def)
  moreover have "map_of (cachedLengths s) obj = None" if "appendedItems s = []"
    using that slice_okD(7)[OF ok, of obj] by (simp add: cached_ok_def)
  ultimately have "mv_Append obj x s = s\<lparr>appendedItems := ?items,
      cachedLengths := AList.update obj (mv_Len s obj + 1) (cachedLengths s)\<rparr>"
    using None by (auto simp: mv_Append_def mv_Len_def split: option.split)
  moreover have "item_ok [\<lparr>val = x, ids = [obj]\<rparr>]" by (simp add: item_ok_def)
  ultimately show ?thesis
    using ex slice_okD(5,6)[OF ok] filled_append_None by (intro exI[of _ ?items]) auto
qed

lemma mv_Append_ok:
  assumes ok: "slice_ok s"
  shows "slice_ok (mv_Append obj x s)"
    and "sharedItems (mv_Append obj x s) = sharedItems s"
    and "individual (mv_Append obj x s) o' i = individual s o' i"
    and "o' \<noteq> obj \<Longrightarrow> filled (column o' (appendedItems (mv_Append obj x s))) =
      filled (column o' (appendedItems s))"
    and "contents (mv_Append obj x s) o' = contents s o' @ (if o' = obj then [x] else [])"
proof -
  let ?t = "mv_Append obj x s"
  from mv_Append_frame[OF ok, of obj x] obtain items where
    t: "?t = s\<lparr>appendedItems := items,
        cachedLengths := AList.update obj (mv_Len s obj + 1) (cachedLengths s)\<rparr>"
    and items: "\<forall>item\<in>set items. item_ok item"
    and own: "gapfree (column obj items)" "filled (column obj items) = filled (column obj (appendedItems s)) @ [x]"
    and others: "\<And>o'. o' \<noteq> obj \<Longrightarrow> gapfree (column o' items)"
      "\<And>o'. o' \<noteq> obj \<Longrightarrow> filled (column o' items) = filled (column o' (appendedItems s))"
    by blast
  show shared: "sharedItems ?t = sharedItems s" by (simp add: t)
  show ind: "individual ?t o' i = individual s o' i" for o' i by (simp add: t individual_def)
  show "o' \<noteq> obj \<Longrightarrow> filled (column o' (appendedItems ?t)) = filled (column o' (appendedItems s))"
    using others(2) by (simp add: t)
  have "originals ?t o' = originals s o'" for o' by (simp add: originals_def ind shared split: option.split)
  moreover have app: "appendedItems ?t = items" by (simp add: t)
  ultimately show "contents ?t o' = contents s o' @ (if o' = obj then [x] else [])"
    using own(2) others(2) by (simp add: contents_def)
  have "map_of (cachedLengths ?t) o' = (if o' = obj then Some (mv_Len s obj + 1) else map_of (cachedLengths s) o')" for o'
    by (simp add: t update_conv')
  then have "cached_ok ?t o'" for o'
    using slice_okD(7)[OF ok, of o'] own(2) others(2) mv_Len_contents[OF ok, of obj]
    by (simp add: cached_ok_def shared app contents_def)
  moreover have "gapfree (column o' items)" for o' using own(1) others(1) by (cases "o' = obj") auto
  ultimately show "slice_ok ?t" using ok items by (simp add: slice_ok_def shared app) (simp add: t)
qed

end
