(* ===== verification/Multi_Value_Lists.thy ===== *)
theory Multi_Value_Lists
  imports Multi_Value_Slice
begin

text \<open>
  The multi-value slice against its specification. \<open>slice_reader\<close> is the contract of the Go
  interface \<open>MultiValueSlice\<close>, proved for the shared slice and for the plain slice of
  \<open>BuildEmptyCompositeSlice\<close>. The specification gives every object a list of its own, and a
  simulation shows that each sequence of operations has the same results in both.
\<close>

section \<open>The interface\<close>

text \<open>\<open>Len\<close> and \<open>At\<close> describe the list that \<open>Value\<close> returns. What a client reads with \<open>At\<close>
  up to \<open>Len\<close> is therefore that list.\<close>

locale slice_reader =
  fixes usable :: "'s \<Rightarrow> bool"
    and len_of :: "'s \<Rightarrow> u64 \<Rightarrow> nat"
    and at_of :: "'s \<Rightarrow> u64 \<Rightarrow> u64 \<Rightarrow> (mv_error, 'v) outcome"
    and value_of :: "'s \<Rightarrow> u64 \<Rightarrow> (mv_error, 'v list) outcome"
  assumes value_total: "usable s \<Longrightarrow> \<exists>xs. value_of s obj = Ok xs"
    and len_value: "usable s \<Longrightarrow> value_of s obj = Ok xs \<Longrightarrow> len_of s obj = length xs"
    and at_value: "usable s \<Longrightarrow> value_of s obj = Ok xs \<Longrightarrow>
      at_of s obj i = (if unat i < length xs then Ok (xs ! unat i) else Fail (OutOfBounds i))"
begin

lemma at_Ok_iff:
  assumes "usable s" shows "(\<exists>x. at_of s obj i = Ok x) \<longleftrightarrow> unat i < len_of s obj"
proof -
  obtain xs where xs: "value_of s obj = Ok xs" using value_total[OF assms] by blast
  show ?thesis using at_value[OF assms xs] len_value[OF assms xs] by simp
qed

lemma read_all:
  assumes "usable s" and "len_of s obj \<le> 2 ^ 64"
  shows "value_of s obj = Ok xs \<longleftrightarrow>
    length xs = len_of s obj \<and> (\<forall>i<len_of s obj. at_of s obj (of_nat i) = Ok (xs ! i))"
proof -
  obtain ys where ys: "value_of s obj = Ok ys" using value_total[OF assms(1)] by blast
  have len: "len_of s obj = length ys" using len_value[OF assms(1) ys] .
  have at: "at_of s obj (of_nat i) = Ok (ys ! i)" if "i < length ys" for i
  proof -
    have "unat (of_nat i :: u64) = i" using that assms(2) len by (intro unat_of_nat_u64) linarith
    then show ?thesis using at_value[OF assms(1) ys, of "of_nat i"] that by simp
  qed
  show ?thesis
  proof
    assume "value_of s obj = Ok xs"
    then have "xs = ys" using ys by simp
    then show "length xs = len_of s obj \<and> (\<forall>i<len_of s obj. at_of s obj (of_nat i) = Ok (xs ! i))"
      using len at by simp
  next
    assume "length xs = len_of s obj \<and> (\<forall>i<len_of s obj. at_of s obj (of_nat i) = Ok (xs ! i))"
    then have "xs = ys" using len at by (intro nth_equalityI) auto
    then show "value_of s obj = Ok xs" using ys by simp
  qed
qed

lemma same_value_same_reads:
  assumes "usable s" "usable t" and "value_of s obj = value_of t obj'"
  shows "len_of s obj = len_of t obj'" "at_of s obj i = at_of t obj' i"
proof -
  obtain xs where "value_of s obj = Ok xs" "value_of t obj' = Ok xs"
    using value_total[OF assms(1)] assms(3) by metis
  then show "len_of s obj = len_of t obj'" "at_of s obj i = at_of t obj' i"
    using len_value at_value assms(1,2) by simp_all
qed

end

interpretation mvs: slice_reader slice_ok mv_Len mv_At "mv_Value zero" for zero
  by unfold_locales (simp_all add: mv_Value_contents mv_Len_contents mv_At_contents)

interpretation plain: slice_reader "\<lambda>_. True" empty_Len empty_At empty_Value
  by unfold_locales (auto simp: empty_Value_def empty_Len_def empty_At_def)

section \<open>The specification\<close>

text \<open>Every object that has been written to or copied to owns a list; the others have the list
  given to \<open>Init\<close>.\<close>

datatype 'v mv_op =
    Op_UpdateAt u64 u64 'v
  | Op_Append u64 'v
  | Op_Copy u64 u64
  | Op_Detach u64

type_synonym 'v mv_lists = "u64 \<rightharpoonup> 'v list"

definition list_of :: "'v list \<Rightarrow> 'v mv_lists \<Rightarrow> u64 \<Rightarrow> 'v list" where
  "list_of init m obj = (case m obj of None \<Rightarrow> init | Some xs \<Rightarrow> xs)"

fun lists_step :: "'v list \<Rightarrow> 'v mv_op \<Rightarrow> (mv_error, 'v mv_lists, unit) proc" where
  "lists_step init (Op_UpdateAt obj index x) = (\<lambda>m.
     if unat index < length (list_of init m obj)
     then (Ok (), m(obj \<mapsto> (list_of init m obj)[unat index := x]))
     else (Fail (OutOfBounds index), m))"
| "lists_step init (Op_Append obj x) = (\<lambda>m. (Ok (), m(obj \<mapsto> list_of init m obj @ [x])))"
| "lists_step init (Op_Copy src dst) = (\<lambda>m. (Ok (), m(dst \<mapsto> list_of init m src)))"
| "lists_step init (Op_Detach obj) = (\<lambda>m. (Ok (), m(obj := None)))"

fun mv_step :: "'v mv_op \<Rightarrow> (mv_error, 'v mv_slice, unit) proc" where
  "mv_step (Op_UpdateAt obj index x) = mv_UpdateAt obj index x"
| "mv_step (Op_Append obj x) = modify (mv_Append obj x)"
| "mv_step (Op_Copy src dst) = modify (mv_Copy src dst)"
| "mv_step (Op_Detach obj) = modify (mv_Detach obj)"

text \<open>The destination of a copy is a new object, or one that has been detached.\<close>

fun copies_to_new :: "'v list \<Rightarrow> 'v mv_op list \<Rightarrow> 'v mv_lists \<Rightarrow> bool" where
  "copies_to_new init [] m = True"
| "copies_to_new init (op # ops) m =
     ((case op of Op_Copy src dst \<Rightarrow> m dst = None | _ \<Rightarrow> True) \<and>
      copies_to_new init ops (snd (lists_step init op m)))"

section \<open>The simulation\<close>

definition simulates :: "'v list \<Rightarrow> 'v mv_slice \<Rightarrow> 'v mv_lists \<Rightarrow> bool" where
  "simulates init s m \<longleftrightarrow> slice_ok s \<and> sharedItems s = init \<and>
     (\<forall>obj. contents s obj = list_of init m obj \<and> (m obj = None \<longrightarrow> absent s obj))"

lemma simulates_Init:
  assumes "length init \<le> 2 ^ 64" shows "simulates init (mv_Init init) Map.empty"
  using assms
  by (simp add: simulates_def slice_ok_def mv_Init_def cached_ok_def absent_def individual_def
      contents_def originals_def list_of_def map_nth)

lemma list_of_upd [simp]:
  "list_of init (m(obj \<mapsto> xs)) o' = (if o' = obj then xs else list_of init m o')"
  "list_of init (m(obj := None)) o' = (if o' = obj then init else list_of init m o')"
  by (simp_all add: list_of_def)

lemma simulates_UpdateAt:
  assumes sim: "simulates init s m" and run: "mv_UpdateAt obj index x s = (r, t)"
  shows "\<exists>m'. lists_step init (Op_UpdateAt obj index x) m = (r, m') \<and> simulates init t m'"
proof -
  let ?S = "length (sharedItems s)"
  from sim have ok: "slice_ok s" and c: "\<And>o'. contents s o' = list_of init m o'"
    and init: "sharedItems s = init" and new: "\<And>o'. m o' = None \<Longrightarrow> absent s o'"
    by (auto simp: simulates_def)
  consider (big) "?S + length (appendedItems s) \<le> unat index" | (shared) "unat index < ?S"
    | (app) "?S \<le> unat index" "unat index < ?S + length (appendedItems s)" by linarith
  then show ?thesis
  proof cases
    case big
    then have "\<not> unat index < length (contents s obj)"
      using filled_le[of "column obj (appendedItems s)"] by (simp add: contents_def column_def)
    then show ?thesis using big run sim by (simp add: mv_UpdateAt_def c)
  next
    case shared
    then have rt: "r = Ok ()" "t = updateOriginalItem obj index x s"
      using run by (auto simp: mv_UpdateAt_def)
    have "unat index < length (contents s obj)" using shared by (simp add: contents_def)
    moreover have "absent t o'" if "o' \<noteq> obj" "m o' = None" for o'
      using new[OF that(2)] that(1) by (simp add: rt absent_def updateOriginalItem_frame[OF ok])
    ultimately show ?thesis
      using updateOriginalItem_ok[OF ok shared, of obj x] init
      by (simp add: rt simulates_def c)
  next
    case app
    then have "updateAppendedItem obj index x s = (r, t)" using run by (simp add: mv_UpdateAt_def)
    note upd = updateAppendedItem_ok[OF ok app this]
    show ?thesis
    proof (cases "unat index < length (contents s obj)")
      case True
      have "absent t o'" if "o' \<noteq> obj" "m o' = None" for o'
        using new[OF that(2)] that(1) upd by (simp add: absent_def)
      moreover have "contents t o' = contents s o'" if "o' \<noteq> obj" for o'
        using upd that by (intro contents_cong) simp_all
      ultimately show ?thesis using upd True init by (simp add: simulates_def c)
    qed (use upd sim c in simp)
  qed
qed

lemma simulates_step:
  assumes sim: "simulates init s m" and run: "mv_step op s = (r, t)"
    and new: "case op of Op_Copy src dst \<Rightarrow> m dst = None | _ \<Rightarrow> True"
  shows "\<exists>m'. lists_step init op m = (r, m') \<and> simulates init t m'"
proof -
  from sim have ok: "slice_ok s" and c: "\<And>o'. contents s o' = list_of init m o'"
    and init: "sharedItems s = init" and absent: "\<And>o'. m o' = None \<Longrightarrow> absent s o'"
    by (auto simp: simulates_def)
  show ?thesis
  proof (cases op)
    case (Op_UpdateAt obj index x)
    then show ?thesis using simulates_UpdateAt[OF sim] run by simp
  next
    case (Op_Append obj x)
    then have rt: "r = Ok ()" "t = mv_Append obj x s" using run by (auto simp: modify_def)
    have "absent t o'" if "o' \<noteq> obj" "m o' = None" for o'
      using absent[OF that(2)] mv_Append_ok(3,4)[OF ok] that(1) by (simp add: rt absent_def)
    then show ?thesis using mv_Append_ok[OF ok] init by (simp add: Op_Append rt simulates_def c)
  next
    case (Op_Copy src dst)
    then have rt: "r = Ok ()" "t = mv_Copy src dst s" using run by (auto simp: modify_def)
    have dst: "absent s dst" using new absent Op_Copy by simp
    have "absent t o'" if "o' \<noteq> dst" "m o' = None" for o'
      using absent[OF that(2)] mv_Copy_frame[OF ok dst] that(1) by (simp add: rt absent_def)
    moreover have "sharedItems t = init" using init by (simp add: rt mv_Copy_def)
    ultimately show ?thesis using mv_Copy_ok[OF ok dst] by (simp add: Op_Copy rt simulates_def c)
  next
    case (Op_Detach obj)
    then have rt: "r = Ok ()" "t = mv_Detach obj s" using run by (auto simp: modify_def)
    have "absent t o'" if "o' = obj \<or> m o' = None" for o'
      using absent that mv_Detach_frame[OF ok] by (auto simp: rt absent_def)
    moreover have "sharedItems t = init" using init by (simp add: rt mv_Detach_def)
    ultimately show ?thesis using mv_Detach_ok[OF ok] init by (simp add: Op_Detach rt simulates_def c)
  qed
qed

lemma simulates_run:
  assumes "simulates init s m" and "copies_to_new init ops m" and "run_ops mv_step ops s = (rs, t)"
  shows "\<exists>m'. run_ops (lists_step init) ops m = (rs, m') \<and> simulates init t m'"
  using assms
proof (induction ops arbitrary: s m rs)
  case (Cons op ops)
  obtain r s' where step: "mv_step op s = (r, s')" by fastforce
  obtain rs' where rest: "run_ops mv_step ops s' = (rs', t)" and rs: "rs = r # rs'"
    using Cons.prems(3) step by (auto simp: Let_def split: prod.splits)
  obtain m' where m': "lists_step init op m = (r, m')" and sim: "simulates init s' m'"
    using simulates_step[OF Cons.prems(1) step] Cons.prems(2) by auto
  then show ?case using Cons.IH[OF sim _ rest] Cons.prems(2) rs by auto
qed simp

text \<open>C12: Whatever sequence of updates, appends, copies to new objects and detaches runs on a fresh
  multi-value slice, the operations return what they return on separate lists, one per object, and
  afterwards \<open>Value\<close>, \<open>Len\<close>, \<open>At\<close> and \<open>Reset\<close> show every object exactly its own list: sharing is
  never visible, and no operation panics.\<close>

theorem multi_value_slice_refines_lists:
  assumes "length init \<le> 2 ^ 64" and "copies_to_new init ops Map.empty"
    and "run_ops mv_step ops (mv_Init init) = (rs, s)"
  shows "\<exists>m. run_ops (lists_step init) ops Map.empty = (rs, m) \<and>
    (\<forall>obj index. let xs = list_of init m obj in
       mv_Value zero s obj = Ok xs \<and> mv_Len s obj = length xs \<and>
       mv_At s obj index = (if unat index < length xs then Ok (xs ! unat index) else Fail (OutOfBounds index)) \<and>
       mv_Reset zero s obj = Ok (mv_Init xs))"
proof -
  from simulates_run[OF simulates_Init[OF assms(1)] assms(2,3)] obtain m where
    m: "run_ops (lists_step init) ops Map.empty = (rs, m)" and sim: "simulates init s m" by blast
  then have ok: "slice_ok s" and "\<And>obj. list_of init m obj = contents s obj"
    by (auto simp: simulates_def)
  then show ?thesis
    using m mv_Reset_contents[OF ok] mv_Value_contents[OF ok] mv_Len_contents[OF ok] mv_At_contents[OF ok]
    by (intro exI[of _ m]) (simp add: Let_def)
qed

text \<open>Object 1 changes an item and appends two, is copied to object 2, which changes an appended item
  and restores the original value of the other; object 1 is then detached. Its update beyond
  the end fails.\<close>

definition example_ops :: "nat mv_op list" where
  "example_ops =
     [Op_UpdateAt 1 0 7, Op_Append 1 8, Op_Append 1 9, Op_Copy 1 2, Op_UpdateAt 2 3 5,
      Op_UpdateAt 2 0 10, Op_UpdateAt 3 4 6, Op_Append 3 8, Op_Detach 1]"

theorem multi_value_slice_witness:
  "\<exists>m. run_ops (lists_step [10, 20]) example_ops Map.empty =
      (fst (run_ops mv_step example_ops (mv_Init [10, 20])), m) \<and>
    mv_Value 0 (snd (run_ops mv_step example_ops (mv_Init [10, 20]))) 2 = Ok (list_of [10, 20] m 2) \<and>
    list_of [10, 20] m 2 = [10, 20, 8, 5] \<and> list_of [10, 20] m 1 = [10, 20] \<and> list_of [10, 20] m 3 = [10, 20, 8]"
proof -
  have new: "copies_to_new [10, 20] example_ops Map.empty"
    by (simp add: example_ops_def list_of_def)
  let ?r = "run_ops mv_step example_ops (mv_Init [10, 20])"
  have "run_ops mv_step example_ops (mv_Init [10, 20]) = (fst ?r, snd ?r)" by simp
  from multi_value_slice_refines_lists[OF _ new this, of 0] obtain m where
    m: "run_ops (lists_step [10, 20]) example_ops Map.empty = (fst ?r, m)"
    and v: "mv_Value 0 (snd ?r) 2 = Ok (list_of [10, 20] m 2)"
    by (auto simp: Let_def)
  have "m = snd (run_ops (lists_step [10, 20]) example_ops Map.empty)" using m by simp
  then have "list_of [10, 20] m 2 = [10, 20, 8, 5]" "list_of [10, 20] m 1 = [10, 20]"
    "list_of [10, 20] m 3 = [10, 20, 8]"
    by (simp_all add: example_ops_def list_of_def)
  with m v show ?thesis by blast
qed

end
