(* ===== verification/Shuffle.thy ===== *)
theory Shuffle
  imports Bytes Config Primitives
begin

text \<open>
  The swap-or-not shuffle of \<open>beacon-chain/core/helpers/shuffle.go\<close>, which assigns validators to
  committees: \<open>ComputeShuffledIndex\<close> follows one index through all rounds, and \<open>innerShuffleList\<close>
  shuffles a whole list in place, hashing once per 256 positions and walking from both ends of
  the two mirrored segments of a round. The hash function is an argument.

  The list loops count with naturals: the list has at most \<open>2 ^ 40\<close> elements, so that no counter
  of the code wraps around.
\<close>

section \<open>The rounds\<close>

datatype shuffle_error = InputIndexOutOfBounds u64 u64 | ListSizeOutOfBounds u64

definition maxShuffleListSize :: u64 where
  "maxShuffleListSize = push_bit 40 1"

text \<open>Both functions end with the same loop: up from round 0, or down from the last round. The
  round is a \<open>uint8\<close>.\<close>

function round_loop :: "(u8 \<Rightarrow> 's \<Rightarrow> 's) \<Rightarrow> u8 \<Rightarrow> bool \<Rightarrow> u8 \<Rightarrow> 's \<Rightarrow> 's" where
  "round_loop body rounds shuffle round s =
     (let s = body round s in
      if shuffle then (if round + 1 = rounds then s else round_loop body rounds shuffle (round + 1) s)
      else if round = 0 then s else round_loop body rounds shuffle (round - 1) s)"
  by auto

lemma unat_pred_u8: "(x :: u8) \<noteq> 0 \<Longrightarrow> unat (x - 1) < unat x"
  by (simp add: unat_minus_one unat_gt_0)

termination round_loop
proof (relation "measure (\<lambda>(body, rounds, shuffle, round, s). if shuffle then unat (rounds - round - 1) else unat round)")
  fix body :: "u8 \<Rightarrow> 's \<Rightarrow> 's" and rounds :: u8 and shuffle and round :: u8 and s x
  assume "shuffle" and "round + 1 \<noteq> rounds"
  then have "rounds - round - 1 \<noteq> 0" by (metis add.commute diff_diff_add eq_iff_diff_eq_0)
  then show "((body, rounds, shuffle, round + 1, x), body, rounds, shuffle, round, s)
      \<in> measure (\<lambda>(body, rounds, shuffle, round, s). if shuffle then unat (rounds - round - 1) else unat round)"
    using unat_pred_u8[of "rounds - round - 1"] \<open>shuffle\<close> by (simp add: diff_diff_eq add.commute)
qed (simp_all add: unat_pred_u8)

declare round_loop.simps [simp del]

section \<open>One index\<close>

definition pivot_hash :: "(bytes \<Rightarrow> root) \<Rightarrow> root \<Rightarrow> u8 \<Rightarrow> bytes" where
  "pivot_hash H seed round = root_bytes (H (root_bytes seed @ [round]))"

definition source_hash :: "(bytes \<Rightarrow> root) \<Rightarrow> root \<Rightarrow> u8 \<Rightarrow> u64 \<Rightarrow> bytes" where
  "source_hash H seed round block = root_bytes (H (root_bytes seed @ [round] @ take 4 (put_le 8 block)))"

definition shuffle_index_round :: "(bytes \<Rightarrow> root) \<Rightarrow> root \<Rightarrow> u64 \<Rightarrow> u8 \<Rightarrow> u64 \<Rightarrow> u64" where
  "shuffle_index_round H seed indexCount round index =
     (let hash8Int = FromBytes8 (take 8 (pivot_hash H seed round));
          pivot = hash8Int mod indexCount;
          flip = (pivot + indexCount - index) mod indexCount;
          position = max flip index;
          source = source_hash H seed round (drop_bit 8 position);
          byteV = source ! unat (drop_bit 3 (position AND 0xff));
          bitV = drop_bit (unat (position AND 7)) byteV AND 1
      in if bitV = 1 then flip else index)"

definition ComputeShuffledIndex ::
  "beacon_config \<Rightarrow> (bytes \<Rightarrow> root) \<Rightarrow> u64 \<Rightarrow> u64 \<Rightarrow> root \<Rightarrow> bool \<Rightarrow> (shuffle_error, u64) outcome" where
  "ComputeShuffledIndex cfg H index indexCount seed shuffle =
     (if ShuffleRoundCount cfg = 0 then Ok index
      else if index \<ge> indexCount then Fail (InputIndexOutOfBounds index indexCount)
      else if indexCount > maxShuffleListSize then Fail (ListSizeOutOfBounds indexCount)
      else let rounds = (ucast (ShuffleRoundCount cfg) :: u8); round = (if shuffle then 0 else rounds - 1) in
        Ok (round_loop (shuffle_index_round H seed indexCount) rounds shuffle round index))"

definition ShuffledIndex ::
  "beacon_config \<Rightarrow> (bytes \<Rightarrow> root) \<Rightarrow> u64 \<Rightarrow> u64 \<Rightarrow> root \<Rightarrow> (shuffle_error, u64) outcome" where
  "ShuffledIndex cfg H index indexCount seed = ComputeShuffledIndex cfg H index indexCount seed True"

definition UnShuffledIndex ::
  "beacon_config \<Rightarrow> (bytes \<Rightarrow> root) \<Rightarrow> u64 \<Rightarrow> u64 \<Rightarrow> root \<Rightarrow> (shuffle_error, u64) outcome" where
  "UnShuffledIndex cfg H index indexCount seed = ComputeShuffledIndex cfg H index indexCount seed False"

section \<open>A list\<close>

definition swapOrNot :: "(bytes \<Rightarrow> root) \<Rightarrow> root \<Rightarrow> u8 \<Rightarrow> u8 \<Rightarrow> nat \<Rightarrow> validator_index list \<Rightarrow> nat \<Rightarrow> bytes \<Rightarrow>
    u8 \<times> bytes \<times> validator_index list" where
  "swapOrNot H seed r byteV i input j source =
     (let source = (if j mod 256 = 255 then source_hash H seed r (of_nat (j div 256)) else source);
          byteV = (if j mod 8 = 7 then source ! (j mod 256 div 8) else byteV);
          bitV = drop_bit (j mod 8) byteV AND 1;
          input = (if bitV = 1 then input[i := input ! j, j := input ! i] else input)
      in (byteV, source, input))"

function swap_loop :: "(bytes \<Rightarrow> root) \<Rightarrow> root \<Rightarrow> u8 \<Rightarrow> nat \<Rightarrow> nat \<Rightarrow> nat \<Rightarrow> u8 \<Rightarrow> bytes \<Rightarrow>
    validator_index list \<Rightarrow> validator_index list" where
  "swap_loop H seed r mirror i j byteV source input =
     (if i < mirror then
        (case swapOrNot H seed r byteV i input j source of
           (byteV, source, input) \<Rightarrow> swap_loop H seed r mirror (i + 1) (j - 1) byteV source input)
      else input)"
  by auto
termination swap_loop
  by (relation "measure (\<lambda>(H, seed, r, mirror, i, j, b, s, xs). mirror - i)") auto

declare swap_loop.simps [simp del]

text \<open>One segment: the byte source is fetched for its last position before the loop.\<close>

definition shuffle_segment :: "(bytes \<Rightarrow> root) \<Rightarrow> root \<Rightarrow> u8 \<Rightarrow> nat \<Rightarrow> nat \<Rightarrow> nat \<Rightarrow> validator_index list \<Rightarrow>
    validator_index list" where
  "shuffle_segment H seed r mirror start end' input =
     (let source = source_hash H seed r (of_nat (end' div 256));
          byteV = source ! (end' mod 256 div 8)
      in swap_loop H seed r mirror start end' byteV source input)"

definition shuffle_list_round :: "(bytes \<Rightarrow> root) \<Rightarrow> root \<Rightarrow> u8 \<Rightarrow> validator_index list \<Rightarrow> validator_index list" where
  "shuffle_list_round H seed r input =
     (let listSize = length input;
          pivot = unat (get_le (take 8 (pivot_hash H seed r)) :: u64) mod listSize;
          input = shuffle_segment H seed r ((pivot + 1) div 2) 0 pivot input
      in shuffle_segment H seed r ((pivot + listSize + 1) div 2) (pivot + 1) (listSize - 1) input)"

definition innerShuffleList :: "beacon_config \<Rightarrow> (bytes \<Rightarrow> root) \<Rightarrow> validator_index list \<Rightarrow> root \<Rightarrow> bool \<Rightarrow>
    (shuffle_error, validator_index list) outcome" where
  "innerShuffleList cfg H input seed shuffle =
     (if length input \<le> 1 then Ok input
      else if (of_nat (length input) :: u64) > maxShuffleListSize then Fail (ListSizeOutOfBounds (of_nat (length input)))
      else let rounds = (ucast (ShuffleRoundCount cfg) :: u8) in
        if rounds = 0 then Ok input
        else Ok (round_loop (shuffle_list_round H seed) rounds shuffle (if shuffle then 0 else rounds - 1) input))"

definition ShuffleList :: "beacon_config \<Rightarrow> (bytes \<Rightarrow> root) \<Rightarrow> validator_index list \<Rightarrow> root \<Rightarrow>
    (shuffle_error, validator_index list) outcome" where
  "ShuffleList cfg H input seed = innerShuffleList cfg H input seed True"

definition UnshuffleList :: "beacon_config \<Rightarrow> (bytes \<Rightarrow> root) \<Rightarrow> validator_index list \<Rightarrow> root \<Rightarrow>
    (shuffle_error, validator_index list) outcome" where
  "UnshuffleList cfg H input seed = innerShuffleList cfg H input seed False"

section \<open>The loop runs every round once\<close>

definition rounds_of :: "u8 \<Rightarrow> u8 list" where
  "rounds_of rounds = map of_nat [0..<unat (rounds - 1) + 1]"

lemma round_loop_up:
  assumes "k \<le> unat (rounds - 1)"
  shows "round_loop body rounds True (of_nat k) s = fold body (map of_nat [k..<unat (rounds - 1) + 1]) s"
  using assms
proof (induction "unat (rounds - 1) - k" arbitrary: k s)
  case 0
  then have k: "k = unat (rounds - 1)" by simp
  then have "of_nat k = rounds - 1" by simp
  then show ?case using k by (subst round_loop.simps) simp
next
  case (Suc d)
  have lt: "k < unat (rounds - 1)" using Suc.hyps(2) by linarith
  moreover have "unat (rounds - 1) < 256" using unsigned_less[of "rounds - 1"] by simp
  ultimately have "unat (of_nat k :: u8) = k" by (simp add: unat_of_nat)
  with lt have "of_nat k \<noteq> rounds - 1" by auto
  then have ne: "of_nat k + 1 \<noteq> rounds" by (metis add_diff_cancel_right')
  have "round_loop body rounds True (of_nat k) s = round_loop body rounds True (of_nat (Suc k)) (body (of_nat k) s)"
    using ne by (subst round_loop.simps) (simp add: Let_def add.commute)
  then show ?case using Suc.hyps(1)[of "Suc k"] Suc.hyps(2) lt by (simp add: upt_rec[of k])
qed

lemma round_loop_down:
  assumes "k < 256"
  shows "round_loop body rounds False (of_nat k) s = fold body (rev (map of_nat [0..<Suc k])) s"
  using assms
proof (induction k arbitrary: s)
  case 0
  then show ?case by (subst round_loop.simps) simp
next
  case (Suc k)
  have "of_nat (Suc k) \<noteq> (0 :: u8)"
  proof
    assume "of_nat (Suc k) = (0 :: u8)"
    then have "Suc k mod 256 = 0" using unat_of_nat[of "Suc k", where 'a = 8] by simp
    then show False using Suc.prems by simp
  qed
  then have "round_loop body rounds False (of_nat (Suc k)) s = round_loop body rounds False (of_nat k) (body (of_nat (Suc k)) s)"
    by (subst round_loop.simps) (simp add: Let_def)
  then show ?case using Suc by simp
qed

lemma round_loop_fold:
  "round_loop body rounds True 0 s = fold body (rounds_of rounds) s"
  "round_loop body rounds False (rounds - 1) s = fold body (rev (rounds_of rounds)) s"
proof -
  show "round_loop body rounds True 0 s = fold body (rounds_of rounds) s"
    using round_loop_up[of 0 rounds body s] by (simp add: rounds_of_def)
  have "unat (rounds - 1) < 256" using unsigned_less[of "rounds - 1"] by simp
  from round_loop_down[OF this, of body rounds s]
  show "round_loop body rounds False (rounds - 1) s = fold body (rev (rounds_of rounds)) s"
    by (simp add: rounds_of_def)
qed

section \<open>Swap or not\<close>

text \<open>A round mirrors the positions around the pivot, and swaps a pair when the bit of its higher
  position is set.\<close>

definition pivot_of :: "(bytes \<Rightarrow> root) \<Rightarrow> root \<Rightarrow> nat \<Rightarrow> u8 \<Rightarrow> nat" where
  "pivot_of H seed n r = unat (get_le (take 8 (pivot_hash H seed r)) :: u64) mod n"

definition mirrored :: "nat \<Rightarrow> nat \<Rightarrow> nat \<Rightarrow> nat" where
  "mirrored n p i = (p + n - i) mod n"

definition swap_bit :: "(bytes \<Rightarrow> root) \<Rightarrow> root \<Rightarrow> u8 \<Rightarrow> nat \<Rightarrow> bool" where
  "swap_bit H seed r position \<longleftrightarrow>
     drop_bit (position mod 8) (source_hash H seed r (of_nat (position div 256)) ! (position mod 256 div 8)) AND 1 = 1"

definition swap_or_not :: "(bytes \<Rightarrow> root) \<Rightarrow> root \<Rightarrow> nat \<Rightarrow> u8 \<Rightarrow> nat \<Rightarrow> nat" where
  "swap_or_not H seed n r i =
     (let m = mirrored n (pivot_of H seed n r) i in if swap_bit H seed r (max m i) then m else i)"

lemma mirrored_eq: "p < n \<Longrightarrow> i < n \<Longrightarrow> mirrored n p i = (if i \<le> p then p - i else p + n - i)"
proof -
  assume p: "p < n" and i: "i < n"
  show ?thesis
  proof (cases "i \<le> p")
    case True
    then have "p + n - i = (p - i) + n" by simp
    then have "mirrored n p i = (p - i) mod n" by (simp add: mirrored_def)
    then show ?thesis using True p by simp
  next
    case False
    then show ?thesis using i by (simp add: mirrored_def)
  qed
qed

lemma swap_or_not_less: "i < n \<Longrightarrow> swap_or_not H seed n r i < n"
  by (simp add: swap_or_not_def Let_def mirrored_def)

lemma swap_or_not_involution:
  assumes i: "i < n" shows "swap_or_not H seed n r (swap_or_not H seed n r i) = i"
proof -
  let ?p = "pivot_of H seed n r"
  have p: "?p < n" using i by (simp add: pivot_of_def)
  let ?m = "mirrored n ?p i"
  have m: "?m < n" "mirrored n ?p ?m = i" using mirrored_eq[OF p i] mirrored_eq[OF p, of ?m] p i by auto
  show ?thesis using m by (auto simp: swap_or_not_def Let_def max.commute)
qed

lemma fold_swaps_less: "i < n \<Longrightarrow> fold (swap_or_not H seed n) rs i < n"
  by (induction rs arbitrary: i) (simp_all add: swap_or_not_less)

lemma fold_swaps_inverse:
  "i < n \<Longrightarrow> fold (swap_or_not H seed n) (rev rs) (fold (swap_or_not H seed n) rs i) = i"
proof (induction rs arbitrary: i)
  case (Cons r rs)
  then show ?case using swap_or_not_less[OF Cons.prems] by (simp add: swap_or_not_involution)
qed simp

lemma unat_and_0xff: "unat (x AND 0xff :: u64) = unat x mod 256"
proof -
  have "x AND 0xff = take_bit 8 x" by (simp add: take_bit_eq_mask mask_eq_exp_minus_1)
  then show ?thesis by (simp add: unsigned_take_bit_eq take_bit_eq_mod unat_mod)
qed

lemma unat_and_7: "unat (x AND 7 :: u64) = unat x mod 8"
proof -
  have "x AND 7 = take_bit 3 x" by (simp add: take_bit_eq_mask mask_eq_exp_minus_1)
  then show ?thesis by (simp add: unsigned_take_bit_eq take_bit_eq_mod unat_mod)
qed

lemma drop_bit_8: "drop_bit 8 (x :: u64) = of_nat (unat x div 256)"
proof -
  have "unat (drop_bit 8 x) = unat x div 256" by (simp add: drop_bit_eq_div unat_div)
  from arg_cong[OF this, of "of_nat :: nat \<Rightarrow> u64"] show ?thesis by simp
qed

lemma unat_byte_index: "unat (drop_bit 3 (x AND 0xff :: u64)) = unat x mod 256 div 8"
proof -
  have "unat (drop_bit 3 (x AND 0xff)) = unat (x AND 0xff) div 8"
    by (simp add: drop_bit_eq_div unat_div)
  then show ?thesis by (simp only: unat_and_0xff)
qed

lemma shuffle_index_round_eq:
  assumes i: "index < N" and N: "unat N \<le> 2 ^ 40"
  shows "unat (shuffle_index_round H seed N r index) = swap_or_not H seed (unat N) r (unat index)"
proof -
  let ?piv = "FromBytes8 (take 8 (pivot_hash H seed r)) mod N"
  let ?flip = "(?piv + N - index) mod N"
  let ?pos = "max ?flip index"
  have i': "unat index < unat N" using i by (simp add: word_less_nat_alt)
  have piv: "unat ?piv = pivot_of H seed (unat N) r"
    by (simp add: FromBytes8_def pivot_hash_def pivot_of_def unat_mod)
  have p: "unat ?piv < unat N" unfolding piv using i' by (simp add: pivot_of_def)
  have sum: "unat (?piv + N) = unat ?piv + unat N" using p N by (intro unat_add_u64) simp
  moreover have "index \<le> ?piv + N" unfolding word_le_nat_alt sum using i' by linarith
  ultimately have "unat (?piv + N - index) = unat ?piv + unat N - unat index"
    by (simp add: unat_sub_u64)
  then have flip: "unat ?flip = mirrored (unat N) (pivot_of H seed (unat N) r) (unat index)"
    unfolding mirrored_def piv[symmetric] by (metis unat_mod)
  have pos: "unat ?pos = max (unat ?flip) (unat index)" by (simp add: max_def word_le_nat_alt)
  have "swap_bit H seed r (unat ?pos) \<longleftrightarrow>
      drop_bit (unat (?pos AND 7)) (source_hash H seed r (drop_bit 8 ?pos) ! unat (drop_bit 3 (?pos AND 0xff))) AND 1 = 1"
    unfolding swap_bit_def drop_bit_8 unat_byte_index unat_and_7 ..
  then show ?thesis
    by (simp add: shuffle_index_round_def swap_or_not_def Let_def pos flip)
qed

lemma fold_index_rounds:
  assumes "index < N" "unat N \<le> 2 ^ 40"
  shows "unat (fold (shuffle_index_round H seed N) rs index) = fold (swap_or_not H seed (unat N)) rs (unat index)"
  using assms(1)
proof (induction rs arbitrary: index)
  case (Cons r rs)
  have "shuffle_index_round H seed N r index < N"
    using shuffle_index_round_eq[OF Cons.prems assms(2)] swap_or_not_less[of "unat index" "unat N"] Cons.prems
    by (simp add: word_less_nat_alt)
  then show ?case using Cons.IH shuffle_index_round_eq[OF Cons.prems assms(2)] by simp
qed simp

lemma ComputeShuffledIndex_eq:
  assumes "index < N" "unat N \<le> 2 ^ 40" "ShuffleRoundCount cfg \<noteq> 0"
  defines "rs \<equiv> rounds_of (ucast (ShuffleRoundCount cfg))"
  shows "\<exists>k. ComputeShuffledIndex cfg H index N seed shuffle = Ok k \<and>
    unat k = fold (swap_or_not H seed (unat N)) (if shuffle then rs else rev rs) (unat index)"
proof -
  have "unat maxShuffleListSize = 2 ^ 40" by (simp add: maxShuffleListSize_def)
  then have "\<not> N > maxShuffleListSize" using assms(2) by (simp add: word_less_nat_alt)
  then show ?thesis using assms(1,3) fold_index_rounds[OF assms(1,2)]
    by (auto simp: ComputeShuffledIndex_def Let_def round_loop_fold rs_def not_le)
qed

section \<open>A segment of the list\<close>

text \<open>Before the step at \<open>j\<close>, the cached source and byte are those of \<open>j\<close>, unless the step is about
  to fetch them.\<close>

definition cache_ok :: "(bytes \<Rightarrow> root) \<Rightarrow> root \<Rightarrow> u8 \<Rightarrow> nat \<Rightarrow> u8 \<Rightarrow> bytes \<Rightarrow> bool" where
  "cache_ok H seed r j byteV source \<longleftrightarrow>
     (j mod 256 \<noteq> 255 \<longrightarrow> source = source_hash H seed r (of_nat (j div 256))) \<and>
     (j mod 8 \<noteq> 7 \<longrightarrow> byteV = source_hash H seed r (of_nat (j div 256)) ! (j mod 256 div 8))"

lemma Suc_same_block: "t mod m \<noteq> m - 1 \<Longrightarrow> Suc t div m = t div m"
  by (auto simp: div_Suc mod_Suc split: if_splits)

lemma byte_position: "(x :: nat) mod 256 div 8 = x div 8 mod 32" "x div 256 = x div 8 div 32"
  using mod_mult2_eq[of x 8 32] div_mult2_eq[of x 8 32] by simp_all

lemma cache_step:
  assumes "0 < j" and "source = source_hash H seed r (of_nat (j div 256))"
    and "byteV = source ! (j mod 256 div 8)"
  shows "cache_ok H seed r (j - 1) byteV source"
proof -
  obtain t where t: "j = Suc t" using assms(1) gr0_implies_Suc by blast
  have "t div 256 = j div 256" if "t mod 256 \<noteq> 255" using Suc_same_block[of t 256] that by (simp add: t)
  moreover have "t div 256 = j div 256 \<and> t mod 256 div 8 = j mod 256 div 8" if "t mod 8 \<noteq> 7"
    unfolding byte_position using Suc_same_block[of t 8] that by (simp add: t)
  ultimately show ?thesis using assms(2,3) by (simp add: cache_ok_def t)
qed

lemma swapOrNot_eq:
  assumes "cache_ok H seed r j byteV source"
  shows "swapOrNot H seed r byteV i input j source =
    (source_hash H seed r (of_nat (j div 256)) ! (j mod 256 div 8), source_hash H seed r (of_nat (j div 256)),
     if swap_bit H seed r j then input[i := input ! j, j := input ! i] else input)"
proof -
  have src: "(if j mod 256 = 255 then source_hash H seed r (of_nat (j div 256)) else source) =
      source_hash H seed r (of_nat (j div 256))" using assms by (auto simp: cache_ok_def)
  have "(if j mod 8 = 7 then source_hash H seed r (of_nat (j div 256)) ! (j mod 256 div 8) else byteV) =
      source_hash H seed r (of_nat (j div 256)) ! (j mod 256 div 8)" using assms by (auto simp: cache_ok_def)
  then show ?thesis by (simp add: swapOrNot_def Let_def src swap_bit_def)
qed

text \<open>The loop over the pairs \<open>(i, j)\<close> with \<open>i + j = c\<close>, from the outside in.\<close>

definition mirror_at :: "(bytes \<Rightarrow> root) \<Rightarrow> root \<Rightarrow> u8 \<Rightarrow> nat \<Rightarrow> nat \<Rightarrow> nat \<Rightarrow> nat \<Rightarrow> nat" where
  "mirror_at H seed r c lo hi k =
     (if lo \<le> k \<and> k \<le> hi \<and> swap_bit H seed r (max k (c - k)) then c - k else k)"

lemma swap_loop_eq:
  assumes "i + j = c" "mirror = (c + 1) div 2" "j < length input" "cache_ok H seed r j byteV source"
    "k < length input"
  shows "swap_loop H seed r mirror i j byteV source input ! k = input ! mirror_at H seed r c i j k \<and>
    length (swap_loop H seed r mirror i j byteV source input) = length input"
  using assms
proof (induction "mirror - i" arbitrary: i j byteV source input)
  case 0
  then have "i \<ge> mirror" by simp
  moreover have "mirror_at H seed r c i j k = k"
    using 0 by (auto simp: mirror_at_def)
  ultimately show ?case by (subst (1 2) swap_loop.simps) simp
next
  case (Suc d)
  then have ij: "i < mirror" "i < j" by linarith+
  let ?src = "source_hash H seed r (of_nat (j div 256))"
  let ?b = "?src ! (j mod 256 div 8)"
  let ?input = "if swap_bit H seed r j then input[i := input ! j, j := input ! i] else input"
  have step: "swap_loop H seed r mirror i j byteV source input =
      swap_loop H seed r mirror (i + 1) (j - 1) ?b ?src ?input"
    using ij(1) swapOrNot_eq[OF Suc.prems(4)] by (subst swap_loop.simps) simp
  have "cache_ok H seed r (j - 1) ?b ?src" using ij(2) by (intro cache_step) auto
  then have IH: "swap_loop H seed r mirror (i + 1) (j - 1) ?b ?src ?input ! k = ?input ! mirror_at H seed r c (i + 1) (j - 1) k"
    "length (swap_loop H seed r mirror (i + 1) (j - 1) ?b ?src ?input) = length input"
    using Suc.hyps(1)[of "i + 1" "j - 1" ?input ?b ?src] Suc.hyps(2) Suc.prems ij by auto
  have "?input ! mirror_at H seed r c (i + 1) (j - 1) k = input ! mirror_at H seed r c i j k"
  proof -
    consider (lo) "k = i" | (hi) "k = j" | (mid) "i < k" "k < j" | (out) "k < i \<or> j < k" using ij by linarith
    then show ?thesis
    proof cases
      case lo
      then have "max k (c - k) = j" "c - k = j" "i < length input" "i \<noteq> j" using Suc.prems(1,3) ij by auto
      then show ?thesis using lo ij Suc.prems(3) by (simp add: mirror_at_def)
    next
      case hi
      then have "max k (c - k) = j" "c - k = i" "\<not> j \<le> j - 1" using Suc.prems(1) ij by auto
      then show ?thesis using hi ij Suc.prems(3) by (simp add: mirror_at_def)
    next
      case mid
      then have "i < c - k" "c - k < j" "k \<le> j - 1" "i + 1 \<le> k" using Suc.prems(1) by linarith+
      then show ?thesis using mid by (simp add: mirror_at_def)
    next
      case out
      then have "mirror_at H seed r c (i + 1) (j - 1) k = k" "mirror_at H seed r c i j k = k" "k \<noteq> i" "k \<noteq> j"
        using ij by (auto simp: mirror_at_def)
      then show ?thesis by simp
    qed
  qed
  then show ?case using step IH by simp
qed

lemma shuffle_segment_eq:
  assumes "start + end' = c" "mirror = (c + 1) div 2" "end' < length input" "k < length input"
  shows "shuffle_segment H seed r mirror start end' input ! k = input ! mirror_at H seed r c start end' k"
    and "length (shuffle_segment H seed r mirror start end' input) = length input"
proof -
  have "cache_ok H seed r end' (source_hash H seed r (of_nat (end' div 256)) ! (end' mod 256 div 8))
      (source_hash H seed r (of_nat (end' div 256)))" by (simp add: cache_ok_def)
  from swap_loop_eq[OF assms(1,2,3) this assms(4)]
  show "shuffle_segment H seed r mirror start end' input ! k = input ! mirror_at H seed r c start end' k"
    and "length (shuffle_segment H seed r mirror start end' input) = length input"
    by (simp_all add: shuffle_segment_def Let_def)
qed

lemma shuffle_list_round_eq:
  assumes k: "k < length input"
  shows "shuffle_list_round H seed r input ! k = input ! swap_or_not H seed (length input) r k"
    and "length (shuffle_list_round H seed r input) = length input"
proof -
  let ?n = "length input"
  let ?p = "pivot_of H seed ?n r"
  have p: "?p < ?n" using k by (auto simp: pivot_of_def intro: mod_less_divisor)
  let ?first = "shuffle_segment H seed r ((?p + 1) div 2) 0 ?p input"
  let ?second = "shuffle_segment H seed r ((?p + ?n + 1) div 2) (?p + 1) (?n - 1) ?first"
  have round: "shuffle_list_round H seed r input = ?second"
    by (simp add: shuffle_list_round_def Let_def pivot_of_def)
  have first: "?first ! m = input ! mirror_at H seed r ?p 0 ?p m" if "m < ?n" for m
    using p that by (intro shuffle_segment_eq(1)) simp_all
  have len: "length ?first = ?n" using p k by (intro shuffle_segment_eq(2)[of _ _ ?p]) simp_all
  have sum: "(?p + 1) + (?n - 1) = ?p + ?n" using k by simp
  have second: "?second ! k = ?first ! mirror_at H seed r (?p + ?n) (?p + 1) (?n - 1) k"
    using k len by (intro shuffle_segment_eq(1)[OF sum]) simp_all
  show "length (shuffle_list_round H seed r input) = ?n"
    unfolding round using k len shuffle_segment_eq(2)[OF sum refl, of ?first k] by simp
  show "shuffle_list_round H seed r input ! k = input ! swap_or_not H seed ?n r k"
  proof (cases "k \<le> ?p")
    case True
    then have "mirror_at H seed r (?p + ?n) (?p + 1) (?n - 1) k = k" by (simp add: mirror_at_def)
    moreover have "mirror_at H seed r ?p 0 ?p k = swap_or_not H seed ?n r k"
      using True mirrored_eq[OF p k] by (simp add: mirror_at_def swap_or_not_def Let_def max.commute)
    ultimately show ?thesis using round second first[OF k] by simp
  next
    case False
    let ?m = "mirror_at H seed r (?p + ?n) (?p + 1) (?n - 1) k"
    have "k \<le> ?n - 1" using k by simp
    then have "?m = swap_or_not H seed ?n r k"
      using False k mirrored_eq[OF p k] by (simp add: mirror_at_def swap_or_not_def Let_def max.commute)
    moreover have "?p < ?m" "?m < ?n" using False k by (auto simp: mirror_at_def)
    moreover from this have "mirror_at H seed r ?p 0 ?p ?m = ?m" by (simp add: mirror_at_def[of _ _ _ _ 0])
    ultimately show ?thesis using round second first by simp
  qed
qed

lemma fold_list_rounds:
  assumes "k < length input"
  shows "fold (shuffle_list_round H seed) rs input ! k =
      input ! fold (swap_or_not H seed (length input)) (rev rs) k \<and>
    length (fold (shuffle_list_round H seed) rs input) = length input"
  using assms
proof (induction rs arbitrary: input)
  case (Cons r rs)
  let ?input = "shuffle_list_round H seed r input"
  have len: "length ?input = length input" using shuffle_list_round_eq(2)[OF Cons.prems] .
  have IH: "fold (shuffle_list_round H seed) rs ?input ! k =
      ?input ! fold (swap_or_not H seed (length input)) (rev rs) k"
      "length (fold (shuffle_list_round H seed) rs ?input) = length input"
    using Cons.IH[of ?input] Cons.prems len by simp_all
  have "fold (swap_or_not H seed (length input)) (rev rs) k < length input"
    using fold_swaps_less[OF Cons.prems] .
  then show ?case using IH shuffle_list_round_eq(1) by simp
qed simp

section \<open>The properties of the shuffle\<close>

text \<open>C14: Within the supported list size, shuffling an index and un-shuffling it are total, stay
  within the list, and undo each other, whatever the hash function and the round count.\<close>

theorem shuffled_index_roundtrip:
  assumes "index < N" "unat N \<le> 2 ^ 40"
  shows "\<exists>k m. ShuffledIndex cfg H index N seed = Ok k \<and> k < N \<and> UnShuffledIndex cfg H k N seed = Ok index \<and>
    UnShuffledIndex cfg H index N seed = Ok m \<and> m < N \<and> ShuffledIndex cfg H m N seed = Ok index"
proof (cases "ShuffleRoundCount cfg = 0")
  case True
  then show ?thesis using assms(1) by (simp add: ShuffledIndex_def UnShuffledIndex_def ComputeShuffledIndex_def)
next
  case False
  define rs where "rs = rounds_of (ucast (ShuffleRoundCount cfg))"
  let ?up = "fold (swap_or_not H seed (unat N)) rs" and ?down = "fold (swap_or_not H seed (unat N)) (rev rs)"
  have run: "\<exists>k. ComputeShuffledIndex cfg H i N seed b = Ok k \<and> k < N \<and>
      unat k = (if b then ?up else ?down) (unat i)" if "i < N" for i b
    using ComputeShuffledIndex_eq[OF that assms(2) False, of H seed b] that
      fold_swaps_less[of "unat i" "unat N" H seed "if b then rs else rev rs"]
    by (auto simp: rs_def word_less_nat_alt)
  have i: "unat index < unat N" using assms(1) by (simp add: word_less_nat_alt)
  obtain k where k: "ShuffledIndex cfg H index N seed = Ok k" "k < N" "unat k = ?up (unat index)"
    using run[OF assms(1), of True] by (auto simp: ShuffledIndex_def)
  obtain m where m: "UnShuffledIndex cfg H index N seed = Ok m" "m < N" "unat m = ?down (unat index)"
    using run[OF assms(1), of False] by (auto simp: UnShuffledIndex_def)
  have "?down (unat k) = unat index" "?up (unat m) = unat index"
    using fold_swaps_inverse[OF i, of H seed rs] fold_swaps_inverse[OF i, of H seed "rev rs"] k(3) m(3) by simp_all
  then have "UnShuffledIndex cfg H k N seed = Ok index" "ShuffledIndex cfg H m N seed = Ok index"
    using run[OF k(2), of False] run[OF m(2), of True]
    by (auto simp: UnShuffledIndex_def ShuffledIndex_def word_unat_eq_iff)
  with k m show ?thesis by blast
qed

text \<open>C13: The optimised list shuffle agrees with the one-index shuffle: position \<open>i\<close> of the un-shuffled
  list holds the element at the shuffled index of \<open>i\<close>, and position \<open>i\<close> of the shuffled list the
  element at the un-shuffled index of \<open>i\<close>. It holds for every list of at most 2^40 elements, for
  every number of rounds below 256 and for every hash function.\<close>

theorem list_shuffle_matches_index_shuffle:
  assumes "length input \<le> 2 ^ 40" "ShuffleRoundCount cfg < 256" "i < length input"
  shows "\<exists>unshuffled shuffled k m.
    UnshuffleList cfg H input seed = Ok unshuffled \<and> length unshuffled = length input \<and>
    ShuffledIndex cfg H (of_nat i) (of_nat (length input)) seed = Ok k \<and> unshuffled ! i = input ! unat k \<and>
    ShuffleList cfg H input seed = Ok shuffled \<and> length shuffled = length input \<and>
    UnShuffledIndex cfg H (of_nat i) (of_nat (length input)) seed = Ok m \<and> shuffled ! i = input ! unat m"
proof -
  let ?n = "length input" and ?N = "of_nat (length input) :: u64" and ?i = "of_nat i :: u64"
  have un: "unat ?N = ?n" "unat ?i = i" using assms(1,3) by (simp_all add: unat_of_nat_u64)
  have iN: "?i < ?N" "unat ?N \<le> 2 ^ 40" using assms(1,3) un by (simp_all add: word_less_nat_alt)
  have size: "\<not> ?N > maxShuffleListSize"
    using assms(1) un(1) by (simp add: maxShuffleListSize_def word_less_nat_alt)
  define rs where "rs = rounds_of (ucast (ShuffleRoundCount cfg))"
  have index: "\<exists>k. ComputeShuffledIndex cfg H ?i ?N seed b = Ok k \<and>
      unat k = (if ShuffleRoundCount cfg = 0 then i else fold (swap_or_not H seed ?n) (if b then rs else rev rs) i)" for b
  proof (cases "ShuffleRoundCount cfg = 0")
    case True
    then show ?thesis using un by (simp add: ComputeShuffledIndex_def)
  next
    case False
    then show ?thesis using ComputeShuffledIndex_eq[OF iN False, of H seed b] un by (cases b) (simp_all add: rs_def)
  qed
  have list: "\<exists>out. innerShuffleList cfg H input seed b = Ok out \<and> length out = ?n \<and>
      out ! i = input ! (if ShuffleRoundCount cfg = 0 then i else fold (swap_or_not H seed ?n) (if b then rev rs else rs) i)" for b
  proof (cases "ShuffleRoundCount cfg = 0 \<or> ?n \<le> 1")
    case True
    moreover have "fold (swap_or_not H seed ?n) (if b then rev rs else rs) i = i" if "?n \<le> 1"
      using fold_swaps_less[OF assms(3), of H seed "if b then rev rs else rs"] that assms(3) by simp
    ultimately show ?thesis using size by (auto simp: innerShuffleList_def)
  next
    case False
    have "unat (ucast (ShuffleRoundCount cfg) :: u8) = unat (ShuffleRoundCount cfg)"
      using assms(2) by (simp add: unsigned_ucast_eq take_bit_eq_mod word_less_nat_alt)
    then have "(ucast (ShuffleRoundCount cfg) :: u8) \<noteq> 0" using False by (metis unsigned_0 unat_eq_zero)
    then show ?thesis using False size fold_list_rounds[OF assms(3), of H seed]
      by (auto simp: innerShuffleList_def Let_def round_loop_fold rs_def)
  qed
  from index[of True] index[of False] list[of True] list[of False] show ?thesis
    unfolding UnshuffleList_def ShuffleList_def ShuffledIndex_def UnShuffledIndex_def
    by (cases "ShuffleRoundCount cfg = 0") auto
qed

text \<open>A two-round shuffle of four validators with a hash function that mixes its input bytes.\<close>

definition example_hash :: "bytes \<Rightarrow> root" where
  "example_hash bs = fold (\<lambda>b h. (h + ucast b + 1) * 0x9E3779B97F4A7C15F39CC0605CEDC8341082276BF3A27251F86C6A11D0C18E95) bs 7"

definition example_shuffle_cfg :: beacon_config where
  "example_shuffle_cfg = mainnetBeaconConfig\<lparr>ShuffleRoundCount := 2\<rparr>"

theorem shuffled_index_witness:
  "\<exists>k m. ShuffledIndex example_shuffle_cfg example_hash 2 4 0 = Ok k \<and> k < 4 \<and>
    UnShuffledIndex example_shuffle_cfg example_hash k 4 0 = Ok 2 \<and>
    UnShuffledIndex example_shuffle_cfg example_hash 2 4 0 = Ok m \<and> m < 4 \<and>
    ShuffledIndex example_shuffle_cfg example_hash m 4 0 = Ok 2"
  by (rule shuffled_index_roundtrip) simp_all

theorem list_shuffle_witness:
  "\<exists>unshuffled k. UnshuffleList example_shuffle_cfg example_hash [10, 20, 30, 40] 0 = Ok unshuffled \<and>
    length unshuffled = 4 \<and>
    ShuffledIndex example_shuffle_cfg example_hash 2 4 0 = Ok k \<and>
    unshuffled ! 2 = [10, 20, 30, 40] ! unat k"
proof -
  have "ShuffleRoundCount example_shuffle_cfg < 256" by (simp add: example_shuffle_cfg_def)
  from list_shuffle_matches_index_shuffle[OF _ this, of "[10, 20, 30, 40]" 2 example_hash 0]
  show ?thesis by auto
qed

end
