(* ===== verification/Spec2Isabelle.thy ===== *)
theory Spec2Isabelle
  imports Forkchoice_Ghost Forkchoice_Insert Slasher_Flush Slasher_Migrate
    Validator_Hazards Multi_Value_Lists Shuffle
begin

text \<open>
  A model of parts of the Prysm beacon node and validator client, and the theorems that make them
  correct.

  \<^bold>\<open>The program.\<close> The slot clock and the checked integer types are used everywhere. The fork choice
  keeps the tree of blocks and the latest vote of every validator, and \<open>Head\<close> computes the block to
  build on. The slasher watches the attestations and blocks of all validators for votes that
  contradict each other, and keeps its history in a database. The validator client has its own
  protection, which refuses to sign anything slashable. The shuffle assigns validators to
  committees, and the multi-value slice lets many beacon states share their long lists.

  \<^bold>\<open>Conventions.\<close> \<open>Prelude\<close>: an \<open>outcome\<close> is a result, an error or a panic; \<open>uint64\<close> is
  \<open>64 word\<close>. \<open>Go_State\<close>: a method with a pointer receiver is a \<open>proc\<close>, a function on the state that
  returns an outcome and the new state, also when it fails. Pointers to nodes are indices into
  an explicit heap, Go maps are maps or association lists, nil pointers are \<open>None\<close>. Third-party
  code is a field of an environment record (\<open>fc_env\<close>, \<open>slasher_env\<close>, \<open>kv_env\<close>, \<open>protection_env\<close>) or a
  plain argument (the hash function of the shuffle), and what is relied on is a named hypothesis
  (\<open>bolt_ok\<close>, \<open>cursor_sound\<close>, \<open>codec_ok\<close>, \<open>protection_env_ok\<close>) that the witnesses discharge for concrete functions.

  \<^bold>\<open>Integers, time and bytes.\<close>
  \<^item> \<open>Math_Helper\<close> is \<open>math/math_helper.go\<close>: checked arithmetic is exact or reports the overflow; the
    cached Newton iteration computes the integer square root, and panics on one input, after which
    the cache is wrong.
  \<^item> \<open>Primitives\<close> is the arithmetic of \<open>consensus-types/primitives\<close> (slots, epochs, validator and builder
    indices). The locale \<open>checked_uint64\<close> is the contract that slots and epochs share.
  \<^item> \<open>Config\<close> has the fields of \<open>config/params\<close> that the other parts read.
  \<^item> \<open>Slots\<close> is \<open>time/slots/slottime.go\<close>: epochs and slots convert back and forth, the conversions near
    the top of the range do not wrap, times and slots are inverse exactly within the range of \<open>int64\<close>, and
    the version of a slot is the latest active fork before Gloas.
  \<^item> \<open>Bytes\<close> is \<open>encoding/bytesutil\<close>: round trips of integers, and setting and finding bits.

  \<^bold>\<open>Fork choice\<close> (\<open>beacon-chain/forkchoice/doubly-linked-tree\<close>).
  \<^item> \<open>Forkchoice_Types\<close> has the records \<open>node\<close>, \<open>payload_node\<close>, \<open>store\<close> and \<open>fork_choice\<close>;
    \<open>Forkchoice_Store\<close> the methods of \<open>Store\<close> and of the nodes; \<open>Forkchoice\<close> those of \<open>ForkChoice\<close>.
  \<^item> \<open>Forkchoice_Tree\<close> defines the tree invariant \<open>tree_ok\<close>, and \<open>Forkchoice_Insert\<close> shows that inserting
    blocks and payloads keeps it on every path, errors included, and adds the block.
  \<^item> \<open>Forkchoice_Pass\<close> is the locale of a recursion over the tree that writes one field of each node. It is
    interpreted for the weights (\<open>Forkchoice_Weights\<close>: every weight is the sum of the balances below)
    and for the best descendants (\<open>Forkchoice_Best\<close>: the heaviest viable child at every node).
  \<^item> \<open>Forkchoice_Votes\<close> has the ledger of votes: the balance of a node is what the latest votes for it add
    up to, kept by attestations, slashings and balance updates.
  \<^item> \<open>Forkchoice_Ghost\<close> adds the proposer boost and composes them: \<open>Head\<close> is the LMD-GHOST head for the
    votes, the balances of the justified state and the boost that are due when it is called. \<open>Forkchoice_Example\<close> is the store of
    the witnesses.

  \<^bold>\<open>Slasher\<close> (\<open>beacon-chain/slasher\<close>, \<open>beacon-chain/db/slasherkv\<close>).
  \<^item> \<open>Slasher_Params\<close>, \<open>Slasher_Types\<close>, \<open>Slasher_Chunks\<close> and \<open>Slasher_Detect\<close> model the addresses of
    the chunks, the messages and queues, the span chunks, and the service with its handlers.
  \<^item> \<open>Slasher_Spans\<close> gives the spans their meaning, once for both kinds through the locale \<open>span_order\<close>, and
    \<open>Slasher_Surround\<close> shows that surround votes are reported exactly while the current epoch is within
    the first history, and that one is missed afterwards.
  \<^item> \<open>Slasher_KV\<close> models the database. \<open>Slasher_Store\<close> shows that saved records are found, that double
    votes are reported and that pruning removes exactly the old records; \<open>Slasher_Migrate\<close> that the key
    migration loses no entry whatever its cursor returns, and that it ends with all keys migrated
    when the cursor is not disturbed by the changes; \<open>Slasher_Flush\<close> that the spans survive a flush, through the locale
    \<open>slasher_chunk_db\<close> which the database interprets.

  \<^bold>\<open>Validator client\<close> (\<open>validator/db/filesystem\<close>, \<open>io/file\<close>).
  \<^item> \<open>Filesystem\<close> models the calls of the operating system with a list of faults to come, and the wrappers
    of \<open>io/file/fileutil.go\<close>.
  \<^item> \<open>Validator_Protection\<close> models the minimal slashing protection, and shows that what it accepts in any
    sequence of calls is never slashable, whichever calls fail, unless a write is torn.
  \<^item> \<open>Validator_Hazards\<close> shows the two cases that are left: a proposal between the read and the write of an
    attestation is lost, and a torn write clears the protection.

  \<^bold>\<open>Shared lists and committees.\<close>
  \<^item> \<open>Multi_Value_Slice\<close> is \<open>container/multi-value-slice\<close>, with the invariant that every operation keeps, and
    \<open>Multi_Value_Lists\<close> its refinement of one list per object. The locale \<open>slice_reader\<close> is the Go
    interface \<open>MultiValueSlice\<close>, interpreted for both of its implementations.
  \<^item> \<open>Shuffle\<close> is \<open>beacon-chain/core/helpers/shuffle.go\<close>: the index shuffle is a permutation whose inverse
    is the un-shuffle, and the optimised list shuffle computes the same permutation.

  \<^bold>\<open>Fuel and bounds.\<close> Walks over the fork choice tree get \<open>tree_fuel\<close>, one more than there are nodes,
  which is more than the length of any path of a tree (\<open>tree_ok\<close> orders the nodes by index); \<open>removeNodeAndChildren\<close>
  and \<open>CommonAncestor\<close> get twice as much, since they visit two payload nodes or two branches. The
  update loops of the span chunks get one step for every epoch they can visit. The migration gets
  one pass more than the buckets have entries, which is shown to be enough for the attestations when
  the cursor is not disturbed; the walk of the migration over the proposals gets as many steps.
  Running out of fuel is a failure or a panic, never a result. The Newton iteration, the rounds
  and the swaps of the shuffle and the batches of the database are total functions with
  termination proofs. The shuffle is bounded by \<open>2 ^ 40\<close> elements, as the code checks, and the
  shared part of a multi-value slice by \<open>2 ^ 64\<close>, the range of its indices.

  \<^bold>\<open>Not modelled.\<close> The state transition, the beacon state, the operation pools and the block import
  work on generated protobuf and SSZ types and on BLS signatures, whose code is not part of the
  sources. The network, the remote interfaces, the node start, the tools and the other
  databases are input and output. Of the modelled packages, locks, goroutines, tickers, metrics,
  tracing and logging are left out; so are \<open>ForkChoiceDumpV2\<close>, the floating-point square root, the
  \<open>math/big\<close> helpers, the SSZ methods of the integer types, the file handling of the slasher
  database, and the configuration, backup and import functions of the file-system database.
\<close>

end
